(* ===== verification/Prelude.thy ===== *)
theory Prelude
  imports Main "HOL-Library.Word" "HOL-Library.Monad_Syntax"
begin

unbundle bit_operations_syntax

text \<open>
  What every component of the core shares: the C integer types, the view of the
  hardware that the drivers program (registers, the millisecond tick, calls into the
  vendor SDK), the polling loop that nearly every driver is built from, and the
  collections of rewrite rules the component theories fill.
\<close>

section \<open>C integers\<close>

type_synonym u8 = "8 word"
type_synonym u16 = "16 word"
type_synonym u32 = "32 word"
type_synonym u64 = "64 word"

named_theorems c_defs \<open>definitions of operations that the proofs of a component unfold\<close>
named_theorems inv_intros \<open>an operation keeps the invariant of its component\<close>

lemma unat_lt_2p32 [simp]: "unat (x :: u32) < 4294967296"
proof -
  have "unat x < 2 ^ LENGTH(32)" by (rule unsigned_less)
  then show ?thesis by simp
qed

lemma uint_lt_2p32 [simp]: "uint (x :: u32) < 4294967296"
proof -
  have "uint x < 2 ^ LENGTH(32)" by (rule unsigned_less)
  then show ?thesis by simp
qed

lemma unat_lt_256 [simp]: "unat (x :: u8) < 256"
proof -
  have "unat x < 2 ^ LENGTH(8)" by (rule unsigned_less)
  then show ?thesis by simp
qed

lemma u32_eq_iff: "(a :: u32) = b \<longleftrightarrow> unat a = unat b"
  by (rule word_unat_eq_iff)

lemma unat_minus_one_u32 [simp]: "unat (- 1 :: u32) = 4294967295"
  by (simp add: unsigned_minus_1_eq_mask mask_eq_exp_minus_1)

lemma unat_add_small:
  "unat (a :: 'a::len word) + unat b < 2 ^ LENGTH('a) \<Longrightarrow> unat (a + b) = unat a + unat b"
  by (simp add: unat_word_ariths)

lemma unat_add_u32:
  "unat (a :: u32) + unat b < 4294967296 \<Longrightarrow> unat (a + b) = unat a + unat b"
  by (simp add: unat_word_ariths)

lemma unat_sub_le: "(b :: 'a::len word) \<le> a \<Longrightarrow> unat (a - b) = unat a - unat b"
  by (simp add: unat_sub)

lemma unat_ucast_u8 [simp]: "unat (ucast (a :: u8) :: u32) = unat a"
  by transfer (simp add: take_bit_take_bit)

lemma ucast_ucast_u8 [simp]: "ucast (ucast (a :: u8) :: u32) = a"
  by transfer (simp add: take_bit_take_bit)

lemma ucast_u8_inject [simp]: "(ucast (a :: u8) :: u32) = ucast b \<longleftrightarrow> a = b"
  by (metis ucast_ucast_u8)

section \<open>Bits\<close>

lemma bit_not_u32: "n < 32 \<Longrightarrow> bit (NOT (x :: u32)) n \<longleftrightarrow> \<not> bit x n"
  by (simp add: bit_not_iff exp_eq_0_imp_not_bit)

lemma bit_pow_u32: "k < 32 \<Longrightarrow> bit (2 ^ k :: u32) n \<longleftrightarrow> n = k"
  by (auto simp: bit_exp_iff exp_eq_0_imp_not_bit)

lemma bit_push_one_u32: "k < 32 \<Longrightarrow> bit (push_bit k 1 :: u32) n \<longleftrightarrow> n = k"
  by (simp only: push_bit_eq_mult mult_1 bit_pow_u32)

lemma and_pow_u32: "(x :: u32) AND 2 ^ k = 0 \<longleftrightarrow> \<not> bit x k"
  by (rule and_exp_eq_0_iff_not_bit)

text \<open>Clearing a bit and setting it again.\<close>

lemma clear_then_set:
  assumes "bit (x :: u32) k" "k < 32"
  shows "(x AND NOT (2 ^ k)) OR 2 ^ k = x"
  by (rule bit_word_eqI)
    (use assms in \<open>auto simp only: bit_or_iff bit_and_iff bit_not_u32 bit_pow_u32 len_of_numeral_defs\<close>)

lemma clear_absent:
  assumes "\<not> bit (x :: u32) k" "k < 32"
  shows "x AND NOT (2 ^ k) = x"
  by (rule bit_word_eqI)
    (use assms in \<open>auto simp only: bit_or_iff bit_and_iff bit_not_u32 bit_pow_u32 len_of_numeral_defs\<close>)

lemma and_not_disjoint:
  assumes "v AND f = 0"
  shows "(v AND NOT x) AND f = (0 :: u32)"
proof -
  have "(v AND NOT x) AND f = (v AND f) AND NOT x" by (simp only: ac_simps)
  then show ?thesis using assms by simp
qed

lemma or_disjoint: "v AND f = 0 \<Longrightarrow> x AND f = 0 \<Longrightarrow> (v OR x) AND f = (0 :: u32)"
  by (simp add: bit.conj_disj_distrib2)

section \<open>The two cores\<close>

text \<open>
  \<open>ch32h4_core_num\<close> is 0 on the V3F and 1 on the V5F; an operation that depends on it
  takes the core that runs it as an argument.
\<close>

datatype core = V3F | V5F

definition core_num :: "core \<Rightarrow> u8" where
  "core_num c = (case c of V3F \<Rightarrow> 0 | V5F \<Rightarrow> 1)"

definition other :: "core \<Rightarrow> core" where
  "other c = (case c of V3F \<Rightarrow> V5F | V5F \<Rightarrow> V3F)"

lemma other_simps [simp]:
  "other V3F = V5F" "other V5F = V3F" "other (other c) = c" "other c \<noteq> c" "c \<noteq> other c"
  by (cases c; simp add: other_def)+

lemma core_cases: "c = d \<or> c = other d" for c d :: core
  by (cases c; cases d) simp_all

lemma UNIV_core: "UNIV = {V3F, V5F}"
  using core.exhaust by auto

instantiation core :: enum
begin

definition enum_core :: "core list" where "enum_core = [V3F, V5F]"
definition enum_all_core :: "(core \<Rightarrow> bool) \<Rightarrow> bool" where
  "enum_all_core P \<longleftrightarrow> P V3F \<and> P V5F"
definition enum_ex_core :: "(core \<Rightarrow> bool) \<Rightarrow> bool" where
  "enum_ex_core P \<longleftrightarrow> P V3F \<or> P V5F"

instance
  by standard (simp_all add: enum_core_def enum_all_core_def enum_ex_core_def UNIV_core)

end

lemma all_core: "(\<forall>c :: core. P c) \<longleftrightarrow> P V3F \<and> P V5F"
  using core.exhaust by metis

section \<open>Lists, as C arrays\<close>

lemma nth_list_update_cases:
  "i < length xs \<Longrightarrow> xs[i := v] ! j = (if j = i then v else xs ! j)"
  by simp

end
