(* ===== verification/Machine.thy ===== *)
theory Machine
  imports Prelude
begin

text \<open>
  The hardware as the drivers see it.  A \<open>machine\<close> is the interface between this core's
  C code and everything that is not in the repository: memory-mapped registers, words
  that another core or an interrupt handler writes, the millisecond tick, and the
  functions of the vendor SDK.  It is a parameter of every driver definition; a property
  that needs something of the hardware (a register that reads back what was written, a
  tick that advances) states it as a hypothesis about this parameter.

  The polling loop, and what it needs of the tick to end, are here because almost every
  driver waits the same way.
\<close>

section \<open>Registers and SDK calls\<close>

text \<open>
  The registers and the volatile words the modelled code names.  \<open>MEM32 a\<close> and
  \<open>MEM8 a\<close> are accesses through a pointer to address \<open>a\<close>.
\<close>

datatype reg =
  MEM32 u32 | MEM8 u32 | REG string
  | HSEM_RLRX u8
  | MSTATUS
  | FLASH_KEYR | FLASH_MODEKEYR | FLASH_STATR | FLASH_CTLR | FLASH_ADDR | FLASH_CFGR0
  | PFIC_CFGR
  | IPC_SET | IPC_CLR | IPC_CTLR | IPC_ENA
  | PARK_REQ core | PARK_ACK core | PARK_LIVE core

text \<open>
  Calls into the vendor SDK, by name, with the arguments as the source writes them: a
  constant of the vendor's headers by its name, a computed value as a word.
\<close>

datatype arg = Sym string | Num u32
datatype sdk = Call string "arg list"

record 'd machine =
  m_rd :: "reg \<Rightarrow> 'd \<Rightarrow> u32 \<times> 'd"
  m_wr :: "reg \<Rightarrow> u32 \<Rightarrow> 'd \<Rightarrow> 'd"
  m_millis :: "'d \<Rightarrow> u32 \<times> 'd"
  m_call :: "sdk \<Rightarrow> 'd \<Rightarrow> 'd"
  m_ask :: "sdk \<Rightarrow> 'd \<Rightarrow> u32 \<times> 'd"

text \<open>The C idioms \<open>reg |= x\<close> and \<open>reg &= x\<close>: a read, then a write.\<close>

definition m_or :: "'d machine \<Rightarrow> reg \<Rightarrow> u32 \<Rightarrow> 'd \<Rightarrow> 'd" where
  "m_or M r x d = (case m_rd M r d of (v, d') \<Rightarrow> m_wr M r (v OR x) d')"

definition m_and :: "'d machine \<Rightarrow> reg \<Rightarrow> u32 \<Rightarrow> 'd \<Rightarrow> 'd" where
  "m_and M r x d = (case m_rd M r d of (v, d') \<Rightarrow> m_wr M r (v AND x) d')"

text \<open>A read whose value is discarded, and statements in sequence.\<close>

definition m_touch :: "'d machine \<Rightarrow> reg \<Rightarrow> 'd \<Rightarrow> 'd" where
  "m_touch M r d = snd (m_rd M r d)"

fun do_all :: "('d \<Rightarrow> 'd) list \<Rightarrow> 'd \<Rightarrow> 'd" where
  "do_all [] d = d"
| "do_all (f # fs) d = do_all fs (f d)"

lemma do_all_append [simp]: "do_all (fs @ gs) d = do_all gs (do_all fs d)"
  by (induction fs arbitrary: d) simp_all

lemma do_all_inv:
  assumes "\<And>f d. f \<in> set fs \<Longrightarrow> P d \<Longrightarrow> P (f d)" "P d"
  shows "P (do_all fs d)"
  using assms by (induction fs arbitrary: d) simp_all

section \<open>Registers that are plain storage\<close>

definition val :: "'d machine \<Rightarrow> reg \<Rightarrow> 'd \<Rightarrow> u32" where
  "val M r d = fst (m_rd M r d)"

lemma m_or_eq: "m_or M r x d = m_wr M r (val M r d OR x) (snd (m_rd M r d))"
  by (simp add: m_or_def val_def split_beta)

lemma m_and_eq: "m_and M r x d = m_wr M r (val M r d AND x) (snd (m_rd M r d))"
  by (simp add: m_and_def val_def split_beta)

text \<open>
  \<open>stable M r\<close>: register \<open>r\<close> reads back the value last written to it and nothing else
  changes it: no other register access, no tick, no SDK call.
\<close>

definition stable :: "'d machine \<Rightarrow> reg \<Rightarrow> bool" where
  "stable M r \<longleftrightarrow>
     (\<forall>v d. val M r (m_wr M r v d) = v) \<and>
     (\<forall>r' v d. r' \<noteq> r \<longrightarrow> val M r (m_wr M r' v d) = val M r d) \<and>
     (\<forall>r' d. val M r (snd (m_rd M r' d)) = val M r d) \<and>
     (\<forall>d. val M r (snd (m_millis M d)) = val M r d) \<and>
     (\<forall>c d. val M r (m_call M c d) = val M r d) \<and>
     (\<forall>c d. val M r (snd (m_ask M c d)) = val M r d)"

lemma stable_wr_same: "stable M r \<Longrightarrow> val M r (m_wr M r v d) = v"
  by (simp add: stable_def)

lemma stable_wr_other: "stable M r \<Longrightarrow> r' \<noteq> r \<Longrightarrow> val M r (m_wr M r' v d) = val M r d"
  by (simp add: stable_def)

lemma stable_rd: "stable M r \<Longrightarrow> m_rd M r' d = (v, d') \<Longrightarrow> val M r d' = val M r d"
  by (metis snd_conv stable_def)

lemma stable_rd_snd: "stable M r \<Longrightarrow> val M r (snd (m_rd M r' d)) = val M r d"
  by (simp add: stable_def)

lemma stable_millis: "stable M r \<Longrightarrow> val M r (snd (m_millis M d)) = val M r d"
  by (simp add: stable_def)

lemma stable_call: "stable M r \<Longrightarrow> val M r (m_call M c d) = val M r d"
  by (simp add: stable_def)

lemma stable_ask: "stable M r \<Longrightarrow> val M r (snd (m_ask M c d)) = val M r d"
  by (simp add: stable_def)

lemma stable_or_same: "stable M r \<Longrightarrow> val M r (m_or M r x d) = val M r d OR x"
  by (simp add: m_or_def case_prod_beta stable_wr_same) (simp add: val_def)

lemma stable_or_other: "stable M r \<Longrightarrow> r' \<noteq> r \<Longrightarrow> val M r (m_or M r' x d) = val M r d"
  by (simp add: m_or_def case_prod_beta stable_wr_other stable_rd_snd)

lemma stable_and_same: "stable M r \<Longrightarrow> val M r (m_and M r x d) = val M r d AND x"
  by (simp add: m_and_def case_prod_beta stable_wr_same) (simp add: val_def)

lemma stable_and_other: "stable M r \<Longrightarrow> r' \<noteq> r \<Longrightarrow> val M r (m_and M r' x d) = val M r d"
  by (simp add: m_and_def case_prod_beta stable_wr_other stable_rd_snd)

lemmas stable_simps = stable_wr_same stable_wr_other stable_rd_snd stable_millis stable_call
  stable_ask stable_or_same stable_or_other stable_and_same stable_and_other

section \<open>Waiting without a clock\<close>

text \<open>
  \<open>guarded c g\<close> is \<open>while (!cond() && --guard)\<close> entered with \<open>guard = g\<close>: at most \<open>g\<close>
  evaluations of the condition.  The Boolean says whether it held in the end.
\<close>

fun guarded :: "('d \<Rightarrow> bool \<times> 'd) \<Rightarrow> nat \<Rightarrow> 'd \<Rightarrow> bool \<times> 'd" where
  "guarded c 0 d = (False, d)"
| "guarded c (Suc g) d =
     (case c d of (ok, d1) \<Rightarrow> if ok then (True, d1) else if g = 0 then (False, d1) else guarded c g d1)"

text \<open>\<open>spin c\<close> is \<open>while (!cond()) {}\<close>; \<open>None\<close> when it never ends.\<close>

partial_function (option) spin :: "('d \<Rightarrow> bool \<times> 'd) \<Rightarrow> 'd \<Rightarrow> 'd option" where
  "spin c d = (case c d of (ok, d1) \<Rightarrow> if ok then Some d1 else spin c d1)"

declare spin.simps [code]

lemma guarded_inv:
  assumes "\<And>d. P d \<Longrightarrow> P (snd (c d))" "P d"
  shows "P (snd (guarded c g d))"
  using assms(2)
proof (induction g arbitrary: d)
  case (Suc g)
  obtain ok d1 where c: "c d = (ok, d1)" by (cases "c d")
  have "P d1" using assms(1) [OF Suc.prems] c by simp
  then show ?case using Suc.IH c by simp
qed simp

lemma spin_inv:
  assumes "spin c d = Some d'" "\<forall>d. P d \<longrightarrow> P (snd (c d))" "P d"
  shows "P d'"
proof -
  have "(\<forall>d. P d \<longrightarrow> P (snd (c d))) \<longrightarrow> P d \<longrightarrow> P d'"
  proof (rule spin.raw_induct [OF _ assms(1)])
    fix spin' :: "('a \<Rightarrow> bool \<times> 'a) \<Rightarrow> 'a \<Rightarrow> 'a option" and c d d'
    assume ih: "\<And>c d d'. spin' c d = Some d' \<Longrightarrow> (\<forall>d. P d \<longrightarrow> P (snd (c d))) \<longrightarrow> P d \<longrightarrow> P d'"
      and e: "(case c d of (ok, d1) \<Rightarrow> if ok then Some d1 else spin' c d1) = Some d'"
    show "(\<forall>d. P d \<longrightarrow> P (snd (c d))) \<longrightarrow> P d \<longrightarrow> P d'"
      using e ih [of c "snd (c d)" d'] by (auto split: prod.splits if_splits)
  qed
  with assms(2,3) show ?thesis by blast
qed

text \<open>A wait ends when some number of evaluations away the condition holds.\<close>

lemma spin_returns:
  assumes "fst (c (((\<lambda>d. snd (c d)) ^^ n) d))"
  shows "\<exists>d'. spin c d = Some d'"
  using assms
proof (induction n arbitrary: d)
  case 0
  then show ?case by (subst spin.simps) (simp add: split_beta)
next
  case (Suc n)
  obtain ok d1 where c: "c d = (ok, d1)" by (cases "c d")
  have "fst (c (((\<lambda>d. snd (c d)) ^^ n) d1))"
    using Suc.prems by (simp only: funpow_Suc_right comp_apply c snd_conv)
  then show ?case using Suc.IH [of d1] c by (subst spin.simps) simp
qed

section \<open>Deadlines on the 32-bit millisecond tick\<close>

text \<open>The idiom \<open>(int32_t)(millis() - deadline) > 0\<close>.\<close>

definition timed_out :: "u32 \<Rightarrow> u32 \<Rightarrow> bool" where
  "timed_out deadline t \<longleftrightarrow> 0 < sint (t - deadline)"

text \<open>
  Within \<open>2 ^ 31\<close> milliseconds of the deadline the test is exact, across any number of
  wraps of the counter.
\<close>

lemma sint_u32_of_nat_diff:
  assumes "a < b + 2147483648" "b \<le> a + 2147483648"
  shows "sint (word_of_nat a - word_of_nat b :: u32) = int a - int b"
proof -
  have "word_of_nat a - word_of_nat b = (word_of_int (int a - int b) :: u32)"
    by (simp only: of_int_diff of_int_of_nat_eq)
  moreover have "sint (word_of_int (int a - int b) :: u32) = signed_take_bit 31 (int a - int b)"
    by (subst signed_of_int) simp
  moreover have "signed_take_bit 31 (int a - int b) = int a - int b"
    using assms by (intro signed_take_bit_int_eq_self) auto
  ultimately show ?thesis by simp
qed

lemma timed_out_exact:
  assumes "a < b + 2147483648" "b \<le> a + 2147483648"
  shows "timed_out (word_of_nat b) (word_of_nat a) \<longleftrightarrow> b < a"
  using assms by (simp add: timed_out_def sint_u32_of_nat_diff)

text \<open>Elapsed time by subtraction is exact for less than one turn of the counter.\<close>

lemma unat_u32_diff:
  assumes "S \<le> t" "t < S + 4294967296"
  shows "unat (word_of_nat t - word_of_nat S :: u32) = t - S"
proof -
  have "word_of_nat t - word_of_nat S = (word_of_nat (t - S) :: u32)"
    using assms(1) by (simp add: of_nat_diff)
  then show ?thesis
    using assms by (simp only: unsigned_of_nat of_nat_id) (simp add: take_bit_nat_eq_self)
qed

lemma elapsed_exact:
  assumes "S \<le> t" "t < S + 4294967296"
  shows "(word_of_nat t - word_of_nat S :: u32) > timeout \<longleftrightarrow> S + unat timeout < t"
  using unat_u32_diff [OF assms] assms(1) by (auto simp: word_less_nat_alt)

section \<open>The polling loop\<close>

text \<open>
  \<open>poll c clk expired\<close> is the loop
  \<^verbatim>\<open>
    for (;;) { if (cond()) return x; if (expired(millis())) return timeout; }
  \<close>
  with \<open>c\<close> one evaluation of the condition (\<open>Some x\<close> when it holds), \<open>clk\<close> a reading of
  the tick and \<open>expired\<close> the deadline test.  The value \<open>None\<close> of the outer option is a
  loop that never returns; \<open>Some (None, d)\<close> is the timeout.
\<close>

partial_function (option) poll ::
  "('d \<Rightarrow> 'a option \<times> 'd) \<Rightarrow> ('d \<Rightarrow> u32 \<times> 'd) \<Rightarrow> (u32 \<Rightarrow> bool) \<Rightarrow> 'd \<Rightarrow> ('a option \<times> 'd) option"
where
  "poll c clk expired d =
     (case c d of (r, d1) \<Rightarrow>
        (case r of
           Some x \<Rightarrow> Some (Some x, d1)
         | None \<Rightarrow>
            (case clk d1 of (t, d2) \<Rightarrow>
               if expired t then Some (None, d2) else poll c clk expired d2)))"

declare poll.simps [code]

text \<open>
  What a tick must do for a poll to end.  \<open>T\<close> is the time in milliseconds since reset,
  unbounded; the 32-bit counter is its low word.  Time never runs backwards, a pass of the
  loop takes less than \<open>2 ^ 30\<close> ms, and there is no endless run of passes within one
  millisecond: \<open>R\<close> bounds how many can still follow.
\<close>

definition ticking :: "('d \<Rightarrow> nat) \<Rightarrow> ('d \<Rightarrow> nat) \<Rightarrow> ('d \<Rightarrow> 'a option \<times> 'd) \<Rightarrow> ('d \<Rightarrow> u32 \<times> 'd) \<Rightarrow> bool" where
  "ticking T R c clk \<longleftrightarrow>
     (\<forall>d. let d1 = snd (c d); d2 = snd (clk d1) in
        fst (clk d1) = word_of_nat (T d1) \<and> T d \<le> T d1 \<and> T d1 \<le> T d2 \<and>
        T d2 < T d + 1073741824 \<and> (T d2 = T d \<longrightarrow> R d2 < R d))"

lemma ticking_step:
  assumes "ticking T R c clk" "c d = (r, d1)" "clk d1 = (t, d2)"
  shows "t = word_of_nat (T d1)" "T d \<le> T d1" "T d1 \<le> T d2" "T d2 < T d + 1073741824"
    "T d2 = T d \<Longrightarrow> R d2 < R d"
  using assms(1) [unfolded ticking_def, rule_format, of d] assms(2,3)
  by (auto simp: Let_def)

text \<open>
  The loop ends, and a timeout is reported only after the deadline has really passed.
\<close>

lemma poll_returns:
  assumes tick: "ticking T R c clk"
    and exact: "\<And>t. T d0 \<le> t \<Longrightarrow> t < D + 2147483648 \<Longrightarrow> expired (word_of_nat t) \<longleftrightarrow> D < t"
    and start: "T d0 \<le> T d" "T d < D + 1073741824"
  shows "\<exists>r d'. poll c clk expired d = Some (r, d') \<and> T d \<le> T d' \<and> (r = None \<longrightarrow> D < T d')"
  using start
proof (induction d rule: wf_induct_rule [OF wf_measures [of "[\<lambda>d. D + 1073741824 - T d, R]"]])
  case (1 d)
  obtain r d1 where c: "c d = (r, d1)" by (cases "c d")
  obtain t d2 where k: "clk d1 = (t, d2)" by (cases "clk d1")
  note s = ticking_step [OF tick c k]
  have e: "expired t \<longleftrightarrow> D < T d1"
    using s 1(2,3) exact [of "T d1"] by simp
  show ?case
  proof (cases "r = None \<and> T d1 \<le> D")
    case True
    have "(d2, d) \<in> measures [\<lambda>d. D + 1073741824 - T d, R]"
      using s True 1(3) by (cases "T d2 = T d") auto
    then have "\<exists>r d'. poll c clk expired d2 = Some (r, d') \<and> T d2 \<le> T d' \<and> (r = None \<longrightarrow> D < T d')"
      using 1(1) [of d2] s 1(2) True by simp
    then show ?thesis using c k True e s by (subst poll.simps) auto
  next
    case False
    then show ?thesis using c k e s by (subst poll.simps) (auto split: option.splits)
  qed
qed

lemma poll_inv:
  fixes c :: "'d \<Rightarrow> 'a option \<times> 'd" and d :: 'd
  assumes "poll c clk expired d = Some (r, d')"
    and "\<forall>d. P d \<longrightarrow> P (snd (c d))" "\<forall>d. P d \<longrightarrow> P (snd (clk d))" "P d"
  shows "P d'"
proof -
  have "(\<forall>d. P d \<longrightarrow> P (snd (c d))) \<longrightarrow> (\<forall>d. P d \<longrightarrow> P (snd (clk d))) \<longrightarrow> P d \<longrightarrow> P (snd (r, d'))"
  proof (rule poll.raw_induct [OF _ assms(1), where P = "\<lambda>(c :: 'd \<Rightarrow> 'a option \<times> 'd) clk e d y.
      (\<forall>d. P d \<longrightarrow> P (snd (c d))) \<longrightarrow> (\<forall>d. P d \<longrightarrow> P (snd (clk d))) \<longrightarrow> P d \<longrightarrow> P (snd y)"])
    fix p :: "('d \<Rightarrow> 'a option \<times> 'd) \<Rightarrow> ('d \<Rightarrow> u32 \<times> 'd) \<Rightarrow> (u32 \<Rightarrow> bool) \<Rightarrow> 'd \<Rightarrow> ('a option \<times> 'd) option"
      and c clk e d y
    assume ih: "\<And>c clk e d y. p c clk e d = Some y \<Longrightarrow>
        (\<forall>d. P d \<longrightarrow> P (snd (c d))) \<longrightarrow> (\<forall>d. P d \<longrightarrow> P (snd (clk d))) \<longrightarrow> P d \<longrightarrow> P (snd y)"
      and eq: "(case c d of (None, d1) \<Rightarrow> (case clk d1 of (t, d2) \<Rightarrow>
          if e t then Some (None, d2) else p c clk e d2) | (Some x, d1) \<Rightarrow> Some (Some x, d1)) = Some y"
    show "(\<forall>d. P d \<longrightarrow> P (snd (c d))) \<longrightarrow> (\<forall>d. P d \<longrightarrow> P (snd (clk d))) \<longrightarrow> P d \<longrightarrow> P (snd y)"
    proof (intro impI)
      assume h: "\<forall>d. P d \<longrightarrow> P (snd (c d))" "\<forall>d. P d \<longrightarrow> P (snd (clk d))" "P d"
      obtain r d1 where c: "c d = (r, d1)" by (cases "c d")
      obtain t d2 where k: "clk d1 = (t, d2)" by (cases "clk d1")
      have "P d1" "P d2" using h c k by (metis snd_conv)+
      then show "P (snd y)" using eq c k ih [of c clk e d2 y] h by (auto split: option.splits if_splits)
    qed
  qed
  then show ?thesis using assms(2-4) by simp
qed

text \<open>The poll ends on the condition with the condition having just held.\<close>

lemma poll_found:
  fixes c :: "'d \<Rightarrow> 'a option \<times> 'd" and d :: 'd
  assumes "poll c clk expired d = Some (Some x, d')"
  shows "\<exists>d0. c d0 = (Some x, d')"
proof -
  have "fst (Some x, d') \<noteq> None \<longrightarrow> (\<exists>d0. c d0 = (Some x, d'))"
  proof (rule poll.raw_induct [OF _ assms, where P = "\<lambda>(c :: 'd \<Rightarrow> 'a option \<times> 'd) clk e d y. fst y \<noteq> None \<longrightarrow> (\<exists>d0. c d0 = y)"])
    fix p :: "('d \<Rightarrow> 'a option \<times> 'd) \<Rightarrow> ('d \<Rightarrow> u32 \<times> 'd) \<Rightarrow> (u32 \<Rightarrow> bool) \<Rightarrow> 'd \<Rightarrow> ('a option \<times> 'd) option"
      and c clk e d y
    assume "\<And>c clk e d y. p c clk e d = Some y \<Longrightarrow> fst y \<noteq> None \<longrightarrow> (\<exists>d0. c d0 = y)"
      and "(case c d of (None, d1) \<Rightarrow> (case clk d1 of (t, d2) \<Rightarrow>
          if e t then Some (None, d2) else p c clk e d2) | (Some x, d1) \<Rightarrow> Some (Some x, d1)) = Some y"
    then show "fst y \<noteq> None \<longrightarrow> (\<exists>d0. c d0 = y)"
      by (auto split: option.splits if_splits prod.splits)
  qed
  then show ?thesis by simp
qed

section \<open>Waiting with a deadline\<close>

text \<open>
  The usual deadline loop: \<^verbatim>\<open>deadline = millis() + ms; for (;;) { ... }\<close>, with \<open>wait_for\<close> giving
  what the condition found and \<open>wait_until\<close> whether it held in time.
\<close>

definition wait_for :: "'d machine \<Rightarrow> ('d \<Rightarrow> 'a option \<times> 'd) \<Rightarrow> u32 \<Rightarrow> 'd \<Rightarrow> ('a option \<times> 'd) option" where
  "wait_for M c ms d = (case m_millis M d of (t, d) \<Rightarrow> poll c (m_millis M) (timed_out (t + ms)) d)"

definition wait_until :: "'d machine \<Rightarrow> ('d \<Rightarrow> bool \<times> 'd) \<Rightarrow> u32 \<Rightarrow> 'd \<Rightarrow> (bool \<times> 'd) option" where
  "wait_until M c ms d =
     do { (r, d) \<leftarrow> wait_for M (\<lambda>d. case c d of (ok, d) \<Rightarrow> (if ok then Some () else None, d)) ms d;
          Some (r \<noteq> None, d) }"

text \<open>
  What the waits need of the machine: \<open>T\<close> is the time in milliseconds, whose low word
  \<open>millis\<close> reads; no single access takes 18 hours, and there is no endless run of accesses
  within one millisecond (\<open>R\<close> bounds how many readings of the tick can still follow).
\<close>

definition goes_on :: "('d \<Rightarrow> nat) \<Rightarrow> ('d \<Rightarrow> nat) \<Rightarrow> nat \<Rightarrow> ('d \<Rightarrow> 'd) \<Rightarrow> bool" where
  "goes_on T R n f \<longleftrightarrow> (\<forall>d. T d \<le> T (f d) \<and> T (f d) \<le> T d + n * 67108863 \<and> (T (f d) = T d \<longrightarrow> R (f d) \<le> R d))"

definition clock_runs :: "('d \<Rightarrow> nat) \<Rightarrow> ('d \<Rightarrow> nat) \<Rightarrow> 'd machine \<Rightarrow> bool" where
  "clock_runs T R M \<longleftrightarrow>
     (\<forall>d. fst (m_millis M d) = word_of_nat (T d)) \<and> goes_on T R 1 (\<lambda>d. snd (m_millis M d)) \<and>
     (\<forall>d. T (snd (m_millis M d)) = T d \<longrightarrow> R (snd (m_millis M d)) < R d) \<and>
     (\<forall>r. goes_on T R 1 (\<lambda>d. snd (m_rd M r d))) \<and> (\<forall>r v. goes_on T R 1 (m_wr M r v)) \<and>
     (\<forall>c. goes_on T R 1 (m_call M c)) \<and> (\<forall>c. goes_on T R 1 (\<lambda>d. snd (m_ask M c d)))"

lemma goes_on_comp: "goes_on T R m f \<Longrightarrow> goes_on T R n g \<Longrightarrow> goes_on T R (m + n) (\<lambda>d. g (f d))"
proof -
  assume f: "goes_on T R m f" and g: "goes_on T R n g"
  have "T d \<le> T (g (f d)) \<and> T (g (f d)) \<le> T d + (m + n) * 67108863 \<and> (T (g (f d)) = T d \<longrightarrow> R (g (f d)) \<le> R d)" for d
    using f [unfolded goes_on_def, rule_format, of d] g [unfolded goes_on_def, rule_format, of "f d"]
    by (auto simp: algebra_simps)
  then show ?thesis by (simp add: goes_on_def)
qed

lemma goes_on_mono: "goes_on T R n f \<Longrightarrow> T d \<le> T (f d)"
  by (simp add: goes_on_def)

lemma clock_runs_goes_on:
  assumes "clock_runs T R M"
  shows "goes_on T R 1 (\<lambda>d. snd (m_rd M r d))" "goes_on T R 1 (m_wr M r v)" "goes_on T R 1 (m_call M c)"
    "goes_on T R 1 (\<lambda>d. snd (m_ask M c d))"
  using assms by (simp_all add: clock_runs_def)

lemma goes_on_more: "goes_on T R m f \<Longrightarrow> m \<le> n \<Longrightarrow> goes_on T R n f"
  unfolding goes_on_def by (meson add_left_mono le_trans mult_le_mono1)

lemma wait_until_returns:
  assumes M: "clock_runs T R M" and c: "goes_on T R 3 (\<lambda>d. snd (c d))" and ms: "unat ms < 1073741824"
  shows "\<exists>ok d'. wait_until M c ms d = Some (ok, d') \<and> T d \<le> T d' \<and>
    (if ok then \<exists>d0. c d0 = (True, d') else T d + unat ms < T d')"
proof -
  let ?c = "\<lambda>d. case c d of (ok, d) \<Rightarrow> (if ok then Some () else None, d)"
  obtain t d1 where t: "m_millis M d = (t, d1)" by fastforce
  have m: "fst (m_millis M d) = word_of_nat (T d)" "T d \<le> T (snd (m_millis M d))"
    "T (snd (m_millis M d)) \<le> T d + 67108863"
    "T (snd (m_millis M d)) = T d \<Longrightarrow> R (snd (m_millis M d)) < R d" for d
    using M by (auto simp: clock_runs_def goes_on_def)
  have sc: "snd (?c d) = snd (c d)" for d by (simp add: split_beta)
  have tick: "ticking T R ?c (m_millis M)" unfolding ticking_def
  proof (intro allI, unfold Let_def sc)
    fix d
    let ?d1 = "snd (c d)"
    have "T d \<le> T ?d1" "T ?d1 \<le> T d + 3 * 67108863" "T ?d1 = T d \<longrightarrow> R ?d1 \<le> R d"
      using c by (auto simp: goes_on_def)
    then show "fst (m_millis M ?d1) = word_of_nat (T ?d1) \<and> T d \<le> T ?d1 \<and> T ?d1 \<le> T (snd (m_millis M ?d1)) \<and>
        T (snd (m_millis M ?d1)) < T d + 1073741824 \<and>
        (T (snd (m_millis M ?d1)) = T d \<longrightarrow> R (snd (m_millis M ?d1)) < R d)"
      using m [of ?d1] by auto
  qed
  have td: "t = word_of_nat (T d)" "T d \<le> T d1" "T d1 \<le> T d + 67108863" using m [of d] t by simp_all
  have dl: "t + ms = word_of_nat (T d + unat ms)" by (simp add: td(1))
  have exact: "timed_out (t + ms) (word_of_nat x) \<longleftrightarrow> T d + unat ms < x"
    if "T d \<le> x" "x < T d + unat ms + 2147483648" for x
    unfolding dl by (rule timed_out_exact) (use that ms in auto)
  have "\<exists>r d'. poll ?c (m_millis M) (timed_out (t + ms)) d1 = Some (r, d') \<and> T d1 \<le> T d' \<and> (r = None \<longrightarrow> T d + unat ms < T d')"
    by (rule poll_returns [OF tick exact td(2)]) (use td(3) in auto)
  then obtain r d' where p: "poll ?c (m_millis M) (timed_out (t + ms)) d1 = Some (r, d')" "T d1 \<le> T d'"
    "r = None \<longrightarrow> T d + unat ms < T d'" by blast
  have "\<exists>d0. c d0 = (True, d')" if "r \<noteq> None"
  proof -
    have "r = Some ()" using that by (cases r) auto
    then have "poll ?c (m_millis M) (timed_out (t + ms)) d1 = Some (Some (), d')" using p(1) by simp
    from poll_found [OF this] obtain d0 where "?c d0 = (Some (), d')" by (elim exE)
    then have "c d0 = (True, d')" by (cases "c d0") (simp split: if_splits)
    then show ?thesis by (rule exI)
  qed
  moreover have "wait_until M c ms d = Some (r \<noteq> None, d')" using t p(1) by (simp add: wait_until_def wait_for_def)
  moreover have "T d \<le> T d'" using td(2) p(2) by simp
  ultimately show ?thesis using p(3) by (cases r) auto
qed

lemma wait_for_inv:
  assumes "wait_for M c ms d = Some (r, d')"
    and "\<And>d. P d \<Longrightarrow> P (snd (c d))" "\<And>d. P d \<Longrightarrow> P (snd (m_millis M d))" "P d"
  shows "P d'"
proof -
  obtain t d1 where t: "m_millis M d = (t, d1)" by fastforce
  have p: "poll c (m_millis M) (timed_out (t + ms)) d1 = Some (r, d')"
    using assms(1) t by (simp add: wait_for_def)
  have "P d1" using assms(3) [OF assms(4)] t by simp
  then show ?thesis using poll_inv [OF p, of P] assms(2,3) by simp
qed

lemma wait_until_inv:
  assumes "wait_until M c ms d = Some (ok, d')"
    and "\<And>d. P d \<Longrightarrow> P (snd (c d))" "\<And>d. P d \<Longrightarrow> P (snd (m_millis M d))" "P d"
  shows "P d'"
proof -
  let ?c = "\<lambda>d. case c d of (ok, d) \<Rightarrow> (if ok then Some () else None, d)"
  obtain r where "wait_for M ?c ms d = Some (r, d')" using assms(1) by (auto simp: wait_until_def bind_eq_Some_conv)
  then show ?thesis by (rule wait_for_inv) (use assms(2-4) in \<open>simp_all add: split_beta\<close>)
qed

section \<open>Counted loops over a range\<close>

text \<open>
  \<open>for (off = 0; off < len; off += step) { if (!body(off)) fail; }\<close>.  An \<open>off\<close> that wraps
  round below \<open>len\<close> for ever is \<open>None\<close>.
\<close>

partial_function (option) for_step ::
  "(u32 \<Rightarrow> 'd \<Rightarrow> bool \<times> 'd) \<Rightarrow> u32 \<Rightarrow> u32 \<Rightarrow> u32 \<Rightarrow> 'd \<Rightarrow> (bool \<times> 'd) option" where
  "for_step body step len off d =
     (if off < len
      then (case body off d of (ok, d1) \<Rightarrow>
              if ok then for_step body step len (off + step) d1 else Some (False, d1))
      else Some (True, d))"

declare for_step.simps [code]

fun run_while :: "('x \<Rightarrow> 'd \<Rightarrow> bool \<times> 'd) \<Rightarrow> 'x list \<Rightarrow> 'd \<Rightarrow> bool \<times> 'd" where
  "run_while body [] d = (True, d)"
| "run_while body (x # xs) d =
     (case body x d of (ok, d1) \<Rightarrow> if ok then run_while body xs d1 else (False, d1))"

definition offsets :: "u32 \<Rightarrow> nat \<Rightarrow> u32 list" where
  "offsets step n = map (\<lambda>i. word_of_nat i * step) [0..<n]"

lemma run_while_inv:
  assumes "\<And>x d. x \<in> set xs \<Longrightarrow> P d \<Longrightarrow> P (snd (body x d))" "P d"
  shows "P (snd (run_while body xs d))"
  using assms
proof (induction xs arbitrary: d)
  case (Cons x xs)
  obtain ok d1 where b: "body x d = (ok, d1)" by (cases "body x d")
  have "P d1" using Cons.prems(1) [of x d] Cons.prems(2) b by simp
  then show ?case using Cons.IH [of d1] Cons.prems(1) b by simp
qed simp

lemma unat_offset:
  assumes "k * unat (step :: u32) < 4294967296"
  shows "unat (word_of_nat k * step) = k * unat step"
proof -
  have "word_of_nat k * step = (word_of_nat (k * unat step) :: u32)" by simp
  then show ?thesis
    using assms by (simp only: unsigned_of_nat of_nat_id) (simp add: take_bit_nat_eq_self)
qed

lemma for_step_from:
  assumes "0 < unat step" "unat len = n * unat step" "k \<le> n"
  shows "for_step body step len (word_of_nat k * step) d =
    Some (run_while body (map (\<lambda>i. word_of_nat i * step) [k..<n]) d)"
  using assms(3)
proof (induction "n - k" arbitrary: k d)
  case 0
  then have "k = n" by simp
  have "n * unat step < 4294967296" using unat_lt_2p32 [of len] assms(2) by simp
  then have "\<not> word_of_nat n * step < len"
    by (simp only: word_less_nat_alt unat_offset assms(2) order.irrefl not_False_eq_True)
  then show ?case using \<open>k = n\<close> by (subst for_step.simps) simp
next
  case (Suc m)
  then have k: "k < n" by simp
  have lt1: "k * unat step < n * unat step" using k assms(1) by simp
  have "n * unat step < 4294967296" using unat_lt_2p32 [of len] assms(2) by simp
  with lt1 have "k * unat step < 4294967296" by (rule less_trans)
  with lt1 have lt: "word_of_nat k * step < len"
    by (simp only: word_less_nat_alt assms(2) unat_offset)
  have nx: "word_of_nat k * step + step = word_of_nat (Suc k) * step" by (simp add: algebra_simps)
  have u: "[k..<n] = k # [Suc k..<n]" using k by (rule upt_conv_Cons)
  have ih: "for_step body step len (word_of_nat k * step + step) d1 =
      Some (run_while body (map (\<lambda>i. word_of_nat i * step) [Suc k..<n]) d1)" for d1
    unfolding nx using Suc.hyps k by (intro Suc.hyps(1)) auto
  show ?case using lt by (subst for_step.simps) (simp add: u ih split: prod.splits)
qed

lemma for_step_list:
  "0 < unat step \<Longrightarrow> unat len = n * unat step \<Longrightarrow>
   for_step body step len 0 d = Some (run_while body (offsets step n) d)"
  using for_step_from [of step len n 0] by (simp add: offsets_def)

section \<open>What was written\<close>

text \<open>
  \<open>logs M wl\<close>: \<open>wl d\<close> is the sequence of register writes so far; nothing but a write adds
  to it.
\<close>

definition logs :: "'d machine \<Rightarrow> ('d \<Rightarrow> (reg \<times> u32) list) \<Rightarrow> bool" where
  "logs M wl \<longleftrightarrow>
     (\<forall>r v d. wl (m_wr M r v d) = wl d @ [(r, v)]) \<and>
     (\<forall>r d. wl (snd (m_rd M r d)) = wl d) \<and>
     (\<forall>d. wl (snd (m_millis M d)) = wl d) \<and>
     (\<forall>c d. wl (m_call M c d) = wl d) \<and>
     (\<forall>c d. wl (snd (m_ask M c d)) = wl d)"

lemma logs_simps:
  assumes "logs M wl"
  shows "wl (m_wr M r v d) = wl d @ [(r, v)]" "wl (snd (m_rd M r d)) = wl d"
    "wl (snd (m_millis M d)) = wl d" "wl (m_call M c d) = wl d" "wl (snd (m_ask M c d)) = wl d"
    "wl (m_or M r v d) = wl d @ [(r, val M r d OR v)]"
    "wl (m_and M r v d) = wl d @ [(r, val M r d AND v)]"
  using assms by (simp_all add: logs_def m_or_def m_and_def val_def split_beta)

text \<open>The values written to the registers in \<open>S\<close>, in order.\<close>

definition writes_to :: "(reg \<Rightarrow> bool) \<Rightarrow> (reg \<times> u32) list \<Rightarrow> (reg \<times> u32) list" where
  "writes_to S ws = filter (\<lambda>(r, v). S r) ws"

lemma writes_to_simps [simp]:
  "writes_to S [] = []"
  "writes_to S ((r, v) # ws) = (if S r then (r, v) # writes_to S ws else writes_to S ws)"
  "writes_to S (xs @ ys) = writes_to S xs @ writes_to S ys"
  by (simp_all add: writes_to_def)

section \<open>A simulated machine\<close>

text \<open>
  Storage for every register, a log of the writes and a clock that advances by one at every
  reading.  \<open>ov\<close> gives the registers that read as something else whatever was written.
  Concrete instances of the properties run on it.
\<close>

record sim =
  regs :: "reg \<Rightarrow> u32"
  wlog :: "(reg \<times> u32) list"
  calls :: "sdk list"
  now :: nat

definition sim_machine :: "(reg \<Rightarrow> u32 option) \<Rightarrow> sim machine" where
  "sim_machine ov =
     \<lparr>m_rd = (\<lambda>r d. (case ov r of Some v \<Rightarrow> v | None \<Rightarrow> regs d r, d)),
      m_wr = (\<lambda>r v d. d\<lparr>regs := (regs d)(r := v), wlog := wlog d @ [(r, v)]\<rparr>),
      m_millis = (\<lambda>d. (word_of_nat (now d), d\<lparr>now := Suc (now d)\<rparr>)),
      m_call = (\<lambda>c d. d\<lparr>calls := calls d @ [c]\<rparr>),
      m_ask = (\<lambda>c d. (0, d\<lparr>calls := calls d @ [c]\<rparr>))\<rparr>"

definition sim_init :: sim where
  "sim_init = \<lparr>regs = (\<lambda>_. 0), wlog = [], calls = [], now = 0\<rparr>"

lemma sim_stable: "ov r = None \<Longrightarrow> stable (sim_machine ov) r"
  by (auto simp: stable_def sim_machine_def val_def)

lemma sim_logs: "logs (sim_machine ov) wlog"
  by (auto simp: logs_def sim_machine_def)

lemma sim_ticking:
  "(\<And>d. now (snd (c d)) = now d) \<Longrightarrow> ticking now (\<lambda>_. 0) c (m_millis (sim_machine ov))"
  by (auto simp: ticking_def sim_machine_def)

end
