(* ===== verification/Itoa.thy ===== *)
theory Itoa
  imports Prelude
begin

text \<open>
  \<open>cores/ch32h4/itoa.c\<close>: \<open>itoa\<close>, \<open>ltoa\<close>, \<open>utoa\<close>, \<open>ultoa\<close>.  \<open>int\<close> and \<open>long\<close> are
  both 32 bits on this part, so all four work on the same word.  A conversion returns the
  characters written before the terminating NUL; \<open>None\<close> is a write below the start of
  the local digit buffer, which C leaves undefined and which is proved not to happen.
\<close>

section \<open>The conversions\<close>

definition digit_char :: "u32 \<Rightarrow> char" where
  "digit_char d = char_of (if d < 10 then 48 + unat d else 97 + unat d - 10 :: nat)"

text \<open>
  The do-while loop of \<open>utoa_common\<close>.  \<open>p\<close> is the index of the write pointer in
  \<open>buf[33]\<close>, \<open>acc\<close> what is already behind it.
\<close>

fun utoa_loop :: "u32 \<Rightarrow> u32 \<Rightarrow> nat \<Rightarrow> string \<Rightarrow> string option" where
  "utoa_loop radix value 0 acc = None"
| "utoa_loop radix value (Suc p) acc =
     (let digit = value mod radix;
          acc' = digit_char digit # acc;
          value' = value div radix
      in if value' \<noteq> 0 then utoa_loop radix value' p acc' else Some acc')"

definition utoa_common :: "u32 \<Rightarrow> u32 \<Rightarrow> string option" where
  "utoa_common value radix = utoa_loop radix value (8 * 4 + 1 - 1) []"

definition radix_bad :: "u32 \<Rightarrow> bool" where
  "radix_bad radix \<longleftrightarrow> sint radix < 2 \<or> 36 < sint radix"

definition ltoa_common :: "u32 \<Rightarrow> u32 \<Rightarrow> string option" where
  "ltoa_common value radix =
     (if radix_bad radix then Some []
      else if radix = 10 \<and> sint value < 0
      then map_option (Cons (CHR ''-'')) (utoa_common (- value) radix)
      else utoa_common value radix)"

definition itoa :: "u32 \<Rightarrow> u32 \<Rightarrow> string option" where
  "itoa value radix = ltoa_common value radix"

definition ltoa :: "u32 \<Rightarrow> u32 \<Rightarrow> string option" where
  "ltoa value radix = ltoa_common value radix"

definition utoa :: "u32 \<Rightarrow> u32 \<Rightarrow> string option" where
  "utoa value radix = (if radix_bad radix then Some [] else utoa_common value radix)"

definition ultoa :: "u32 \<Rightarrow> u32 \<Rightarrow> string option" where
  "ultoa value radix = (if radix_bad radix then Some [] else utoa_common value radix)"

section \<open>Reading a number back\<close>

definition digit_val :: "char \<Rightarrow> nat" where
  "digit_val c = (if of_char c < (58 :: nat) then of_char c - 48 else of_char c - 87)"

definition read_nat :: "nat \<Rightarrow> string \<Rightarrow> nat" where
  "read_nat b s = foldl (\<lambda>n c. n * b + digit_val c) 0 s"

definition read_int :: "nat \<Rightarrow> string \<Rightarrow> int" where
  "read_int b s = (case s of c # cs \<Rightarrow> if c = CHR ''-'' then - int (read_nat b cs)
                                      else int (read_nat b s)
                  | [] \<Rightarrow> 0)"

section \<open>Digits\<close>

lemma of_digit_char:
  "unat d < 36 \<Longrightarrow> of_char (digit_char d) = (if unat d < 10 then 48 + unat d else 87 + unat d)"
  by (auto simp: digit_char_def word_less_nat_alt of_char_of)

lemma digit_val_char: "unat d < 36 \<Longrightarrow> digit_val (digit_char d) = unat d"
  by (simp add: digit_val_def of_digit_char)

lemma digit_char_not_minus:
  assumes "unat d < 36"
  shows "digit_char d \<noteq> CHR ''-''"
proof
  assume "digit_char d = CHR ''-''"
  then have "of_char (digit_char d) = (45 :: nat)" by simp
  with assms show False by (simp add: of_digit_char split: if_splits)
qed

text \<open>The characters a conversion in radix \<open>b\<close> may write.\<close>

definition radix_digit :: "nat \<Rightarrow> char \<Rightarrow> bool" where
  "radix_digit b c \<longleftrightarrow> (\<exists>d. unat d < b \<and> c = digit_char d)"

lemma radix_digitI: "unat d < b \<Longrightarrow> radix_digit b (digit_char d)"
  by (auto simp: radix_digit_def)

lemma foldl_read:
  "foldl (\<lambda>n c. n * b + digit_val c) k s = k * b ^ length s + foldl (\<lambda>n c. n * b + digit_val c) 0 s"
proof (induction s arbitrary: k)
  case Nil
  then show ?case by simp
next
  case (Cons c s)
  from Cons [of "k * b + digit_val c"] Cons [of "digit_val c"] show ?case
    by (simp add: algebra_simps)
qed

lemma read_nat_Cons: "read_nat b (c # s) = digit_val c * b ^ length s + read_nat b s"
  using foldl_read [of b "digit_val c" s] by (simp add: read_nat_def)

section \<open>The loop\<close>

text \<open>
  With room for the digits of \<open>u\<close> the loop returns, and what it returns is the digits
  of \<open>u\<close> in front of what was there.
\<close>

lemma utoa_loop_result:
  assumes "2 \<le> unat radix" "unat radix \<le> 36" "unat u < unat radix ^ p" "0 < p"
  shows "\<exists>ds. utoa_loop radix u p acc = Some (ds @ acc) \<and> ds \<noteq> [] \<and> length ds \<le> p \<and>
      read_nat (unat radix) ds = unat u \<and> (\<forall>c \<in> set ds. radix_digit (unat radix) c) \<and>
      (u \<noteq> 0 \<longrightarrow> hd ds \<noteq> CHR ''0'')"
  using assms
proof (induction p arbitrary: u acc)
  case 0
  then show ?case by simp
next
  case (Suc p)
  let ?r = "unat radix"
  let ?d = "u mod radix" and ?v = "u div radix"
  have d: "unat ?d = unat u mod ?r" and v: "unat ?v = unat u div ?r"
    by (simp_all add: unat_mod unat_div)
  have dlt: "unat ?d < ?r" using Suc.prems d by simp
  show ?case
  proof (cases "?v = 0")
    case True
    then have small: "unat u < ?r"
      using v Suc.prems(1) by (simp add: div_eq_0_iff)
    have "u \<noteq> 0 \<longrightarrow> digit_char ?d \<noteq> CHR ''0''"
    proof
      assume "u \<noteq> 0"
      then have "0 < unat ?d" using small d by (simp add: unat_gt_0)
      then have "of_char (digit_char ?d) \<noteq> (48 :: nat)"
        using dlt Suc.prems(2) by (simp add: of_digit_char)
      then show "digit_char ?d \<noteq> CHR ''0''" by auto
    qed
    then show ?thesis
      using True dlt small d Suc.prems radix_digitI [OF dlt]
      by (auto simp: Let_def read_nat_def digit_val_char intro!: exI [of _ "[digit_char ?d]"])
  next
    case False
    have "?r ^ Suc p = ?r * ?r ^ p" by simp
    then have vlt: "unat ?v < ?r ^ p"
      using Suc.prems v by (simp add: less_mult_imp_div_less mult.commute)
    have "0 < p" using vlt False by (cases p) (auto simp: unat_eq_zero)
    from Suc.IH [OF Suc.prems(1,2) vlt this, of "digit_char ?d # acc"]
    obtain ds where ds: "utoa_loop radix ?v p (digit_char ?d # acc) = Some (ds @ digit_char ?d # acc)"
      "ds \<noteq> []" "length ds \<le> p" "read_nat ?r ds = unat ?v" "\<forall>c \<in> set ds. radix_digit ?r c"
      "?v \<noteq> 0 \<longrightarrow> hd ds \<noteq> CHR ''0''"
      by auto
    have "read_nat ?r (ds @ [digit_char ?d]) = read_nat ?r ds * ?r + unat ?d"
      using dlt Suc.prems(2) by (simp add: read_nat_def digit_val_char)
    then have "read_nat ?r (ds @ [digit_char ?d]) = unat u"
      using ds(4) d v by simp
    then show ?thesis
      using False ds radix_digitI [OF dlt]
      by (auto simp: Let_def intro!: exI [of _ "ds @ [digit_char ?d]"])
  qed
qed

lemma utoa_common_result:
  assumes "2 \<le> unat radix" "unat radix \<le> 36"
  shows "\<exists>ds. utoa_common u radix = Some ds \<and> ds \<noteq> [] \<and> length ds \<le> 32 \<and>
    read_nat (unat radix) ds = unat u \<and> (\<forall>c \<in> set ds. radix_digit (unat radix) c) \<and>
    (u \<noteq> 0 \<longrightarrow> hd ds \<noteq> CHR ''0'')"
proof -
  have "(2 :: nat) ^ 32 \<le> unat radix ^ 32"
    using assms(1) by (rule power_mono) simp
  then have "unat u < unat radix ^ 32"
    using unat_lt_2p32 [of u] by (simp del: unat_lt_2p32)
  then show ?thesis
    using utoa_loop_result [OF assms, of u 32 "[]"] by (auto simp: utoa_common_def)
qed

lemma radix_ok_unat:
  assumes "\<not> radix_bad radix"
  shows "2 \<le> unat radix \<and> unat radix \<le> 36"
proof -
  have s: "2 \<le> sint radix" "sint radix \<le> 36" using assms by (auto simp: radix_bad_def)
  have "uint radix = take_bit 32 (sint radix)" using uint_sint [of radix] by simp
  also have "\<dots> = sint radix" using s by (intro take_bit_int_eq_self) auto
  finally have "int (unat radix) = sint radix" by simp
  with s show ?thesis by linarith
qed

lemma sint_nonneg_eq_uint:
  assumes "0 \<le> sint (v :: u32)"
  shows "sint v = uint v"
proof -
  have "uint v = take_bit 32 (sint v)" using uint_sint [of v] by simp
  also have "\<dots> = sint v"
    using assms sint_lt [of v] by (intro take_bit_int_eq_self) auto
  finally show ?thesis by simp
qed

lemma uint_uminus_neg:
  assumes "sint (v :: u32) < 0"
  shows "uint (- v) = - sint v"
proof -
  have "uint (- v) = uint (word_of_int (- sint v) :: u32)" by simp
  also have "\<dots> = take_bit 32 (- sint v)" by (subst uint_word_of_int_eq) simp
  also have "\<dots> = - sint v"
    using assms sint_ge [of v] by (intro take_bit_int_eq_self) auto
  finally show ?thesis .
qed

lemma read_int_digits:
  assumes "\<forall>c \<in> set ds. radix_digit b c" "b \<le> 36"
  shows "read_int b ds = int (read_nat b ds)"
proof (cases ds)
  case (Cons c cs)
  with assms obtain d where "unat d < b" "c = digit_char d"
    by (auto simp: radix_digit_def)
  then have "c \<noteq> CHR ''-''" using digit_char_not_minus [of d] assms(2) by simp
  with Cons show ?thesis by (simp add: read_int_def)
qed (simp add: read_int_def read_nat_def)

section \<open>Properties\<close>

text \<open>
  C18.  For every radix from 2 to 36, \<open>ltoa\<close> (and \<open>itoa\<close>, the same function on this
  part) returns: it never writes outside its 33-byte buffer, and reading the characters
  back gives the number that was printed, in decimal the signed value (the most negative
  one included) and in any other radix the unsigned bit pattern.
\<close>

theorem ltoa_reads_back:
  assumes "\<not> radix_bad radix"
  shows "\<exists>s. ltoa v radix = Some s \<and> s \<noteq> [] \<and> length s \<le> 33 \<and>
    read_int (unat radix) s = (if radix = 10 then sint v else uint v)"
proof -
  note r = radix_ok_unat [OF assms]
  show ?thesis
  proof (cases "radix = 10 \<and> sint v < 0")
    case True
    obtain ds where "utoa_common (- v) radix = Some ds" "length ds \<le> 32"
      "read_nat (unat radix) ds = unat (- v)"
      using utoa_common_result [of radix "- v"] r by blast
    with True assms show ?thesis
      by (simp add: ltoa_def ltoa_common_def read_int_def uint_uminus_neg)
  next
    case False
    obtain ds where "utoa_common v radix = Some ds" "ds \<noteq> []" "length ds \<le> 32"
      "read_nat (unat radix) ds = unat v" "\<forall>c \<in> set ds. radix_digit (unat radix) c"
      using utoa_common_result [of radix v] r by blast
    with False assms r show ?thesis
      by (auto simp: ltoa_def ltoa_common_def read_int_digits sint_nonneg_eq_uint)
  qed
qed

theorem ltoa_reads_back_witness:
  "\<exists>s. ltoa 0x80000000 10 = Some s \<and> s \<noteq> [] \<and> length s \<le> 33 \<and>
    read_int 10 s = - 2147483648"
  using ltoa_reads_back [of 10 "0x80000000"] by (simp add: radix_bad_def)

end
