(* ===== verification/Heap.thy ===== *)
theory Heap
  imports Prelude
begin

text \<open>
  \<open>cores/ch32h4/ch32h4_sbrk.c\<close>: the break that newlib's allocator grows, over two
  disjoint regions (what is left of DTCM, then the shared SRAM).  Addresses are 32-bit
  words and the comparisons are the unsigned comparisons of the hardware.  The region
  bounds come from the linker script and are a parameter.
\<close>

section \<open>State and operations\<close>

record layout =
  heap_dtcm_start :: u32
  heap_dtcm_end :: u32
  heap_shared_start :: u32
  heap_shared_end :: u32

record heap =
  s_brk :: u32
  s_region :: nat
  errno :: nat

definition ENOMEM :: nat where "ENOMEM = 12"

definition heap_init :: heap where
  "heap_init = \<lparr>s_brk = 0, s_region = 0, errno = 0\<rparr>"

text \<open>The result \<open>-1\<close> is the failure value \<open>(void *)-1\<close>.\<close>

definition sbrk :: "layout \<Rightarrow> u32 \<Rightarrow> heap \<Rightarrow> u32 \<times> heap" where
  "sbrk L incr h0 =
     (let h = (if s_brk h0 = 0 then h0\<lparr>s_brk := heap_dtcm_start L\<rparr> else h0);
          limit = (if s_region h = 0 then heap_dtcm_end L else heap_shared_end L)
      in if s_brk h + incr > limit then
           (if s_region h = 0 then
              (let h1 = h\<lparr>s_region := 1, s_brk := heap_shared_start L\<rparr>
               in if s_brk h1 + incr \<le> heap_shared_end L
                  then (s_brk h1, h1\<lparr>s_brk := s_brk h1 + incr\<rparr>)
                  else (- 1, h1\<lparr>errno := ENOMEM\<rparr>))
            else (- 1, h\<lparr>errno := ENOMEM\<rparr>))
         else (s_brk h, h\<lparr>s_brk := s_brk h + incr\<rparr>))"

definition heap_free :: "layout \<Rightarrow> heap \<Rightarrow> u32 \<times> heap" where
  "heap_free L h0 =
     (let h = (if s_brk h0 = 0 then h0\<lparr>s_brk := heap_dtcm_start L\<rparr> else h0);
          dtcm = (if s_region h = 0 then heap_dtcm_end L - s_brk h else 0);
          shared = (if s_region h = 0 then heap_shared_end L - heap_shared_start L
                    else heap_shared_end L - s_brk h)
      in (dtcm + shared, h))"

section \<open>The layout and the invariant\<close>

definition layout_ok :: "layout \<Rightarrow> bool" where
  "layout_ok L \<longleftrightarrow>
     0 < unat (heap_dtcm_start L) \<and> unat (heap_dtcm_start L) \<le> unat (heap_dtcm_end L) \<and>
     unat (heap_dtcm_end L) \<le> unat (heap_shared_start L) \<and>
     unat (heap_shared_start L) \<le> unat (heap_shared_end L) \<and>
     unat (heap_shared_end L) < 2147483648"

text \<open>Where the next block starts, with the lazily initialised break made explicit.\<close>

definition brk_at :: "layout \<Rightarrow> heap \<Rightarrow> nat" where
  "brk_at L h = (if s_brk h = 0 then unat (heap_dtcm_start L) else unat (s_brk h))"

definition heap_ok :: "layout \<Rightarrow> heap \<Rightarrow> bool" where
  "heap_ok L h \<longleftrightarrow>
     (s_region h = 0 \<and> unat (heap_dtcm_start L) \<le> brk_at L h \<and> brk_at L h \<le> unat (heap_dtcm_end L)) \<or>
     (s_region h = 1 \<and> s_brk h \<noteq> 0 \<and> unat (heap_shared_start L) \<le> brk_at L h \<and>
        brk_at L h \<le> unat (heap_shared_end L))"

text \<open>A block a request may return: inside one region, never across the gap.\<close>

definition in_region :: "layout \<Rightarrow> nat \<Rightarrow> nat \<Rightarrow> bool" where
  "in_region L p n \<longleftrightarrow>
     (unat (heap_dtcm_start L) \<le> p \<and> p + n \<le> unat (heap_dtcm_end L)) \<or>
     (unat (heap_shared_start L) \<le> p \<and> p + n \<le> unat (heap_shared_end L))"

lemma heap_init_ok [inv_intros]: "layout_ok L \<Longrightarrow> heap_ok L heap_init"
  by (simp add: heap_ok_def heap_init_def brk_at_def layout_ok_def)

definition brk_word :: "layout \<Rightarrow> heap \<Rightarrow> u32" where
  "brk_word L h = (if s_brk h = 0 then heap_dtcm_start L else s_brk h)"

definition limit_of :: "layout \<Rightarrow> heap \<Rightarrow> u32" where
  "limit_of L h = (if s_region h = 0 then heap_dtcm_end L else heap_shared_end L)"

lemma sbrk_eq:
  "sbrk L n h =
     (if brk_word L h + n \<le> limit_of L h then (brk_word L h, h\<lparr>s_brk := brk_word L h + n\<rparr>)
      else if s_region h = 0 \<and> heap_shared_start L + n \<le> heap_shared_end L
      then (heap_shared_start L, h\<lparr>s_brk := heap_shared_start L + n, s_region := 1\<rparr>)
      else (- 1, h\<lparr>s_brk := (if s_region h = 0 then heap_shared_start L else brk_word L h),
                  s_region := (if s_region h = 0 then 1 else s_region h), errno := ENOMEM\<rparr>))"
  by (cases "s_brk h = 0"; cases "s_region h = 0")
    (auto simp: sbrk_def brk_word_def limit_of_def Let_def not_le)

lemma unat_brk_word: "unat (brk_word L h) = brk_at L h"
  by (simp add: brk_at_def brk_word_def)

lemma heap_ok_bounds:
  assumes "layout_ok L" "heap_ok L h"
  shows "0 < brk_at L h" "brk_at L h < 2147483648" "brk_at L h \<le> unat (limit_of L h)"
    "s_region h = 0 \<or> s_region h = 1"
  using assms by (auto simp: layout_ok_def heap_ok_def limit_of_def)

lemma unat_brk_add:
  assumes "layout_ok L" "heap_ok L h" "unat n < 2147483648"
  shows "unat (brk_word L h + n) = brk_at L h + unat n"
  using heap_ok_bounds(2) [OF assms(1,2)] assms(3)
  by (subst unat_add_u32) (simp_all add: unat_brk_word)

lemma unat_shared_add:
  assumes "layout_ok L" "unat n < 2147483648"
  shows "unat (heap_shared_start L + n) = unat (heap_shared_start L) + unat n"
  using assms by (subst unat_add_u32) (auto simp: layout_ok_def)

text \<open>One request, on natural numbers: the three ways it can go.\<close>

lemma sbrk_stay:
  assumes "layout_ok L" "heap_ok L h" "unat n < 2147483648"
    and fits: "brk_at L h + unat n \<le> unat (limit_of L h)"
  obtains h' where "sbrk L n h = (brk_word L h, h')" "s_region h' = s_region h"
    "brk_at L h' = brk_at L h + unat n" "heap_ok L h'"
proof -
  note b = heap_ok_bounds [OF assms(1,2)] unat_brk_add [OF assms(1,2,3)]
  let ?h = "h\<lparr>s_brk := brk_word L h + n\<rparr>"
  have "brk_word L h + n \<noteq> 0" using b by (metis add_is_0 less_numeral_extra(3) unat_0)
  then have at: "brk_at L ?h = brk_at L h + unat n" using b(5) by (simp add: brk_at_def)
  have "sbrk L n h = (brk_word L h, ?h)"
    unfolding sbrk_eq using fits b(5) by (simp add: word_le_nat_alt)
  moreover have "heap_ok L ?h"
    using assms(2) at fits \<open>brk_word L h + n \<noteq> 0\<close>
    by (auto simp: heap_ok_def limit_of_def)
  ultimately show ?thesis using that at by simp
qed

lemma sbrk_move:
  assumes "layout_ok L" "heap_ok L h" "unat n < 2147483648"
    and r: "s_region h = 0" and full: "unat (heap_dtcm_end L) < brk_at L h + unat n"
    and fits: "unat (heap_shared_start L) + unat n \<le> unat (heap_shared_end L)"
  obtains h' where "sbrk L n h = (heap_shared_start L, h')" "s_region h' = 1"
    "brk_at L h' = unat (heap_shared_start L) + unat n" "heap_ok L h'"
proof -
  note b = unat_brk_add [OF assms(1,2,3)] unat_shared_add [OF assms(1,3)]
  let ?h = "h\<lparr>s_brk := heap_shared_start L + n, s_region := 1\<rparr>"
  have "heap_shared_start L + n \<noteq> 0"
    using b(2) assms(1) by (metis add_is_0 layout_ok_def le_0_eq less_numeral_extra(3) unat_0)
  then have at: "brk_at L ?h = unat (heap_shared_start L) + unat n"
    using b(2) by (simp add: brk_at_def)
  have "sbrk L n h = (heap_shared_start L, ?h)"
    unfolding sbrk_eq using full fits r b by (simp add: word_le_nat_alt limit_of_def)
  moreover have "heap_ok L ?h"
    using at fits \<open>heap_shared_start L + n \<noteq> 0\<close> by (auto simp: heap_ok_def)
  ultimately show ?thesis using that at by simp
qed

lemma sbrk_fail:
  assumes "layout_ok L" "heap_ok L h" "unat n < 2147483648"
    and full: "unat (limit_of L h) < brk_at L h + unat n"
    and none: "s_region h = 0 \<Longrightarrow> unat (heap_shared_end L) < unat (heap_shared_start L) + unat n"
  obtains h' where "sbrk L n h = (- 1, h')" "s_region h' = 1" "errno h' = ENOMEM"
    "brk_at L h' = (if s_region h = 0 then unat (heap_shared_start L) else brk_at L h)" "heap_ok L h'"
proof -
  note b = heap_ok_bounds [OF assms(1,2)] unat_brk_add [OF assms(1,2,3)] unat_shared_add [OF assms(1,3)]
  let ?b = "if s_region h = 0 then heap_shared_start L else brk_word L h"
  let ?h = "h\<lparr>s_brk := ?b, s_region := 1, errno := ENOMEM\<rparr>"
  have nz: "?b \<noteq> 0"
    using b(1) assms(1) unat_brk_word [of L h] by (auto simp: layout_ok_def)
  have e: "sbrk L n h = (- 1, ?h)"
    unfolding sbrk_eq using full none b by (cases "s_region h = 0") (auto simp: word_le_nat_alt)
  have at: "brk_at L ?h = (if s_region h = 0 then unat (heap_shared_start L) else brk_at L h)"
    using nz unat_brk_word [of L h] by (auto simp: brk_at_def)
  moreover have "heap_ok L ?h"
    using at nz assms(1,2) b(4) by (auto simp: heap_ok_def layout_ok_def)
  ultimately show ?thesis using that [OF e] by simp
qed

section \<open>Requests in sequence\<close>

text \<open>Every request with the address it got; \<open>granted\<close> keeps those that succeeded.\<close>

fun sbrk_run :: "layout \<Rightarrow> u32 list \<Rightarrow> heap \<Rightarrow> (u32 \<times> u32) list \<times> heap" where
  "sbrk_run L [] h = ([], h)"
| "sbrk_run L (n # ns) h =
     (case sbrk L n h of (p, h1) \<Rightarrow>
        (case sbrk_run L ns h1 of (bs, h2) \<Rightarrow> ((p, n) # bs, h2)))"

definition granted :: "(u32 \<times> u32) list \<Rightarrow> (u32 \<times> u32) list" where
  "granted bs = filter (\<lambda>(p, n). p \<noteq> - 1) bs"

definition before :: "u32 \<times> u32 \<Rightarrow> u32 \<times> u32 \<Rightarrow> bool" where
  "before b c \<longleftrightarrow> unat (fst b) + unat (snd b) \<le> unat (fst c)"

lemma granted_Cons: "granted ((p, n) # bs) = (if p = - 1 then granted bs else (p, n) # granted bs)"
  by (simp add: granted_def)

lemma before_iff: "before (p, n) (q, m) \<longleftrightarrow> unat p + unat n \<le> unat q"
  by (simp add: before_def)

lemma sbrk_outcome:
  assumes "layout_ok L" "heap_ok L h" "unat n < 2147483648" "sbrk L n h = (p, h')"
  obtains (stay) "p = brk_word L h" "p \<noteq> - 1" "s_region h' = s_region h"
      "brk_at L h' = brk_at L h + unat n" "brk_at L h' \<le> unat (limit_of L h)" "heap_ok L h'"
    | (move) "p = heap_shared_start L" "p \<noteq> - 1" "s_region h = 0" "s_region h' = 1"
      "brk_at L h' = unat p + unat n" "brk_at L h' \<le> unat (heap_shared_end L)" "heap_ok L h'"
    | (fail) "p = - 1" "s_region h' = 1" "errno h' = ENOMEM" "heap_ok L h'"
      "brk_at L h' = (if s_region h = 0 then unat (heap_shared_start L) else brk_at L h)"
proof -
  note b = heap_ok_bounds [OF assms(1,2)]
  have ne: "x \<noteq> - 1" if "unat x < 2147483648" for x :: u32
    using that by auto
  have n1: "brk_word L h \<noteq> - 1" using b ne by (simp add: unat_brk_word)
  have n2: "heap_shared_start L \<noteq> - 1" using assms(1) ne by (auto simp: layout_ok_def)
  consider (a) "brk_at L h + unat n \<le> unat (limit_of L h)"
    | (b) "s_region h = 0" "unat (heap_dtcm_end L) < brk_at L h + unat n"
        "unat (heap_shared_start L) + unat n \<le> unat (heap_shared_end L)"
    | (c) "unat (limit_of L h) < brk_at L h + unat n"
        "s_region h = 0 \<Longrightarrow> unat (heap_shared_end L) < unat (heap_shared_start L) + unat n"
    by (cases "brk_at L h + unat n \<le> unat (limit_of L h)";
        cases "unat (heap_shared_start L) + unat n \<le> unat (heap_shared_end L)";
        cases "s_region h = 0") (auto simp: limit_of_def not_le)
  then show ?thesis
  proof cases
    case a
    then show ?thesis using sbrk_stay [OF assms(1-3) a] stay n1 assms(4) by (metis Pair_inject)
  next
    case b
    then show ?thesis using sbrk_move [OF assms(1-3) b] move n2 assms(4) by (metis Pair_inject)
  next
    case c
    then show ?thesis using sbrk_fail [OF assms(1-3) c] fail assms(4) by (metis Pair_inject)
  qed
qed

lemma sbrk_step:
  assumes "layout_ok L" "heap_ok L h" "unat n < 2147483648" "sbrk L n h = (p, h')"
  shows "heap_ok L h' \<and>
     (if p = - 1 then brk_at L h \<le> brk_at L h'
      else brk_at L h \<le> unat p \<and> unat p + unat n = brk_at L h' \<and> in_region L (unat p) (unat n))"
  using assms(4) heap_ok_bounds [OF assms(1,2)] assms(1,2)
  by (cases rule: sbrk_outcome [OF assms])
    (auto simp: unat_brk_word in_region_def heap_ok_def limit_of_def layout_ok_def split: if_splits)

lemma sbrk_run_blocks:
  assumes "layout_ok L" "heap_ok L h" "\<forall>n \<in> set ns. unat n < 2147483648"
    and "sbrk_run L ns h = (bs, h')"
  shows "sorted_wrt before (granted bs) \<and>
     (\<forall>(p, n) \<in> set (granted bs). brk_at L h \<le> unat p \<and> in_region L (unat p) (unat n)) \<and>
     heap_ok L h'"
  using assms(2-)
proof (induction ns arbitrary: h bs)
  case Nil
  then show ?case by (simp add: granted_def)
next
  case (Cons n ns)
  obtain p h1 where s: "sbrk L n h = (p, h1)" by (cases "sbrk L n h")
  obtain bs1 h2 where r: "sbrk_run L ns h1 = (bs1, h2)" by (cases "sbrk_run L ns h1")
  have n: "unat n < 2147483648" using Cons.prems by simp
  note st = sbrk_step [OF assms(1) Cons.prems(1) n s]
  have bs: "bs = (p, n) # bs1" "h' = h2" using Cons.prems(3) s r by simp_all
  have ih: "sorted_wrt before (granted bs1)"
    "\<forall>(p, n) \<in> set (granted bs1). brk_at L h1 \<le> unat p \<and> in_region L (unat p) (unat n)"
    "heap_ok L h2"
    using Cons.IH [of h1 bs1] Cons.prems st r by (auto simp: bs)
  show ?case
  proof (cases "p = - 1")
    case True
    with ih st bs show ?thesis by (fastforce simp: granted_Cons)
  next
    case False
    with st ih(2) have "\<forall>c \<in> set (granted bs1). before (p, n) c"
      by (fastforce simp: before_iff)
    with False ih st bs show ?thesis by (fastforce simp: granted_Cons)
  qed
qed

section \<open>What is left\<close>

definition free_bytes :: "layout \<Rightarrow> heap \<Rightarrow> nat" where
  "free_bytes L h = unat (fst (heap_free L h))"

lemma free_bytes_eq:
  assumes "layout_ok L" "heap_ok L h"
  shows "free_bytes L h =
     (if s_region h = 0
      then unat (heap_dtcm_end L) - brk_at L h + (unat (heap_shared_end L) - unat (heap_shared_start L))
      else unat (heap_shared_end L) - brk_at L h)"
proof -
  note b = heap_ok_bounds [OF assms]
  have le: "brk_word L h \<le> limit_of L h"
    using b by (simp add: word_le_nat_alt unat_brk_word)
  have sh: "heap_shared_start L \<le> heap_shared_end L"
    using assms(1) by (simp add: word_le_nat_alt layout_ok_def)
  have sub: "unat (limit_of L h - brk_word L h) = unat (limit_of L h) - brk_at L h"
    using unat_sub_le [OF le] by (simp add: unat_brk_word)
  have subs: "unat (heap_shared_end L - heap_shared_start L) =
      unat (heap_shared_end L) - unat (heap_shared_start L)"
    by (rule unat_sub_le [OF sh])
  have lim: "unat (limit_of L h) < 2147483648"
    using assms(1) by (auto simp: limit_of_def layout_ok_def)
  show ?thesis
  proof (cases "s_region h = 0")
    case True
    have "free_bytes L h = unat ((limit_of L h - brk_word L h) + (heap_shared_end L - heap_shared_start L))"
      using True by (simp add: free_bytes_def heap_free_def Let_def limit_of_def brk_word_def)
    also have "\<dots> = unat (limit_of L h - brk_word L h) + unat (heap_shared_end L - heap_shared_start L)"
      using sub subs assms(1) lim by (subst unat_add_u32) (auto simp: layout_ok_def)
    finally show ?thesis using True sub subs by (simp add: limit_of_def)
  next
    case False
    then have "free_bytes L h = unat (limit_of L h - brk_word L h)"
      by (simp add: free_bytes_def heap_free_def Let_def limit_of_def brk_word_def)
    then show ?thesis using False sub by (simp add: limit_of_def)
  qed
qed

section \<open>Properties\<close>

text \<open>
  C13.  For any sequence of requests with increments that are not negative as C reads them
  (below \<open>2 ^ 31\<close>; a negative increment gives memory back and is no grant), the blocks that
  are granted are pairwise disjoint, handed out in ascending order, and each lies wholly inside the DTCM heap or
  wholly inside the shared one, never across the gap between them.
\<close>

theorem sbrk_blocks_disjoint:
  assumes "layout_ok L" "\<forall>n \<in> set ns. unat n < 2147483648"
    and "sbrk_run L ns heap_init = (bs, h)"
  shows "sorted_wrt (\<lambda>(p, n) (q, m). unat p + unat n \<le> unat q) (granted bs) \<and>
    (\<forall>(p, n) \<in> set (granted bs). in_region L (unat p) (unat n))"
proof -
  have "(\<lambda>(p, n) (q, m). unat p + unat n \<le> unat q) = before"
    by (auto simp: before_def fun_eq_iff)
  then show ?thesis
    using sbrk_run_blocks [OF assms(1) heap_init_ok [OF assms(1)] assms(2,3)] by auto
qed

text \<open>The layout of the QEU6 board for an empty sketch.\<close>

definition qeu6_layout :: layout where
  "qeu6_layout = \<lparr>heap_dtcm_start = 0x200C8000, heap_dtcm_end = 0x20100000,
     heap_shared_start = 0x2010D400, heap_shared_end = 0x20180000\<rparr>"

theorem sbrk_blocks_disjoint_witness:
  "(let bs = fst (sbrk_run qeu6_layout [4096, 0x37F00, 0x10000, 0x80000] heap_init)
    in granted bs = [(0x200C8000, 4096), (0x2010D400, 0x37F00), (0x20145300, 0x10000)] \<and>
       sorted_wrt (\<lambda>(p, n) (q, m). unat p + unat n \<le> unat q) (granted bs))"
proof -
  let ?ns = "[4096, 0x37F00, 0x10000, 0x80000] :: u32 list"
  obtain bs h where r: "sbrk_run qeu6_layout ?ns heap_init = (bs, h)"
    by (cases "sbrk_run qeu6_layout ?ns heap_init")
  have "layout_ok qeu6_layout" by (simp add: layout_ok_def qeu6_layout_def)
  from sbrk_blocks_disjoint [OF this _ r]
  have "sorted_wrt (\<lambda>(p, n) (q, m). unat p + unat n \<le> unat q) (granted bs)" by simp
  moreover have "granted bs = [(0x200C8000, 4096), (0x2010D400, 0x37F00), (0x20145300, 0x10000)]"
    using r by (auto simp: sbrk_eq brk_word_def limit_of_def qeu6_layout_def heap_init_def granted_def)
  ultimately show ?thesis using r by (simp add: Let_def)
qed

text \<open>
  \<open>ch32h4_heap_free\<close> accounts for every byte: across one request the free count goes
  down by what was granted and by what was given up at the end of DTCM when the break
  moved to the shared region, whether or not that request was granted.
\<close>

theorem sbrk_free_accounting:
  assumes "layout_ok L" "heap_ok L h" "unat n < 2147483648" "sbrk L n h = (p, h')"
  shows "free_bytes L h' + (if p = - 1 then 0 else unat n) +
      (if s_region h = 0 \<and> s_region h' = 1 then unat (heap_dtcm_end L) - brk_at L h else 0)
    = free_bytes L h"
proof -
  note b = heap_ok_bounds [OF assms(1,2)]
  note f = free_bytes_eq [OF assms(1,2)] free_bytes_eq [OF assms(1), of h']
  from assms show ?thesis
  proof (cases rule: sbrk_outcome)
    case stay
    then show ?thesis using f b by (cases "s_region h = 0") (auto simp: limit_of_def)
  next
    case move
    then show ?thesis using f b assms(1) by (auto simp: limit_of_def layout_ok_def)
  next
    case fail
    then show ?thesis using f b assms(1) by (cases "s_region h = 0") (auto simp: limit_of_def)
  qed
qed

theorem sbrk_free_accounting_witness:
  "sbrk qeu6_layout 4096 heap_init = (0x200C8000, heap_init\<lparr>s_brk := 0x200C9000\<rparr>) \<and>
   free_bytes qeu6_layout (heap_init\<lparr>s_brk := 0x200C9000\<rparr>) + 4096 = free_bytes qeu6_layout heap_init"
proof -
  have L: "layout_ok qeu6_layout" by (simp add: layout_ok_def qeu6_layout_def)
  have s: "sbrk qeu6_layout 4096 heap_init = (0x200C8000, heap_init\<lparr>s_brk := 0x200C9000\<rparr>)"
    by (simp add: sbrk_eq brk_word_def limit_of_def qeu6_layout_def heap_init_def)
  show ?thesis
    using sbrk_free_accounting [OF L heap_init_ok [OF L] _ s] s by (simp add: heap_init_def)
qed

text \<open>
  C19.  A request that neither region can hold fails with \<open>ENOMEM\<close> and still moves the
  break: while DTCM was in use everything left of it is lost to every later request, however
  small, and only the shared region remains.
\<close>

theorem sbrk_failure_gives_up_dtcm:
  assumes "layout_ok L" "heap_ok L h" "unat n < 2147483648" "s_region h = 0"
    and "unat (heap_dtcm_end L) < brk_at L h + unat n"
    and "unat (heap_shared_end L) < unat (heap_shared_start L) + unat n"
  shows "\<exists>h'. sbrk L n h = (- 1, h') \<and> errno h' = ENOMEM \<and>
    free_bytes L h' = unat (heap_shared_end L) - unat (heap_shared_start L) \<and>
    free_bytes L h = free_bytes L h' + (unat (heap_dtcm_end L) - brk_at L h)"
proof -
  obtain h' where h': "sbrk L n h = (- 1, h')" "s_region h' = 1" "errno h' = ENOMEM"
      "brk_at L h' = unat (heap_shared_start L)" "heap_ok L h'"
    using sbrk_fail [OF assms(1-3)] assms(4-6) by (auto simp: limit_of_def)
  then show ?thesis
    using free_bytes_eq [OF assms(1,2)] free_bytes_eq [OF assms(1) h'(5)] assms(4) by simp
qed

theorem sbrk_failure_gives_up_dtcm_witness:
  "\<exists>h'. sbrk qeu6_layout 0x100000 heap_init = (- 1, h') \<and> errno h' = ENOMEM \<and>
    free_bytes qeu6_layout h' = 459 * 1024 \<and>
    free_bytes qeu6_layout heap_init = free_bytes qeu6_layout h' + 224 * 1024"
proof -
  have L: "layout_ok qeu6_layout" by (simp add: layout_ok_def qeu6_layout_def)
  show ?thesis
    using sbrk_failure_gives_up_dtcm [OF L heap_init_ok [OF L], of "0x100000"]
    by (simp add: heap_init_def brk_at_def qeu6_layout_def)
qed

end
