(* ===== verification/Fifo.thy ===== *)
theory Fifo
  imports Prelude
begin

text \<open>
  The inter-core FIFO of \<open>cores/ch32h4/ch32h4_xcore.c\<close>: two eight-word rings in shared
  RAM, one per direction, each with a single producer and a single consumer.  First the
  operations as functions, against the interface of a bounded queue; then the same code
  broken into its individual shared-memory accesses and interleaved with the other core's.
\<close>

section \<open>Rings\<close>

definition FIFO_DEPTH :: u32 where "FIFO_DEPTH = 8"

record ring =
  buf :: "u32 list"
  head :: u32
  tail :: u32

definition next_index :: "u32 \<Rightarrow> u32" where
  "next_index i = (i + 1) AND (FIFO_DEPTH - 1)"

definition ring_push :: "u32 \<Rightarrow> ring \<Rightarrow> bool \<times> ring" where
  "ring_push v r =
     (let h = head r; next = next_index h
      in if next = tail r then (False, r)
         else (True, r\<lparr>buf := (buf r)[unat h := v], head := next\<rparr>))"

definition ring_pop :: "ring \<Rightarrow> u32 option \<times> ring" where
  "ring_pop r =
     (let t = tail r
      in if t = head r then (None, r)
         else (let v = buf r ! unat t in (Some v, r\<lparr>tail := next_index t\<rparr>)))"

definition ring_available :: "ring \<Rightarrow> nat" where
  "ring_available r = unat ((head r - tail r) AND (FIFO_DEPTH - 1))"

definition ring_drain :: "ring \<Rightarrow> ring" where
  "ring_drain r = r\<lparr>tail := head r\<rparr>"

section \<open>The two directions\<close>

text \<open>\<open>ipc_flags\<close> is the sequence of IPC channels whose flag was set.\<close>

record fifos =
  s_to_v3f :: ring
  s_to_v5f :: ring
  ipc_flags :: "nat list"

definition rx_ring :: "core \<Rightarrow> fifos \<Rightarrow> ring" where
  "rx_ring c f = (if core_num c = 0 then s_to_v3f f else s_to_v5f f)"

definition tx_ring :: "core \<Rightarrow> fifos \<Rightarrow> ring" where
  "tx_ring c f = (if core_num c = 0 then s_to_v5f f else s_to_v3f f)"

definition set_rx :: "core \<Rightarrow> ring \<Rightarrow> fifos \<Rightarrow> fifos" where
  "set_rx c r f = (if core_num c = 0 then f\<lparr>s_to_v3f := r\<rparr> else f\<lparr>s_to_v5f := r\<rparr>)"

definition set_tx :: "core \<Rightarrow> ring \<Rightarrow> fifos \<Rightarrow> fifos" where
  "set_tx c r f = (if core_num c = 0 then f\<lparr>s_to_v5f := r\<rparr> else f\<lparr>s_to_v3f := r\<rparr>)"

definition ring_doorbell :: "core \<Rightarrow> fifos \<Rightarrow> fifos" where
  "ring_doorbell c f = f\<lparr>ipc_flags := ipc_flags f @ [if core_num c = 0 then 0 else 1]\<rparr>"

definition fifo_init :: "fifos \<Rightarrow> fifos" where
  "fifo_init f =
     f\<lparr>s_to_v3f := (s_to_v3f f)\<lparr>head := 0, tail := 0\<rparr>,
       s_to_v5f := (s_to_v5f f)\<lparr>head := 0, tail := 0\<rparr>\<rparr>"

definition fifo_push_nb :: "core \<Rightarrow> u32 \<Rightarrow> fifos \<Rightarrow> bool \<times> fifos" where
  "fifo_push_nb c v f =
     (case ring_push v (tx_ring c f) of
        (ok, r) \<Rightarrow> if ok then (True, ring_doorbell c (set_tx c r f)) else (False, f))"

definition fifo_pop_nb :: "core \<Rightarrow> fifos \<Rightarrow> u32 option \<times> fifos" where
  "fifo_pop_nb c f =
     (case ring_pop (rx_ring c f) of
        (x, r) \<Rightarrow> (case x of None \<Rightarrow> (None, f) | Some v \<Rightarrow> (Some v, set_rx c r f)))"

definition fifo_available :: "core \<Rightarrow> fifos \<Rightarrow> nat" where
  "fifo_available c f = ring_available (rx_ring c f)"

definition fifo_drain :: "core \<Rightarrow> fifos \<Rightarrow> fifos" where
  "fifo_drain c f = set_rx c (ring_drain (rx_ring c f)) f"

text \<open>
  The blocking calls spin on the non-blocking ones.  \<open>env\<close> is what the other core does
  to the rings between two attempts; a wait that never ends is \<open>None\<close>.
\<close>

partial_function (option) fifo_push :: "(fifos \<Rightarrow> fifos) \<Rightarrow> core \<Rightarrow> u32 \<Rightarrow> fifos \<Rightarrow> fifos option" where
  "fifo_push env c v f =
     (case fifo_push_nb c v f of (ok, f') \<Rightarrow> if ok then Some f' else fifo_push env c v (env f'))"

partial_function (option) fifo_pop :: "(fifos \<Rightarrow> fifos) \<Rightarrow> core \<Rightarrow> fifos \<Rightarrow> (u32 \<times> fifos) option" where
  "fifo_pop env c f =
     (case fifo_pop_nb c f of
        (x, f') \<Rightarrow> (case x of Some v \<Rightarrow> Some (v, f') | None \<Rightarrow> fifo_pop env c (env f')))"

section \<open>What a ring holds\<close>

definition ring_ok :: "ring \<Rightarrow> bool" where
  "ring_ok r \<longleftrightarrow> length (buf r) = 8 \<and> unat (head r) < 8 \<and> unat (tail r) < 8"

text \<open>\<open>gap t h\<close>: how far index \<open>h\<close> is ahead of \<open>t\<close> around the ring.\<close>

definition gap :: "u32 \<Rightarrow> u32 \<Rightarrow> nat" where
  "gap t h = (unat h + 8 - unat t) mod 8"

definition contents :: "ring \<Rightarrow> u32 list" where
  "contents r = map (\<lambda>i. buf r ! ((unat (tail r) + i) mod 8)) [0..<gap (tail r) (head r)]"

lemma length_contents [simp]: "length (contents r) = gap (tail r) (head r)"
  by (simp add: contents_def)

lemma gap_less [simp]: "gap t h < 8"
  by (simp add: gap_def)

lemma and_7: "(x :: u32) AND 7 = x mod 8"
  using take_bit_eq_mask [of 3 x] by (simp add: take_bit_eq_mod mask_eq_exp_minus_1)

lemma unat_next_index_mod: "unat (next_index i) = unat (i + 1) mod 8"
  by (simp add: next_index_def FIFO_DEPTH_def and_7 unat_mod)

lemma unat_next_index: "unat i < 8 \<Longrightarrow> unat (next_index i) = (unat i + 1) mod 8"
  by (simp add: unat_next_index_mod unat_add_u32)

lemma next_index_less [simp]: "unat (next_index i) < 8"
  by (simp add: unat_next_index_mod)

lemma next_index_if: "unat i < 8 \<Longrightarrow> unat (next_index i) = (if unat i = 7 then 0 else unat i + 1)"
  by (auto simp: unat_next_index)

lemma mod8_if: "n < 16 \<Longrightarrow> n mod 8 = (if n < 8 then n else n - 8)" for n :: nat
  by (simp add: mod_if)

lemma gap_if:
  "unat t < 8 \<Longrightarrow> unat h < 8 \<Longrightarrow>
   gap t h = (if unat t \<le> unat h then unat h - unat t else unat h + 8 - unat t)"
  by (auto simp: gap_def mod8_if)

lemma gap_eq_0: "unat t < 8 \<Longrightarrow> unat h < 8 \<Longrightarrow> gap t h = 0 \<longleftrightarrow> t = h"
  by (auto simp: gap_if u32_eq_iff)

lemma gap_full: "unat t < 8 \<Longrightarrow> unat h < 8 \<Longrightarrow> next_index h = t \<longleftrightarrow> gap t h = 7"
  by (auto simp: gap_if u32_eq_iff next_index_if split: if_splits)

lemma gap_next_head:
  "unat t < 8 \<Longrightarrow> unat h < 8 \<Longrightarrow> gap t h \<noteq> 7 \<Longrightarrow> gap t (next_index h) = Suc (gap t h)"
  by (auto simp: gap_if next_index_if split: if_splits)

lemma gap_next_tail:
  "unat t < 8 \<Longrightarrow> unat h < 8 \<Longrightarrow> t \<noteq> h \<Longrightarrow> Suc (gap (next_index t) h) = gap t h"
  by (auto simp: gap_if u32_eq_iff next_index_if split: if_splits)

lemma head_from_tail: "unat t < 8 \<Longrightarrow> unat h < 8 \<Longrightarrow> (unat t + gap t h) mod 8 = unat h"
  by (auto simp: gap_if split: if_splits)

lemma contents_store:
  assumes "ring_ok r"
  shows "contents (r\<lparr>buf := (buf r)[unat (head r) := v]\<rparr>) = contents r"
proof -
  let ?t = "unat (tail r)" and ?g = "gap (tail r) (head r)"
  have b: "?t < 8" "unat (head r) < 8" using assms by (auto simp: ring_ok_def)
  have "(?t + i) mod 8 \<noteq> unat (head r)" if "i < ?g" for i
  proof -
    have "(?t + i) mod 8 \<noteq> (?t + ?g) mod 8"
      using that gap_less [of "tail r" "head r"] b(1)
      by (auto simp: mod8_if simp del: gap_less split: if_splits)
    then show ?thesis using head_from_tail [OF b] by simp
  qed
  then have "(buf r)[unat (head r) := v] ! ((?t + i) mod 8) = buf r ! ((?t + i) mod 8)" if "i < ?g" for i
    using that by (metis nth_list_update_neq)
  then show ?thesis by (simp add: contents_def)
qed

lemma contents_publish:
  assumes "ring_ok r" "gap (tail r) (head r) < 7"
  shows "contents (r\<lparr>head := next_index (head r)\<rparr>) = contents r @ [buf r ! unat (head r)]"
proof -
  have b: "unat (tail r) < 8" "unat (head r) < 8" using assms(1) by (auto simp: ring_ok_def)
  show ?thesis
    using gap_next_head [OF b] head_from_tail [OF b] assms(2) by (simp add: contents_def)
qed

lemma contents_push:
  assumes "ring_ok r" "next_index (head r) \<noteq> tail r"
  shows "contents (r\<lparr>buf := (buf r)[unat (head r) := v], head := next_index (head r)\<rparr>) = contents r @ [v]"
proof -
  let ?r = "r\<lparr>buf := (buf r)[unat (head r) := v]\<rparr>"
  have b: "unat (tail r) < 8" "unat (head r) < 8" using assms(1) by (auto simp: ring_ok_def)
  have "gap (tail r) (head r) \<noteq> 7" using gap_full [OF b] assms(2) by simp
  then have "gap (tail ?r) (head ?r) < 7"
    using gap_less [of "tail r" "head r"] by (simp del: gap_less)
  moreover have "ring_ok ?r" using assms(1) by (simp add: ring_ok_def)
  ultimately show ?thesis
    using contents_publish [of ?r] contents_store [OF assms(1)] assms(1) by (simp add: ring_ok_def)
qed

lemma contents_pop:
  assumes "ring_ok r" "tail r \<noteq> head r"
  shows "contents r = buf r ! unat (tail r) # contents (r\<lparr>tail := next_index (tail r)\<rparr>)"
proof -
  let ?t = "unat (tail r)"
  have b: "?t < 8" "unat (head r) < 8" using assms(1) by (auto simp: ring_ok_def)
  note g = gap_next_tail [OF b assms(2)]
  have s: "(?t + Suc i) mod 8 = ((?t + 1) mod 8 + i) mod 8" for i
    by (simp add: mod_add_left_eq)
  then show ?thesis
    using b by (simp add: contents_def g [symmetric] unat_next_index map_Suc_upt [symmetric]
        upt_rec [of 0] del: upt_Suc)
qed

lemma contents_empty: "ring_ok r \<Longrightarrow> contents r = [] \<longleftrightarrow> tail r = head r"
  using length_contents [of r] gap_eq_0 [of "tail r" "head r"]
  by (auto simp: ring_ok_def simp del: length_contents)

lemma contents_same_index: "tail r = head r \<Longrightarrow> contents r = []"
  by (simp add: contents_def gap_def)

lemma ring_available_eq:
  assumes "ring_ok r"
  shows "ring_available r = length (contents r)"
proof -
  have b: "unat (tail r) < 8" "unat (head r) < 8" using assms by (auto simp: ring_ok_def)
  have "unat (head r - tail r) mod 8 = gap (tail r) (head r)"
  proof (cases "unat (tail r) \<le> unat (head r)")
    case True
    then show ?thesis using b by (simp add: unat_sub_if_size word_size gap_if)
  next
    case False
    have e: "unat (head r) + 4294967296 - unat (tail r) = (unat (head r) + 8 - unat (tail r)) + 8 * 536870911"
      using b by simp
    have "unat (head r - tail r) = unat (head r) + 4294967296 - unat (tail r)"
      using False by (simp add: unat_sub_if_size word_size)
    then show ?thesis unfolding e gap_def by (simp only: mod_mult_self2)
  qed
  then show ?thesis by (simp add: ring_available_def FIFO_DEPTH_def and_7 unat_mod)
qed

lemma ring_push_cases:
  assumes "ring_ok r"
  shows "ring_ok (snd (ring_push v r)) \<and> fst (ring_push v r) = (length (contents r) < 7) \<and>
    contents (snd (ring_push v r)) = (if length (contents r) < 7 then contents r @ [v] else contents r)"
proof (cases "next_index (head r) = tail r")
  case True
  then have "length (contents r) = 7" using assms gap_full [of "tail r" "head r"] by (simp add: ring_ok_def)
  then show ?thesis using True assms by (simp add: ring_push_def Let_def)
next
  case False
  then have "gap (tail r) (head r) \<noteq> 7"
    using assms gap_full [of "tail r" "head r"] by (simp add: ring_ok_def)
  then have "length (contents r) < 7"
    using gap_less [of "tail r" "head r"] by (simp del: gap_less)
  then show ?thesis using False assms contents_push [OF assms False, of v]
    by (simp add: ring_push_def Let_def ring_ok_def)
qed

lemma ring_push_full: "ring_ok r \<Longrightarrow> \<not> length (contents r) < 7 \<Longrightarrow> ring_push v r = (False, r)"
  using gap_full [of "tail r" "head r"] gap_less [of "tail r" "head r"]
  by (simp add: ring_push_def Let_def ring_ok_def)

lemma ring_pop_item:
  assumes "ring_ok r" "contents r = v # vs"
  shows "\<exists>r'. ring_pop r = (Some v, r') \<and> ring_ok r' \<and> contents r' = vs"
proof -
  have ne: "tail r \<noteq> head r" using assms contents_same_index by force
  show ?thesis using contents_pop [OF assms(1) ne] assms ne
    by (simp add: ring_pop_def Let_def ring_ok_def)
qed

lemma ring_pop_empty: "ring_ok r \<Longrightarrow> contents r = [] \<Longrightarrow> ring_pop r = (None, r)"
  by (simp add: ring_pop_def Let_def contents_empty)

section \<open>The interface: a bounded queue\<close>

locale bounded_queue =
  fixes enq :: "'a \<Rightarrow> 'q \<Rightarrow> bool \<times> 'q"
    and deq :: "'q \<Rightarrow> 'a option \<times> 'q"
    and clear :: "'q \<Rightarrow> 'q"
    and items :: "'q \<Rightarrow> 'a list"
    and cap :: nat
    and ok :: "'q \<Rightarrow> bool"
  assumes enq_room: "ok q \<Longrightarrow> length (items q) < cap \<Longrightarrow>
      \<exists>q'. enq v q = (True, q') \<and> ok q' \<and> items q' = items q @ [v]"
    and enq_full: "ok q \<Longrightarrow> \<not> length (items q) < cap \<Longrightarrow> enq v q = (False, q)"
    and deq_item: "ok q \<Longrightarrow> items q = v # vs \<Longrightarrow> \<exists>q'. deq q = (Some v, q') \<and> ok q' \<and> items q' = vs"
    and deq_empty: "ok q \<Longrightarrow> items q = [] \<Longrightarrow> deq q = (None, q)"
    and clear_items: "ok q \<Longrightarrow> ok (clear q) \<and> items (clear q) = []"
begin

lemma enq_result:
  "ok q \<Longrightarrow> fst (enq v q) = (length (items q) < cap) \<and> ok (snd (enq v q)) \<and>
     items (snd (enq v q)) = (if length (items q) < cap then items q @ [v] else items q)"
  using enq_room [of q v] enq_full [of q v] by (cases "length (items q) < cap") auto

lemma deq_result:
  "ok q \<Longrightarrow> fst (deq q) = (case items q of [] \<Rightarrow> None | v # _ \<Rightarrow> Some v) \<and> ok (snd (deq q)) \<and>
     items (snd (deq q)) = tl (items q)"
  using deq_item [of q] deq_empty [of q] by (cases "items q") fastforce+

text \<open>Retrying an enqueue succeeds as soon as somebody has made room.\<close>

lemma enq_retry:
  assumes "ok q" "\<And>q. ok q \<Longrightarrow> ok (env q)" "length (items ((env ^^ n) q)) < cap"
  shows "\<exists>k \<le> n. fst (enq v ((env ^^ k) q)) \<and> (\<forall>j < k. enq v ((env ^^ j) q) = (False, (env ^^ j) q)) \<and>
    items (snd (enq v ((env ^^ k) q))) = items ((env ^^ k) q) @ [v]"
proof -
  have all: "ok ((env ^^ i) q)" for i using assms(1,2) by (induction i) auto
  define k where "k = (LEAST k. length (items ((env ^^ k) q)) < cap)"
  have k: "length (items ((env ^^ k) q)) < cap" "k \<le> n"
    unfolding k_def using assms(3) by (auto intro: LeastI Least_le)
  have "\<not> length (items ((env ^^ j) q)) < cap" if "j < k" for j
    using not_less_Least [of j] that unfolding k_def by blast
  then have "\<forall>j < k. enq v ((env ^^ j) q) = (False, (env ^^ j) q)" using enq_full [OF all] by blast
  then show ?thesis using enq_result [OF all, of v k] k by auto
qed

end

lemma ring_drain_items: "ring_ok r \<Longrightarrow> ring_ok (ring_drain r) \<and> contents (ring_drain r) = []"
  by (simp add: ring_drain_def ring_ok_def contents_same_index)

interpretation ringq: bounded_queue ring_push ring_pop ring_drain contents 7 ring_ok
proof
  fix r :: ring and v :: u32
  show "ring_ok r \<Longrightarrow> length (contents r) < 7 \<Longrightarrow>
      \<exists>r'. ring_push v r = (True, r') \<and> ring_ok r' \<and> contents r' = contents r @ [v]"
    using ring_push_cases [of r v] by (metis prod.collapse)
qed (fact ring_push_full ring_pop_item ring_pop_empty ring_drain_items)+

section \<open>The FIFO of each core\<close>

definition fifos_ok :: "fifos \<Rightarrow> bool" where
  "fifos_ok f \<longleftrightarrow> ring_ok (s_to_v3f f) \<and> ring_ok (s_to_v5f f)"

text \<open>The words waiting for a core.\<close>

definition inbox :: "core \<Rightarrow> fifos \<Rightarrow> u32 list" where
  "inbox c f = contents (rx_ring c f)"

lemma core_num_eq_0 [simp]: "core_num c = 0 \<longleftrightarrow> c = V3F"
  by (cases c) (simp_all add: core_num_def)

lemmas ring_access = rx_ring_def tx_ring_def set_rx_def set_tx_def ring_doorbell_def

lemma tx_is_rx: "tx_ring c f = rx_ring (other c) f"
  by (cases c) (simp_all add: ring_access)

lemma fifos_ok_rx: "fifos_ok f \<Longrightarrow> ring_ok (rx_ring c f)"
  by (cases c) (simp_all add: fifos_ok_def ring_access)

lemma set_tx_ok: "fifos_ok f \<Longrightarrow> ring_ok r \<Longrightarrow> fifos_ok (ring_doorbell c (set_tx c r f))"
  by (cases c) (simp_all add: fifos_ok_def ring_access)

lemma set_rx_ok: "fifos_ok f \<Longrightarrow> ring_ok r \<Longrightarrow> fifos_ok (set_rx c r f)"
  by (cases c) (simp_all add: fifos_ok_def ring_access)

lemma inbox_set_tx: "inbox d (ring_doorbell c (set_tx c r f)) = (if d = other c then contents r else inbox d f)"
  by (cases c; cases d) (simp_all add: inbox_def ring_access)

lemma inbox_set_rx: "inbox d (set_rx c r f) = (if d = c then contents r else inbox d f)"
  by (cases c; cases d) (simp_all add: inbox_def ring_access)

lemma inbox_init: "inbox c (fifo_init f) = []"
  by (cases c) (simp_all add: inbox_def ring_access fifo_init_def contents_same_index)

lemma fifo_init_ok:
  "length (buf (s_to_v3f f)) = 8 \<Longrightarrow> length (buf (s_to_v5f f)) = 8 \<Longrightarrow> fifos_ok (fifo_init f)"
  by (simp add: fifos_ok_def ring_ok_def fifo_init_def)

interpretation inboxq: bounded_queue "fifo_push_nb (other c)" "fifo_pop_nb c" "fifo_drain c" "inbox c" 7 fifos_ok
  for c
proof
  fix f v vs
  assume f: "fifos_ok f"
  note r = fifos_ok_rx [OF f, of c]
  show "length (inbox c f) < 7 \<Longrightarrow> \<exists>f'. fifo_push_nb (other c) v f = (True, f') \<and> fifos_ok f' \<and>
      inbox c f' = inbox c f @ [v]"
    using ringq.enq_room [OF r, of v] f
    by (auto simp: fifo_push_nb_def tx_is_rx inbox_def set_tx_ok inbox_set_tx [unfolded inbox_def])
  show "\<not> length (inbox c f) < 7 \<Longrightarrow> fifo_push_nb (other c) v f = (False, f)"
    using ringq.enq_full [OF r, of v] by (simp add: fifo_push_nb_def tx_is_rx inbox_def)
  show "inbox c f = v # vs \<Longrightarrow> \<exists>f'. fifo_pop_nb c f = (Some v, f') \<and> fifos_ok f' \<and> inbox c f' = vs"
    using ringq.deq_item [OF r, of v vs] f
    by (auto simp: fifo_pop_nb_def inbox_def set_rx_ok inbox_set_rx [unfolded inbox_def])
  show "inbox c f = [] \<Longrightarrow> fifo_pop_nb c f = (None, f)"
    using ringq.deq_empty [OF r] by (simp add: fifo_pop_nb_def inbox_def)
  show "fifos_ok (fifo_drain c f) \<and> inbox c (fifo_drain c f) = []"
    using ringq.clear_items [OF r] f by (simp add: fifo_drain_def set_rx_ok inbox_set_rx)
qed

section \<open>Calls from both cores in any order\<close>

datatype fifo_call = Push u32 | Pop | Available | Drain
datatype fifo_answer = Pushed bool | Popped "u32 option" | Waiting nat | Drained

fun fifo_do :: "core \<times> fifo_call \<Rightarrow> fifos \<Rightarrow> fifo_answer \<times> fifos" where
  "fifo_do (c, Push v) f = (case fifo_push_nb c v f of (ok, f') \<Rightarrow> (Pushed ok, f'))"
| "fifo_do (c, Pop) f = (case fifo_pop_nb c f of (x, f') \<Rightarrow> (Popped x, f'))"
| "fifo_do (c, Available) f = (Waiting (fifo_available c f), f)"
| "fifo_do (c, Drain) f = (Drained, fifo_drain c f)"

text \<open>The specification: one list of at most seven words per receiving core.\<close>

fun spec_do :: "core \<times> fifo_call \<Rightarrow> (core \<Rightarrow> u32 list) \<Rightarrow> fifo_answer \<times> (core \<Rightarrow> u32 list)" where
  "spec_do (c, Push v) q =
     (if length (q (other c)) < 7 then (Pushed True, q(other c := q (other c) @ [v]))
      else (Pushed False, q))"
| "spec_do (c, Pop) q =
     (case q c of [] \<Rightarrow> (Popped None, q) | v # vs \<Rightarrow> (Popped (Some v), q(c := vs)))"
| "spec_do (c, Available) q = (Waiting (length (q c)), q)"
| "spec_do (c, Drain) q = (Drained, q(c := []))"

fun answers :: "('x \<Rightarrow> 's \<Rightarrow> 'r \<times> 's) \<Rightarrow> 'x list \<Rightarrow> 's \<Rightarrow> 'r list \<times> 's" where
  "answers f [] s = ([], s)"
| "answers f (x # xs) s = (case f x s of (r, s1) \<Rightarrow> (case answers f xs s1 of (rs, s2) \<Rightarrow> (r # rs, s2)))"

lemma inbox_other:
  "fifos_ok f \<Longrightarrow> inbox c (snd (fifo_push_nb c v f)) = inbox c f"
  "fifos_ok f \<Longrightarrow> inbox (other c) (snd (fifo_pop_nb c f)) = inbox (other c) f"
  "fifos_ok f \<Longrightarrow> inbox (other c) (fifo_drain c f) = inbox (other c) f"
  by (auto simp: fifo_push_nb_def fifo_pop_nb_def fifo_drain_def inbox_set_tx inbox_set_rx
      split: prod.splits option.splits)

definition inboxes :: "fifos \<Rightarrow> core \<Rightarrow> u32 list" where
  "inboxes f = (\<lambda>c. inbox c f)"

lemma inboxes_upd:
  "inbox d f' = xs \<Longrightarrow> inbox (other d) f' = inbox (other d) f \<Longrightarrow> inboxes f' = (inboxes f)(d := xs)"
  by (cases d) (auto simp: inboxes_def fun_eq_iff all_core)

lemma fifo_do_refines:
  assumes f: "fifos_ok f"
  shows "fifos_ok (snd (fifo_do x f)) \<and> fst (fifo_do x f) = fst (spec_do x (inboxes f)) \<and>
    inboxes (snd (fifo_do x f)) = snd (spec_do x (inboxes f))"
proof -
  obtain c k where x: "x = (c, k)" by (cases x)
  show ?thesis
  proof (cases k)
    case (Push v)
    note r = inboxq.enq_result [OF f, of "other c" v] inbox_other(1) [OF f, of c v]
    then have "inboxes (snd (fifo_push_nb c v f)) =
        (inboxes f)(other c := inbox (other c) (snd (fifo_push_nb c v f)))"
      by (intro inboxes_upd) simp_all
    then show ?thesis using r x Push by (auto simp: inboxes_def split: prod.splits)
  next
    case Pop
    note r = inboxq.deq_result [OF f, of c] inbox_other(2) [OF f, of c]
    then have "inboxes (snd (fifo_pop_nb c f)) = (inboxes f)(c := tl (inbox c f))"
      by (intro inboxes_upd) simp_all
    then show ?thesis using r x Pop
      by (auto simp: inboxes_def fun_eq_iff split: prod.splits list.splits)
  next
    case Available
    then show ?thesis using f x fifos_ok_rx [OF f, of c]
      by (simp add: inboxes_def fifo_available_def inbox_def ring_available_eq)
  next
    case Drain
    then show ?thesis using inboxq.clear_items [OF f, of c] inbox_other(3) [OF f, of c] x
        inboxes_upd [of c "fifo_drain c f" "[]" f] by simp
  qed
qed

lemma fifo_answers_refine:
  "fifos_ok f \<Longrightarrow> fst (answers fifo_do xs f) = fst (answers spec_do xs (inboxes f))"
proof (induction xs arbitrary: f)
  case (Cons x xs)
  obtain r f1 where d: "fifo_do x f = (r, f1)" by (cases "fifo_do x f")
  note s = fifo_do_refines [OF Cons.prems, of x, unfolded d]
  then have e: "spec_do x (inboxes f) = (r, inboxes f1)" by (simp add: prod_eq_iff)
  show ?case using Cons.IH [of f1] s by (simp add: d e split_beta)
qed simp

text \<open>
  C20.  However the two cores' calls follow one another, each call answers what a queue of
  words would: pushes by one core come out on the other in order, none lost, none
  duplicated, a push is refused exactly when seven words wait, and the two directions do
  not disturb each other.
\<close>

theorem fifo_is_two_queues:
  assumes "length (buf (s_to_v3f f)) = 8" "length (buf (s_to_v5f f)) = 8"
  shows "fst (answers fifo_do calls (fifo_init f)) = fst (answers spec_do calls (\<lambda>_. []))"
proof -
  have "inboxes (fifo_init f) = (\<lambda>_. [])" by (simp add: inboxes_def inbox_init)
  then show ?thesis using fifo_answers_refine [OF fifo_init_ok [OF assms], of calls] by simp
qed

definition blank_ring :: ring where
  "blank_ring = \<lparr>buf = replicate 8 0xDEAD, head = 5, tail = 2\<rparr>"

definition blank_fifos :: fifos where
  "blank_fifos = \<lparr>s_to_v3f = blank_ring, s_to_v5f = blank_ring, ipc_flags = []\<rparr>"

theorem fifo_is_two_queues_witness:
  "fst (answers fifo_do [(V5F, Push 1), (V5F, Push 2), (V3F, Push 9), (V3F, Pop), (V5F, Available)]
      (fifo_init blank_fifos)) = [Pushed True, Pushed True, Pushed True, Popped (Some 1), Waiting 1]"
  by (subst fifo_is_two_queues) (simp_all add: blank_fifos_def blank_ring_def)

text \<open>
  C21.  A blocking push returns as soon as the other core makes room: if after some number of
  the other core's actions there would be room, the call comes back, and its word is then
  the last one waiting.
\<close>

theorem fifo_push_returns:
  assumes "fifos_ok f" "\<And>f. fifos_ok f \<Longrightarrow> fifos_ok (env f)"
    and "length (inbox (other c) ((env ^^ n) f)) < 7"
  shows "\<exists>k f'. fifo_push env c v f = Some f' \<and> k \<le> n \<and>
    inbox (other c) f' = inbox (other c) ((env ^^ k) f) @ [v]"
proof -
  obtain k where k: "k \<le> n" "fst (fifo_push_nb c v ((env ^^ k) f))"
      "\<forall>j < k. fifo_push_nb c v ((env ^^ j) f) = (False, (env ^^ j) f)"
      "inbox (other c) (snd (fifo_push_nb c v ((env ^^ k) f))) = inbox (other c) ((env ^^ k) f) @ [v]"
    using inboxq.enq_retry [of f env "other c" n v] assms by auto
  have "fifo_push env c v ((env ^^ (k - i)) f) = Some (snd (fifo_push_nb c v ((env ^^ k) f)))" if "i \<le> k" for i
    using that
  proof (induction i)
    case 0
    then show ?case using k(2) by (subst fifo_push.simps) (simp add: split_beta)
  next
    case (Suc i)
    then have "(env ^^ (k - i)) f = env ((env ^^ (k - Suc i)) f)"
      by (metis Suc_diff_Suc Suc_le_lessD comp_apply funpow.simps(2))
    then show ?case using Suc k(3) by (subst fifo_push.simps) simp
  qed
  from this [of k] show ?thesis using k by auto
qed

theorem fifo_push_returns_witness:
  "\<exists>f'. fifo_push (\<lambda>f. snd (fifo_pop_nb V3F f)) V5F 8 (snd (answers fifo_do (map (\<lambda>v. (V5F, Push v)) [1,2,3,4,5,6,7])
      (fifo_init blank_fifos))) = Some f' \<and> inbox V3F f' = [2,3,4,5,6,7,8]"
proof -
  let ?f = "snd (answers fifo_do (map (\<lambda>v. (V5F, Push v)) [1,2,3,4,5,6,7]) (fifo_init blank_fifos))"
  let ?env = "\<lambda>f. snd (fifo_pop_nb V3F f)"
  have ok: "fifos_ok ?f \<and> inbox V3F ?f = [1,2,3,4,5,6,7]"
    by code_simp
  have "fifos_ok (?env f)" if "fifos_ok f" for f using inboxq.deq_result [OF that, of V3F] by simp
  moreover have "inbox V3F ((?env ^^ 1) ?f) = [2,3,4,5,6,7]"
    using ok inboxq.deq_result [of ?f V3F] by simp
  ultimately obtain k f' where k: "fifo_push ?env V5F 8 ?f = Some f'" "k \<le> 1"
      "inbox V3F f' = inbox V3F ((?env ^^ k) ?f) @ [8]"
    using fifo_push_returns [of ?f ?env V5F 1 8] ok by auto
  have "length (inbox V3F f') < 8" by (simp add: inbox_def)
  then have "k = 1" using k ok by (cases k) auto
  then show ?thesis using k \<open>inbox V3F ((?env ^^ 1) ?f) = _\<close> by auto
qed

section \<open>One direction, access by access\<close>

text \<open>
  Now the producer's and the consumer's code broken into their accesses to the shared ring,
  interleaved in any order.  A program counter carries the locals of the call in progress.
  \<open>fifo_push_nb\<close>: read \<open>head\<close>; read \<open>tail\<close> and compare; store the word; after the fence,
  publish \<open>head\<close>.  \<open>fifo_pop_nb\<close>: read \<open>tail\<close>; read \<open>head\<close> and compare; load the word;
  after the fence, publish \<open>tail\<close>.  \<open>fifo_drain\<close>: read \<open>head\<close>, store it to \<open>tail\<close>.
\<close>

datatype producer = PIdle | PHead u32 u32 | PStore u32 u32 | PPublish u32 u32
datatype consumer = CIdle | CTail u32 | CLoad u32 | CPublish u32 u32 | CDrain u32

record spsc =
  ring :: ring
  prod :: producer
  cons :: consumer

datatype event = Silent | Sent u32 | Full | Received u32 | Empty | Dropped "u32 list"

inductive spsc_step :: "spsc \<Rightarrow> event \<Rightarrow> spsc \<Rightarrow> bool" where
  push_head: "prod s = PIdle \<Longrightarrow> spsc_step s Silent (s\<lparr>prod := PHead v (head (ring s))\<rparr>)"
| push_full: "prod s = PHead v h \<Longrightarrow> next_index h = tail (ring s) \<Longrightarrow>
    spsc_step s Full (s\<lparr>prod := PIdle\<rparr>)"
| push_room: "prod s = PHead v h \<Longrightarrow> next_index h \<noteq> tail (ring s) \<Longrightarrow>
    spsc_step s Silent (s\<lparr>prod := PStore v h\<rparr>)"
| push_store: "prod s = PStore v h \<Longrightarrow>
    spsc_step s Silent (s\<lparr>ring := (ring s)\<lparr>buf := (buf (ring s))[unat h := v]\<rparr>, prod := PPublish v h\<rparr>)"
| push_publish: "prod s = PPublish v h \<Longrightarrow>
    spsc_step s (Sent v) (s\<lparr>ring := (ring s)\<lparr>head := next_index h\<rparr>, prod := PIdle\<rparr>)"
| pop_tail: "cons s = CIdle \<Longrightarrow> spsc_step s Silent (s\<lparr>cons := CTail (tail (ring s))\<rparr>)"
| pop_empty: "cons s = CTail t \<Longrightarrow> t = head (ring s) \<Longrightarrow> spsc_step s Empty (s\<lparr>cons := CIdle\<rparr>)"
| pop_some: "cons s = CTail t \<Longrightarrow> t \<noteq> head (ring s) \<Longrightarrow> spsc_step s Silent (s\<lparr>cons := CLoad t\<rparr>)"
| pop_load: "cons s = CLoad t \<Longrightarrow>
    spsc_step s Silent (s\<lparr>cons := CPublish t (buf (ring s) ! unat t)\<rparr>)"
| pop_publish: "cons s = CPublish t v \<Longrightarrow>
    spsc_step s (Received v) (s\<lparr>ring := (ring s)\<lparr>tail := next_index t\<rparr>, cons := CIdle\<rparr>)"
| drain_head: "cons s = CIdle \<Longrightarrow> spsc_step s Silent (s\<lparr>cons := CDrain (head (ring s))\<rparr>)"
| drain_tail: "cons s = CDrain h \<Longrightarrow>
    spsc_step s (Dropped (take (gap (tail (ring s)) h) (contents (ring s))))
      (s\<lparr>ring := (ring s)\<lparr>tail := h\<rparr>, cons := CIdle\<rparr>)"

inductive spsc_run :: "spsc \<Rightarrow> event list \<Rightarrow> spsc \<Rightarrow> bool" where
  run_start: "spsc_run s [] s"
| run_step: "spsc_run s es s1 \<Longrightarrow> spsc_step s1 e s2 \<Longrightarrow> spsc_run s (es @ [e]) s2"

text \<open>Run without interruption, the steps are the functions above.\<close>

lemma ring_push_steps:
  assumes "prod s = PIdle" "ring_push v (ring s) = (b, r')"
  shows "spsc_run s (if b then [Silent, Silent, Silent, Sent v] else [Silent, Full]) (s\<lparr>ring := r'\<rparr>)"
proof -
  let ?h = "head (ring s)"
  let ?s1 = "s\<lparr>prod := PHead v ?h\<rparr>"
  have 1: "spsc_run s [Silent] ?s1"
    using run_step [OF run_start push_head [OF assms(1), of v]] by simp
  show ?thesis
  proof (cases "next_index ?h = tail (ring s)")
    case True
    have "spsc_run s [Silent, Full] (?s1\<lparr>prod := PIdle\<rparr>)"
      using run_step [OF 1 push_full [of ?s1 v ?h]] True by simp
    moreover have "?s1\<lparr>prod := PIdle\<rparr> = s\<lparr>ring := r'\<rparr>" "\<not> b"
      using True assms by (auto simp: ring_push_def Let_def)
    ultimately show ?thesis by simp
  next
    case False
    let ?s2 = "s\<lparr>prod := PStore v ?h\<rparr>"
    let ?s3 = "s\<lparr>ring := (ring s)\<lparr>buf := (buf (ring s))[unat ?h := v]\<rparr>, prod := PPublish v ?h\<rparr>"
    have 2: "spsc_run s [Silent, Silent] ?s2"
      using run_step [OF 1 push_room [of ?s1 v ?h]] False by simp
    have 3: "spsc_run s [Silent, Silent, Silent] ?s3"
      using run_step [OF 2 push_store [of ?s2 v ?h]] by simp
    have "spsc_run s [Silent, Silent, Silent, Sent v]
        (?s3\<lparr>ring := (ring ?s3)\<lparr>head := next_index ?h\<rparr>, prod := PIdle\<rparr>)"
      using run_step [OF 3 push_publish [of ?s3 v ?h]] by simp
    moreover have "?s3\<lparr>ring := (ring ?s3)\<lparr>head := next_index ?h\<rparr>, prod := PIdle\<rparr> = s\<lparr>ring := r'\<rparr>" "b"
      using False assms by (auto simp: ring_push_def Let_def)
    ultimately show ?thesis by simp
  qed
qed

subsection \<open>The invariant of the interleaving\<close>

definition prod_ok :: "spsc \<Rightarrow> bool" where
  "prod_ok s \<longleftrightarrow> (let r = ring s; used = gap (tail r) (head r) in
     (case prod s of
        PIdle \<Rightarrow> True
      | PHead v h \<Rightarrow> h = head r
      | PStore v h \<Rightarrow> h = head r \<and> used < 7
      | PPublish v h \<Rightarrow> h = head r \<and> used < 7 \<and> buf r ! unat h = v))"

definition cons_ok :: "spsc \<Rightarrow> bool" where
  "cons_ok s \<longleftrightarrow> (let r = ring s; used = gap (tail r) (head r) in
     (case cons s of
        CIdle \<Rightarrow> True
      | CTail t \<Rightarrow> t = tail r
      | CLoad t \<Rightarrow> t = tail r \<and> 0 < used
      | CPublish t v \<Rightarrow> t = tail r \<and> 0 < used \<and> buf r ! unat t = v
      | CDrain h \<Rightarrow> unat h < 8 \<and> gap (tail r) h \<le> used))"

definition spsc_ok :: "spsc \<Rightarrow> bool" where
  "spsc_ok s \<longleftrightarrow> ring_ok (ring s) \<and> prod_ok s \<and> cons_ok s"

text \<open>The abstract queue, one event at a time.\<close>

inductive queue_step :: "u32 list \<Rightarrow> event \<Rightarrow> u32 list \<Rightarrow> bool" where
  "queue_step q Silent q"
| "length q < 7 \<Longrightarrow> queue_step q (Sent v) (q @ [v])"
| "length q = 7 \<Longrightarrow> queue_step q Full q"
| "queue_step (v # q) (Received v) q"
| "queue_step [] Empty []"
| "queue_step (xs @ q) (Dropped xs) q"

inductive_simps queue_step_simps:
  "queue_step q Silent q'" "queue_step q (Sent v) q'" "queue_step q Full q'"
  "queue_step q (Received v) q'" "queue_step q Empty q'" "queue_step q (Dropped xs) q'"

lemma gap_next_le:
  assumes "unat t < 8" "unat h < 8" "unat k < 8" "gap t k \<le> gap t h" "gap t h < 7"
  shows "gap t k \<le> gap t (next_index h)"
  using gap_next_head [of t h] assms by simp

lemma contents_drain:
  assumes "ring_ok r" "unat h < 8" "gap (tail r) h \<le> gap (tail r) (head r)"
  shows "contents r = take (gap (tail r) h) (contents r) @ contents (r\<lparr>tail := h\<rparr>)"
  using assms
proof (induction "gap (tail r) h" arbitrary: r)
  case 0
  then have "tail r = h" using gap_eq_0 [of "tail r" h] by (simp add: ring_ok_def)
  then show ?case using 0 by (cases r) simp
next
  case (Suc n)
  have b: "unat (tail r) < 8" "unat (head r) < 8" using Suc.prems by (auto simp: ring_ok_def)
  have ne: "tail r \<noteq> h" "tail r \<noteq> head r"
    using Suc.hyps(2) Suc.prems(3) gap_eq_0 [of "tail r" h] gap_eq_0 [of "tail r" "head r"] b Suc.prems(2)
    by auto
  let ?r = "r\<lparr>tail := next_index (tail r)\<rparr>"
  have g: "Suc (gap (tail ?r) h) = gap (tail r) h" "Suc (gap (tail ?r) (head r)) = gap (tail r) (head r)"
    using gap_next_tail [of "tail r"] b ne Suc.prems(2) by auto
  have "contents ?r = take (gap (tail ?r) h) (contents ?r) @ contents (?r\<lparr>tail := h\<rparr>)"
    using Suc.hyps Suc.prems g by (intro Suc.hyps(1)) (auto simp: ring_ok_def)
  then have ih: "take (gap (tail ?r) h) (contents ?r) @ contents (r\<lparr>tail := h\<rparr>) = contents ?r"
    by (cases r) simp
  have c: "contents r = buf r ! unat (tail r) # contents ?r"
    by (rule contents_pop [OF Suc.prems(1) ne(2)])
  show ?case unfolding c g(1) [symmetric] take_Suc_Cons append_Cons ih by (rule refl)
qed

lemma spsc_step_refines:
  assumes "spsc_ok s" "spsc_step s e s'"
  shows "spsc_ok s' \<and> queue_step (contents (ring s)) e (contents (ring s'))"
  using assms(2)
proof cases
  case (push_head v)
  with assms(1) show ?thesis
    by (auto simp: spsc_ok_def prod_ok_def cons_ok_def queue_step_simps)
next
  case (push_full v h)
  with assms(1) show ?thesis
    by (auto simp: spsc_ok_def prod_ok_def cons_ok_def queue_step_simps ring_ok_def gap_full)
next
  case (push_room v h)
  with assms(1) gap_full [of "tail (ring s)" h] gap_less [of "tail (ring s)" h] show ?thesis
    by (auto simp: spsc_ok_def prod_ok_def cons_ok_def queue_step_simps ring_ok_def Let_def simp del: gap_less)
next
  case (push_store v h)
  moreover have "0 < gap t h \<Longrightarrow> unat h \<noteq> unat t" for t h by (auto simp: gap_def)
  ultimately show ?thesis using assms(1) contents_store [of "ring s" v]
    by (auto simp: spsc_ok_def prod_ok_def cons_ok_def queue_step_simps ring_ok_def Let_def
        nth_list_update gap_eq_0 split: consumer.splits)
next
  case (push_publish v h)
  have r: "ring_ok (ring s)" "h = head (ring s)" "gap (tail (ring s)) h < 7" "buf (ring s) ! unat h = v"
    using assms(1) push_publish by (auto simp: spsc_ok_def prod_ok_def Let_def)
  have b: "unat (tail (ring s)) < 8" "unat (head (ring s)) < 8" using r(1) by (auto simp: ring_ok_def)
  have q: "queue_step (contents (ring s)) e (contents (ring s'))"
    using contents_publish [of "ring s"] r push_publish by (simp add: queue_step_simps)
  have g: "gap (tail (ring s)) (next_index h) = Suc (gap (tail (ring s)) h)"
    using gap_next_head [OF b] r by simp
  have "cons_ok s'"
    using assms(1) push_publish g r(2)
    by (auto simp: spsc_ok_def cons_ok_def Let_def split: consumer.splits)
  then show ?thesis using q r push_publish by (simp add: spsc_ok_def prod_ok_def ring_ok_def)
next
  case (pop_tail)
  with assms(1) show ?thesis
    by (auto simp: spsc_ok_def prod_ok_def cons_ok_def queue_step_simps)
next
  case (pop_empty t)
  with assms(1) show ?thesis
    by (auto simp: spsc_ok_def prod_ok_def cons_ok_def queue_step_simps contents_same_index)
next
  case (pop_some t)
  with assms(1) gap_eq_0 [of t "head (ring s)"] show ?thesis
    by (auto simp: spsc_ok_def prod_ok_def cons_ok_def queue_step_simps ring_ok_def)
next
  case (pop_load t)
  with assms(1) show ?thesis
    by (auto simp: spsc_ok_def prod_ok_def cons_ok_def queue_step_simps)
next
  case (pop_publish t v)
  have r: "ring_ok (ring s)" "t = tail (ring s)" "0 < gap t (head (ring s))" "buf (ring s) ! unat t = v"
    using assms(1) pop_publish by (auto simp: spsc_ok_def cons_ok_def Let_def)
  have b: "unat (tail (ring s)) < 8" "unat (head (ring s)) < 8" using r(1) by (auto simp: ring_ok_def)
  have ne: "tail (ring s) \<noteq> head (ring s)" using gap_eq_0 [OF b] r by simp
  have q: "queue_step (contents (ring s)) e (contents (ring s'))"
    using contents_pop [OF r(1) ne] r pop_publish by (simp add: queue_step_simps)
  have "gap (next_index t) (head (ring s)) < gap t (head (ring s))"
    using gap_next_tail [OF b ne] r by simp
  then have "prod_ok s'"
    using assms(1) pop_publish r(2)
    by (auto simp: spsc_ok_def prod_ok_def Let_def split: producer.splits)
  then show ?thesis using q r pop_publish by (simp add: spsc_ok_def cons_ok_def ring_ok_def)
next
  case (drain_head)
  with assms(1) show ?thesis
    by (auto simp: spsc_ok_def prod_ok_def cons_ok_def queue_step_simps ring_ok_def)
next
  case (drain_tail h)
  have r: "ring_ok (ring s)" "unat h < 8" "gap (tail (ring s)) h \<le> gap (tail (ring s)) (head (ring s))"
    using assms(1) drain_tail by (auto simp: spsc_ok_def cons_ok_def Let_def)
  note d = contents_drain [OF r]
  have q: "queue_step (contents (ring s)) e (contents (ring s'))"
    using d drain_tail by (simp add: queue_step_simps)
  have "length (contents (ring s)) = gap (tail (ring s)) h + length (contents ((ring s)\<lparr>tail := h\<rparr>))"
    using arg_cong [OF d, of length] r(3) by (simp del: length_contents) simp
  then have "prod_ok s'"
    using assms(1) drain_tail
    by (auto simp: spsc_ok_def prod_ok_def Let_def split: producer.splits)
  then show ?thesis using q r drain_tail by (simp add: spsc_ok_def cons_ok_def ring_ok_def)
qed

inductive queue_run :: "u32 list \<Rightarrow> event list \<Rightarrow> u32 list \<Rightarrow> bool" where
  queue_start: "queue_run q [] q"
| queue_more: "queue_run q es q1 \<Longrightarrow> queue_step q1 e q2 \<Longrightarrow> queue_run q (es @ [e]) q2"

lemma spsc_run_refines:
  "spsc_run s es s' \<Longrightarrow> spsc_ok s \<Longrightarrow>
   spsc_ok s' \<and> queue_run (contents (ring s)) es (contents (ring s'))"
proof (induction rule: spsc_run.induct)
  case (run_start s)
  then show ?case by (simp add: queue_start)
next
  case (run_step s es s1 e s2)
  then show ?case using spsc_step_refines [of s1 e s2] queue_more by blast
qed

fun sent :: "event list \<Rightarrow> u32 list" where
  "sent [] = []"
| "sent (Sent v # es) = v # sent es"
| "sent (_ # es) = sent es"

fun taken :: "event list \<Rightarrow> u32 list" where
  "taken [] = []"
| "taken (Received v # es) = v # taken es"
| "taken (Dropped xs # es) = xs @ taken es"
| "taken (_ # es) = taken es"

lemma sent_append [simp]: "sent (es @ es') = sent es @ sent es'"
  by (induction es rule: sent.induct) simp_all

lemma taken_append [simp]: "taken (es @ es') = taken es @ taken es'"
  by (induction es rule: taken.induct) simp_all

lemma queue_run_order: "queue_run q es q' \<Longrightarrow> q @ sent es = taken es @ q'"
proof (induction rule: queue_run.induct)
  case (queue_more q es q1 e q2)
  show ?case using queue_more(2,3) by (cases e) (auto simp: queue_step_simps)
qed simp

text \<open>
  C2.  With the two cores' accesses to the ring interleaved in any order, the words the
  consumer has taken (popped or drained), followed by those still in the ring, are exactly
  the words the producer has sent, in order; the ring never holds more than seven, and a
  word is never read from a slot the producer is writing.
\<close>

theorem spsc_fifo_order:
  assumes "spsc_run \<lparr>ring = r, prod = PIdle, cons = CIdle\<rparr> es s" "length (buf r) = 8" "head r = 0" "tail r = 0"
  shows "sent es = taken es @ contents (ring s) \<and> length (contents (ring s)) \<le> 7 \<and>
    (\<forall>v h t. prod s = PStore v h \<longrightarrow> cons s = CLoad t \<longrightarrow> h \<noteq> t)"
proof -
  let ?s = "\<lparr>ring = r, prod = PIdle, cons = CIdle\<rparr>"
  have "spsc_ok ?s" using assms by (simp add: spsc_ok_def prod_ok_def cons_ok_def ring_ok_def)
  from spsc_run_refines [OF assms(1) this]
  have ok: "spsc_ok s" and run: "queue_run (contents r) es (contents (ring s))" by simp_all
  have "contents r = []" using assms by (intro contents_same_index) simp
  then have order: "sent es = taken es @ contents (ring s)" using queue_run_order [OF run] by simp
  have slots: "h \<noteq> t" if "prod s = PStore v h" "cons s = CLoad t" for v h t
    using ok that by (auto simp: spsc_ok_def prod_ok_def cons_ok_def Let_def gap_def)
  have "length (contents (ring s)) \<le> 7"
    using gap_less [of "tail (ring s)" "head (ring s)"] by (simp del: gap_less)
  then show ?thesis using order slots by blast
qed

theorem spsc_fifo_order_witness:
  "\<exists>s. spsc_run \<lparr>ring = \<lparr>buf = replicate 8 0, head = 0, tail = 0\<rparr>, prod = PIdle, cons = CIdle\<rparr>
      [Silent, Silent, Silent, Sent 7] s \<and> [7] = contents (ring s)"
proof -
  let ?r = "\<lparr>buf = replicate 8 0, head = 0, tail = 0\<rparr> :: ring"
  let ?s = "\<lparr>ring = ?r, prod = PIdle, cons = CIdle\<rparr>"
  obtain r' where "ring_push 7 ?r = (True, r')"
    by (simp add: ring_push_def next_index_def FIFO_DEPTH_def)
  then have run: "spsc_run ?s [Silent, Silent, Silent, Sent 7] (?s\<lparr>ring := r'\<rparr>)"
    using ring_push_steps [of ?s 7 True r'] by simp
  then show ?thesis using spsc_fifo_order [OF run] by auto
qed

end
