(* ===== verification/Locks.thy ===== *)
theory Locks
  imports Machine
begin

text \<open>
  The hardware-semaphore mutexes of \<open>cores/ch32h4/ch32h4_xcore.c\<close>, plain and recursive per
  core.  The HSEM block is reached through each core's \<open>machine\<close>; what the code relies on
  it for is the predicate \<open>hsem_works\<close>.
\<close>

definition HSEM_COUNT :: u8 where "HSEM_COUNT = 16"

record 'd xc =
  s_mutex_depth :: "u8 \<Rightarrow> core \<Rightarrow> u8"
  hsem_ready :: bool
  hw :: 'd

text \<open>The part of \<open>ch32h4_xcore_init\<close> that clears the depths, over the array's 16 rows.\<close>

definition mutex_init :: "'d xc \<Rightarrow> 'd xc" where
  "mutex_init x = x\<lparr>s_mutex_depth := (\<lambda>k c. if k < HSEM_COUNT then 0 else s_mutex_depth x k c)\<rparr>"

definition set_depth :: "u8 \<Rightarrow> core \<Rightarrow> u8 \<Rightarrow> 'd xc \<Rightarrow> 'd xc" where
  "set_depth k c n x =
     x\<lparr>s_mutex_depth := (s_mutex_depth x)(k := (s_mutex_depth x k)(c := n))\<rparr>"

section \<open>The plain mutex\<close>

definition hsem_setup :: "'d xc \<Rightarrow> 'd xc" where
  "hsem_setup x = (if hsem_ready x then x else x\<lparr>hsem_ready := True\<rparr>)"

definition mutex_try_lock :: "(core \<Rightarrow> 'd machine) \<Rightarrow> core \<Rightarrow> u8 \<Rightarrow> 'd xc \<Rightarrow> bool \<times> 'd xc" where
  "mutex_try_lock M c k x =
     (if HSEM_COUNT \<le> k then (False, x)
      else let x1 = hsem_setup x
           in case m_rd (M c) (HSEM_RLRX k) (hw x1) of
                (v, d) \<Rightarrow> (v = 0, x1\<lparr>hw := d\<rparr>))"

text \<open>\<open>env\<close> is what the other core does between two attempts.\<close>

definition mutex_attempt ::
  "(core \<Rightarrow> 'd machine) \<Rightarrow> ('d xc \<Rightarrow> 'd xc) \<Rightarrow> core \<Rightarrow> u8 \<Rightarrow> 'd xc \<Rightarrow> bool \<times> 'd xc" where
  "mutex_attempt M env c k x =
     (case mutex_try_lock M c k x of (ok, x1) \<Rightarrow> if ok then (True, x1) else (False, env x1))"

definition mutex_lock ::
  "(core \<Rightarrow> 'd machine) \<Rightarrow> ('d xc \<Rightarrow> 'd xc) \<Rightarrow> core \<Rightarrow> u8 \<Rightarrow> 'd xc \<Rightarrow> 'd xc option" where
  "mutex_lock M env c k x = spin (mutex_attempt M env c k) x"

definition mutex_unlock :: "(core \<Rightarrow> 'd machine) \<Rightarrow> core \<Rightarrow> u8 \<Rightarrow> 'd xc \<Rightarrow> 'd xc" where
  "mutex_unlock M c k x =
     (if HSEM_COUNT \<le> k then x
      else x\<lparr>hw := m_call (M c) (Call ''HSEM_ReleaseOneSem'' [Num (ucast k), Num 0]) (hw x)\<rparr>)"

section \<open>The recursive mutex\<close>

definition mutex_try_lock_rec :: "(core \<Rightarrow> 'd machine) \<Rightarrow> core \<Rightarrow> u8 \<Rightarrow> 'd xc \<Rightarrow> bool \<times> 'd xc" where
  "mutex_try_lock_rec M c k x =
     (if HSEM_COUNT \<le> k then (False, x)
      else if s_mutex_depth x k c \<noteq> 0 then (True, set_depth k c (s_mutex_depth x k c + 1) x)
      else (case mutex_try_lock M c k x of
              (ok, x1) \<Rightarrow> if \<not> ok then (False, x1) else (True, set_depth k c 1 x1)))"

text \<open>
  \<open>ch32h4_mutex_lock_rec\<close> up to its call of \<open>ch32h4_mutex_lock\<close>: the Boolean says that the
  call is made.
\<close>

definition mutex_lock_rec_enter :: "core \<Rightarrow> u8 \<Rightarrow> 'd xc \<Rightarrow> bool \<times> 'd xc" where
  "mutex_lock_rec_enter c k x =
     (if HSEM_COUNT \<le> k then (False, x)
      else (s_mutex_depth x k c = 0, set_depth k c (s_mutex_depth x k c + 1) x))"

definition mutex_lock_rec ::
  "(core \<Rightarrow> 'd machine) \<Rightarrow> ('d xc \<Rightarrow> 'd xc) \<Rightarrow> core \<Rightarrow> u8 \<Rightarrow> 'd xc \<Rightarrow> 'd xc option" where
  "mutex_lock_rec M env c k x =
     (case mutex_lock_rec_enter c k x of
        (must, x1) \<Rightarrow> if must then mutex_lock M env c k x1 else Some x1)"

definition mutex_unlock_rec :: "(core \<Rightarrow> 'd machine) \<Rightarrow> core \<Rightarrow> u8 \<Rightarrow> 'd xc \<Rightarrow> 'd xc" where
  "mutex_unlock_rec M c k x =
     (if HSEM_COUNT \<le> k then x
      else if s_mutex_depth x k c = 0 then x
      else let n = s_mutex_depth x k c - 1; x1 = set_depth k c n x
           in if n = 0 then mutex_unlock M c k x1 else x1)"

section \<open>What the semaphores do\<close>

text \<open>
  The behaviour the source records for the block: reading \<open>RLRX\<close> takes a free semaphore
  for the reading core and returns zero; while somebody owns it the read returns a nonzero
  value and changes nothing.  A release by the owner frees it.
\<close>

definition hsem_works :: "(core \<Rightarrow> 'd machine) \<Rightarrow> ('d \<Rightarrow> u8 \<Rightarrow> core option) \<Rightarrow> bool" where
  "hsem_works M own \<longleftrightarrow>
     (\<forall>c k d v d'. k < HSEM_COUNT \<longrightarrow> m_rd (M c) (HSEM_RLRX k) d = (v, d') \<longrightarrow>
        (if own d k = None then v = 0 \<and> own d' = (own d)(k := Some c)
         else v \<noteq> 0 \<and> own d' = own d)) \<and>
     (\<forall>c k d. k < HSEM_COUNT \<longrightarrow> own d k = Some c \<longrightarrow>
        own (m_call (M c) (Call ''HSEM_ReleaseOneSem'' [Num (ucast k), Num 0]) d) = (own d)(k := None))"

abbreviation owner :: "('d \<Rightarrow> u8 \<Rightarrow> core option) \<Rightarrow> 'd xc \<Rightarrow> u8 \<Rightarrow> core option" where
  "owner own x \<equiv> own (hw x)"

lemma hw_frame [simp]:
  "hw (hsem_setup x) = hw x" "hw (set_depth k c n x) = hw x"
  "s_mutex_depth (hsem_setup x) = s_mutex_depth x"
  "s_mutex_depth (set_depth k c n x) =
     (s_mutex_depth x)(k := (s_mutex_depth x k)(c := n))"
  by (simp_all add: hsem_setup_def set_depth_def)

lemma hsem_take:
  assumes "hsem_works M own" "k < HSEM_COUNT" "m_rd (M c) (HSEM_RLRX k) d = (v, d')"
  shows "if own d k = None then v = 0 \<and> own d' = (own d)(k := Some c) else v \<noteq> 0 \<and> own d' = own d"
  using assms unfolding hsem_works_def by blast

lemma try_lock_works:
  assumes "hsem_works M own" "mutex_try_lock M c k x = (ok, x')"
  shows "s_mutex_depth x' = s_mutex_depth x \<and> (ok \<longrightarrow> k < HSEM_COUNT) \<and>
    (if ok then owner own x k = None \<and> owner own x' = (owner own x)(k := Some c)
     else owner own x' = owner own x \<and> (k < HSEM_COUNT \<longrightarrow> owner own x k \<noteq> None))"
proof (cases "k < HSEM_COUNT")
  case True
  obtain v d where r: "m_rd (M c) (HSEM_RLRX k) (hw x) = (v, d)"
    by (cases "m_rd (M c) (HSEM_RLRX k) (hw x)")
  have "\<not> HSEM_COUNT \<le> k" using True by simp
  then have e: "ok = (v = 0)" "x' = (hsem_setup x)\<lparr>hw := d\<rparr>"
    using assms(2) r by (simp_all add: mutex_try_lock_def)
  show ?thesis using hsem_take [OF assms(1) True r] True by (simp add: e split: if_splits)
next
  case False
  then show ?thesis using assms(2) by (auto simp: mutex_try_lock_def not_less dest: leD)
qed

lemma hsem_release:
  assumes "hsem_works M own" "k < HSEM_COUNT" "own d k = Some c"
  shows "own (m_call (M c) (Call ''HSEM_ReleaseOneSem'' [Num (ucast k), Num 0]) d) = (own d)(k := None)"
  using assms unfolding hsem_works_def by blast

lemma unlock_works:
  assumes "hsem_works M own" "k < HSEM_COUNT" "owner own x k = Some c"
  shows "owner own (mutex_unlock M c k x) = (owner own x)(k := None)"
    "s_mutex_depth (mutex_unlock M c k x) = s_mutex_depth x"
  using hsem_release [OF assms] assms(2) by (simp_all add: mutex_unlock_def not_le)

lemma unlock_rec_works:
  assumes "hsem_works M own" "k < HSEM_COUNT" "s_mutex_depth x k c \<noteq> 0" "owner own x k = Some c"
  shows "owner own (mutex_unlock_rec M c k x) =
      (if s_mutex_depth x k c = 1 then (owner own x)(k := None) else owner own x)"
    "s_mutex_depth (mutex_unlock_rec M c k x) j e =
      (if j = k \<and> e = c then s_mutex_depth x k c - 1 else s_mutex_depth x j e)"
proof -
  let ?x = "set_depth k c (s_mutex_depth x k c - 1) x"
  have k: "\<not> HSEM_COUNT \<le> k" using assms(2) by simp
  have o: "owner own ?x k = Some c" using assms(4) by simp
  note u = unlock_works [OF assms(1,2) o]
  show "owner own (mutex_unlock_rec M c k x) =
      (if s_mutex_depth x k c = 1 then (owner own x)(k := None) else owner own x)"
    using assms(3) k u(1)
    by (cases "s_mutex_depth x k c = 1") (simp_all add: mutex_unlock_rec_def Let_def)
  show "s_mutex_depth (mutex_unlock_rec M c k x) j e =
      (if j = k \<and> e = c then s_mutex_depth x k c - 1 else s_mutex_depth x j e)"
    using assms(3) k u(2)
    by (cases "s_mutex_depth x k c = 1") (simp_all add: mutex_unlock_rec_def Let_def)
qed

section \<open>Two cores taking turns\<close>

text \<open>
  \<open>waiting c = Some k\<close> while core \<open>c\<close> spins in \<open>ch32h4_mutex_lock\<close> for \<open>k\<close>.  A core's depth
  counters are touched by that core only, so each call is one step but for the spin, which
  is one step per attempt.
\<close>

record 'd two =
  xc :: "'d xc"
  waiting :: "core \<Rightarrow> u8 option"

inductive lock_step :: "(core \<Rightarrow> 'd machine) \<Rightarrow> 'd two \<Rightarrow> 'd two \<Rightarrow> bool" for M where
  try_rec: "waiting s c = None \<Longrightarrow> mutex_try_lock_rec M c k (xc s) = (ok, x) \<Longrightarrow>
    lock_step M s (s\<lparr>xc := x\<rparr>)"
| lock_enter: "waiting s c = None \<Longrightarrow> mutex_lock_rec_enter c k (xc s) = (must, x) \<Longrightarrow>
    lock_step M s (s\<lparr>xc := x, waiting := (waiting s)(c := if must then Some k else None)\<rparr>)"
| lock_spin: "waiting s c = Some k \<Longrightarrow> mutex_try_lock M c k (xc s) = (ok, x) \<Longrightarrow>
    lock_step M s (s\<lparr>xc := x, waiting := (waiting s)(c := if ok then None else Some k)\<rparr>)"
| unlock_rec: "waiting s c = None \<Longrightarrow>
    lock_step M s (s\<lparr>xc := mutex_unlock_rec M c k (xc s)\<rparr>)"

inductive lock_reach :: "(core \<Rightarrow> 'd machine) \<Rightarrow> 'd two \<Rightarrow> 'd two \<Rightarrow> bool" for M where
  reach_refl: "lock_reach M s s"
| reach_step: "lock_reach M s s1 \<Longrightarrow> lock_step M s1 s2 \<Longrightarrow> lock_reach M s s2"

text \<open>\<open>holds s c k\<close>: core \<open>c\<close> is past its lock of \<open>k\<close> and has not yet unlocked it.\<close>

definition holds :: "'d two \<Rightarrow> core \<Rightarrow> u8 \<Rightarrow> bool" where
  "holds s c k \<longleftrightarrow> k < HSEM_COUNT \<and> s_mutex_depth (xc s) k c \<noteq> 0 \<and> waiting s c \<noteq> Some k"

definition lock_inv :: "('d \<Rightarrow> u8 \<Rightarrow> core option) \<Rightarrow> 'd two \<Rightarrow> bool" where
  "lock_inv own s \<longleftrightarrow>
     (\<forall>c k. holds s c k \<longrightarrow> owner own (xc s) k = Some c) \<and>
     (\<forall>c k. waiting s c = Some k \<longrightarrow> k < HSEM_COUNT)"

lemma holds_upd:
  "holds (s\<lparr>xc := x, waiting := w\<rparr>) c k \<longleftrightarrow> k < HSEM_COUNT \<and> s_mutex_depth x k c \<noteq> 0 \<and> w c \<noteq> Some k"
  "holds (s\<lparr>xc := x\<rparr>) c k \<longleftrightarrow> k < HSEM_COUNT \<and> s_mutex_depth x k c \<noteq> 0 \<and> waiting s c \<noteq> Some k"
  by (simp_all add: holds_def)

lemma lock_inv_try_rec:
  assumes "hsem_works M own" "lock_inv own s" "waiting s c = None"
    and "mutex_try_lock_rec M c k (xc s) = (ok, x)"
  shows "lock_inv own (s\<lparr>xc := x\<rparr>)"
proof -
  have "k < HSEM_COUNT \<Longrightarrow> s_mutex_depth (xc s) k c \<noteq> 0 \<Longrightarrow> owner own (xc s) k = Some c"
    using assms(2,3) by (auto simp: lock_inv_def holds_def)
  then show ?thesis
    using assms(2,4) try_lock_works [OF assms(1), of c k "xc s"]
    by (fastforce simp: lock_inv_def holds_upd mutex_try_lock_rec_def holds_def not_le split: if_splits prod.splits)
qed

lemma lock_inv_enter:
  assumes "lock_inv own s" "waiting s c = None" "mutex_lock_rec_enter c k (xc s) = (must, x)"
  shows "lock_inv own (s\<lparr>xc := x, waiting := (waiting s)(c := if must then Some k else None)\<rparr>)"
  using assms
  by (fastforce simp: lock_inv_def holds_upd mutex_lock_rec_enter_def holds_def not_le split: if_splits)

lemma lock_inv_spin:
  assumes "hsem_works M own" "lock_inv own s" "waiting s c = Some k"
    and "mutex_try_lock M c k (xc s) = (ok, x)"
  shows "lock_inv own (s\<lparr>xc := x, waiting := (waiting s)(c := if ok then None else Some k)\<rparr>)"
  using assms try_lock_works [OF assms(1,4)]
  by (fastforce simp: lock_inv_def holds_upd holds_def split: if_splits)

lemma lock_inv_unlock:
  assumes "hsem_works M own" "lock_inv own s" "waiting s c = None"
  shows "lock_inv own (s\<lparr>xc := mutex_unlock_rec M c k (xc s)\<rparr>)"
proof (cases "k < HSEM_COUNT \<and> s_mutex_depth (xc s) k c \<noteq> 0")
  case True
  then have "owner own (xc s) k = Some c"
    using assms(2,3) by (auto simp: lock_inv_def holds_def)
  note u = unlock_rec_works [OF assms(1) conjunct1 [OF True] conjunct2 [OF True] this]
  have h: "owner own (xc s) j = Some d" if "holds s d j" for d j
    using assms(2) that by (auto simp: lock_inv_def)
  have "owner own (mutex_unlock_rec M c k (xc s)) j = Some d"
    if "holds (s\<lparr>xc := mutex_unlock_rec M c k (xc s)\<rparr>) d j" for d j
  proof (cases "j = k \<and> d = c")
    case True
    with that have "s_mutex_depth (xc s) k c \<noteq> 1" by (auto simp: holds_upd u(2))
    then show ?thesis using \<open>owner own (xc s) k = Some c\<close> True by (simp add: u(1))
  next
    case False
    with that have "owner own (xc s) j = Some d" by (intro h) (auto simp: holds_upd u(2) holds_def)
    then show ?thesis using False \<open>owner own (xc s) k = Some c\<close> by (auto simp: u(1))
  qed
  then show ?thesis using assms(2) by (auto simp: lock_inv_def)
next
  case False
  then show ?thesis using assms(2) by (auto simp: mutex_unlock_rec_def not_le)
qed

lemma lock_step_inv:
  assumes "hsem_works M own" "lock_step M s s'" "lock_inv own s"
  shows "lock_inv own s'"
  using assms(2)
proof cases
  case (try_rec c k ok x)
  then show ?thesis using lock_inv_try_rec [OF assms(1,3)] by simp
next
  case (lock_enter c k must x)
  then show ?thesis using lock_inv_enter [OF assms(3)] by blast
next
  case (lock_spin c k ok x)
  then show ?thesis using lock_inv_spin [OF assms(1,3)] by blast
next
  case (unlock_rec c k)
  then show ?thesis using lock_inv_unlock [OF assms(1,3)] by simp
qed

lemma lock_reach_inv:
  "lock_reach M s s' \<Longrightarrow> hsem_works M own \<Longrightarrow> lock_inv own s \<Longrightarrow> lock_inv own s'"
  by (induction rule: lock_reach.induct) (auto intro: lock_step_inv)

section \<open>Properties\<close>

text \<open>
  C4.  In every interleaving of lock, try-lock and unlock calls by the two cores, on any
  semaphores and to any depth, the two cores never hold the same recursive mutex at once,
  and whoever holds it is the owner of the hardware semaphore.
\<close>

theorem rec_mutex_excludes:
  assumes "hsem_works M own" "lock_reach M s s'"
    and "\<forall>k c. k < HSEM_COUNT \<longrightarrow> s_mutex_depth (xc s) k c = 0" "\<forall>c. waiting s c = None"
  shows "\<not> (holds s' V3F k \<and> holds s' V5F k) \<and> (holds s' c k \<longrightarrow> owner own (xc s') k = Some c)"
proof -
  have "lock_inv own s" using assms(3,4) by (auto simp: lock_inv_def holds_def)
  then have inv: "lock_inv own s'" using lock_reach_inv [OF assms(2,1)] by simp
  then have o: "holds s' d k \<longrightarrow> owner own (xc s') k = Some d" for d by (simp add: lock_inv_def)
  show ?thesis using o [of V3F] o [of V5F] o [of c] by auto
qed

text \<open>A machine with nothing but the semaphore block; its state is the owners.\<close>

definition hsem_machine :: "core \<Rightarrow> (u8 \<Rightarrow> core option) machine" where
  "hsem_machine c =
     \<lparr>m_rd = (\<lambda>r d. case r of HSEM_RLRX k \<Rightarrow> (case d k of None \<Rightarrow> (0, d(k := Some c)) | Some _ \<Rightarrow> (0x80000000, d))
                    | _ \<Rightarrow> (0, d)),
      m_wr = (\<lambda>r v d. d), m_millis = (\<lambda>d. (0, d)),
      m_call = (\<lambda>f d. case f of Call n as \<Rightarrow>
         (case as of Num k # _ \<Rightarrow>
            if n = ''HSEM_ReleaseOneSem'' \<and> d (ucast k) = Some c then d(ucast k := None) else d
          | _ \<Rightarrow> d)),
      m_ask = (\<lambda>f d. (0, d))\<rparr>"

lemma ucast_u8_u32_u8 [simp]: "ucast (ucast (k :: u8) :: u32) = k"
  by (rule ucast_up_ucast_id) (simp add: is_up)

lemma hsem_machine_works: "hsem_works hsem_machine (\<lambda>d. d)"
  by (auto simp: hsem_works_def hsem_machine_def split: option.splits)

definition idle_xc :: "(u8 \<Rightarrow> core option) xc" where
  "idle_xc = \<lparr>s_mutex_depth = (\<lambda>_ _. 0), hsem_ready = False, hw = (\<lambda>_. None)\<rparr>"

theorem rec_mutex_excludes_witness:
  "\<exists>s'. lock_reach hsem_machine \<lparr>xc = idle_xc, waiting = (\<lambda>_. None)\<rparr> s' \<and> holds s' V3F 4 \<and> \<not> holds s' V5F 4"
proof -
  let ?s = "\<lparr>xc = idle_xc, waiting = (\<lambda>_. None)\<rparr>"
  obtain x where x: "mutex_try_lock_rec hsem_machine V3F 4 idle_xc = (True, x)" "s_mutex_depth x 4 V3F = 1"
    by (simp add: mutex_try_lock_rec_def mutex_try_lock_def hsem_setup_def idle_xc_def hsem_machine_def
        HSEM_COUNT_def set_depth_def)
  have r: "lock_reach hsem_machine ?s (?s\<lparr>xc := x\<rparr>)"
    using reach_step [OF reach_refl try_rec [of ?s V3F hsem_machine 4 True x]] x by simp
  have "holds (?s\<lparr>xc := x\<rparr>) V3F 4" using x by (simp add: holds_def HSEM_COUNT_def)
  then show ?thesis
    using rec_mutex_excludes [OF hsem_machine_works r, of 4 V3F] r by (auto simp: idle_xc_def)
qed

text \<open>\<open>n\<close> nested calls of \<open>ch32h4_mutex_try_lock_rec\<close>, and \<open>n\<close> unlocks.\<close>

fun lock_n :: "(core \<Rightarrow> 'd machine) \<Rightarrow> core \<Rightarrow> u8 \<Rightarrow> nat \<Rightarrow> 'd xc \<Rightarrow> bool \<times> 'd xc" where
  "lock_n M c k 0 x = (True, x)"
| "lock_n M c k (Suc n) x =
     (case lock_n M c k n x of (ok, x1) \<Rightarrow>
        (case mutex_try_lock_rec M c k x1 of (ok', x2) \<Rightarrow> (ok \<and> ok', x2)))"

fun unlock_n :: "(core \<Rightarrow> 'd machine) \<Rightarrow> core \<Rightarrow> u8 \<Rightarrow> nat \<Rightarrow> 'd xc \<Rightarrow> 'd xc" where
  "unlock_n M c k 0 x = x"
| "unlock_n M c k (Suc n) x = unlock_n M c k n (mutex_unlock_rec M c k x)"

lemma word_of_nat_u8_eq_0: "n < 256 \<Longrightarrow> (word_of_nat n :: u8) = 0 \<longleftrightarrow> n = 0"
  by (simp add: word_of_nat_eq_0_iff dvd_eq_mod_eq_0)

lemma lock_n_held:
  assumes "hsem_works M own" "k < HSEM_COUNT" "s_mutex_depth x k c = 0" "owner own x k = None" "n < 256"
  shows "0 < n \<Longrightarrow> \<exists>x'. lock_n M c k n x = (True, x') \<and> s_mutex_depth x' k c = word_of_nat n \<and>
    owner own x' = (owner own x)(k := Some c)"
  using assms(5)
proof (induction n)
  case (Suc n)
  have k: "\<not> HSEM_COUNT \<le> k" using assms(2) by simp
  show ?case
  proof (cases n)
    case 0
    obtain ok x1 where t: "mutex_try_lock M c k x = (ok, x1)" by (cases "mutex_try_lock M c k x")
    show ?thesis using try_lock_works [OF assms(1) t] assms(2-4) k t 0
      by (auto simp: mutex_try_lock_rec_def split: if_splits)
  next
    case (Suc m)
    then have "\<exists>x'. lock_n M c k n x = (True, x') \<and> s_mutex_depth x' k c = word_of_nat n \<and>
        owner own x' = (owner own x)(k := Some c)" using Suc.IH Suc.prems(2) \<open>n = Suc m\<close> by (metis Suc_lessD zero_less_Suc)
    then obtain x1 where "lock_n M c k n x = (True, x1)" "s_mutex_depth x1 k c = word_of_nat n"
        "owner own x1 = (owner own x)(k := Some c)" by blast
    moreover have "(word_of_nat n :: u8) \<noteq> 0" using word_of_nat_u8_eq_0 [of n] Suc Suc.prems by simp
    ultimately show ?thesis using k by (simp add: mutex_try_lock_rec_def add.commute fun_eq_iff)
  qed
qed simp

lemma unlock_n_depth:
  assumes "hsem_works M own" "k < HSEM_COUNT" "m \<le> n" "n < 256"
    and "s_mutex_depth x k c = word_of_nat n" "0 < n" "owner own x k = Some c"
  shows "s_mutex_depth (unlock_n M c k m x) k c = word_of_nat (n - m) \<and>
    owner own (unlock_n M c k m x) = (if m = n then (owner own x)(k := None) else owner own x)"
  using assms(3-)
proof (induction m arbitrary: n x)
  case (Suc m)
  have nz: "s_mutex_depth x k c \<noteq> 0"
    using word_of_nat_u8_eq_0 [of n] Suc.prems by simp
  note u = unlock_rec_works [OF assms(1,2) nz Suc.prems(5)]
  have n: "s_mutex_depth x k c = word_of_nat (n - 1) + 1" using Suc.prems(3,4)
    by (cases n) (simp_all add: add.commute)
  have d: "s_mutex_depth (mutex_unlock_rec M c k x) k c = word_of_nat (n - 1)"
    by (simp add: u(2) n)
  have "s_mutex_depth x k c = 1 \<longleftrightarrow> (word_of_nat (n - 1) :: u8) = 0" by (simp add: n)
  also have "\<dots> \<longleftrightarrow> n = 1"
    using word_of_nat_u8_eq_0 [of "n - 1"] Suc.prems(2,4) by auto
  finally have one: "s_mutex_depth x k c = 1 \<longleftrightarrow> n = 1" .
  show ?case
  proof (cases "n = 1")
    case True
    then show ?thesis using d u(1) one Suc.prems(1) by simp
  next
    case False
    have o: "owner own (mutex_unlock_rec M c k x) = owner own x" using u(1) one False by simp
    have "s_mutex_depth (unlock_n M c k m (mutex_unlock_rec M c k x)) k c = word_of_nat (n - 1 - m) \<and>
      owner own (unlock_n M c k m (mutex_unlock_rec M c k x)) =
        (if m = n - 1 then (owner own x)(k := None) else owner own x)"
      unfolding o [symmetric] using Suc.prems False d o by (intro Suc.IH) auto
    then show ?thesis using Suc.prems(1) by auto
  qed
qed simp_all

text \<open>
  C22.  Up to 255 nested locks of a free recursive mutex succeed, the semaphore stays with
  the core through all but the last of the matching unlocks, and the last one frees it.
\<close>

theorem rec_mutex_nests:
  assumes "hsem_works M own" "k < HSEM_COUNT" "s_mutex_depth x k c = 0" "owner own x k = None"
    and "0 < n" "n < 256" "m \<le> n"
  shows "\<exists>x'. lock_n M c k n x = (True, x') \<and>
    owner own (unlock_n M c k m x') k = (if m = n then None else Some c)"
proof -
  obtain x' where x': "lock_n M c k n x = (True, x')" "s_mutex_depth x' k c = word_of_nat n"
      "owner own x' = (owner own x)(k := Some c)"
    using lock_n_held [OF assms(1-4) assms(6,5)] by blast
  then show ?thesis
    using unlock_n_depth [OF assms(1,2,7,6) x'(2) assms(5)] by simp
qed

theorem rec_mutex_nests_witness:
  "\<exists>x'. lock_n hsem_machine V5F 4 3 idle_xc = (True, x') \<and>
    owner (\<lambda>d. d) (unlock_n hsem_machine V5F 4 3 x') 4 = None"
  using rec_mutex_nests [OF hsem_machine_works, of 4 idle_xc V5F 3 3]
  by (simp add: HSEM_COUNT_def idle_xc_def del: lock_n.simps unlock_n.simps)

text \<open>
  The depth is eight bits wide: 256 nested locks all report success and leave it at
  zero.  From then on every unlock does nothing, so the semaphore stays with this core for
  good and the other core can never take it again.
\<close>

theorem rec_mutex_depth_wraps:
  assumes "hsem_works M own" "k < HSEM_COUNT" "s_mutex_depth x k c = 0" "owner own x k = None"
  shows "\<exists>x'. lock_n M c k 256 x = (True, x') \<and> s_mutex_depth x' k c = 0 \<and>
    owner own (unlock_n M c k m x') k = Some c \<and>
    \<not> fst (mutex_try_lock M (other c) k (unlock_n M c k m x'))"
proof -
  have k: "\<not> HSEM_COUNT \<le> k" using assms(2) by simp
  obtain x1 where x1: "lock_n M c k 255 x = (True, x1)" "s_mutex_depth x1 k c = - 1"
      "owner own x1 = (owner own x)(k := Some c)"
    using lock_n_held [OF assms, of 255] by auto
  let ?x = "set_depth k c 0 x1"
  have "mutex_try_lock_rec M c k x1 = (True, ?x)"
    using k x1 by (simp add: mutex_try_lock_rec_def)
  then have l: "lock_n M c k (Suc 255) x = (True, ?x)" using x1(1) by (simp only: lock_n.simps) simp
  have u: "unlock_n M c k m ?x = ?x"
    by (induction m) (simp_all add: mutex_unlock_rec_def)
  obtain ok y where t: "mutex_try_lock M (other c) k ?x = (ok, y)"
    by (cases "mutex_try_lock M (other c) k ?x")
  have "owner own ?x k = Some c" using x1(3) by simp
  moreover have "\<not> ok" using try_lock_works [OF assms(1) t] calculation by auto
  ultimately show ?thesis using l u t by auto
qed

theorem rec_mutex_depth_wraps_witness:
  "\<exists>x'. lock_n hsem_machine V5F 4 256 idle_xc = (True, x') \<and> s_mutex_depth x' 4 V5F = 0 \<and>
    owner (\<lambda>d. d) (unlock_n hsem_machine V5F 4 300 x') 4 = Some V5F"
  using rec_mutex_depth_wraps [OF hsem_machine_works, of 4 idle_xc V5F 300]
  by (auto simp: HSEM_COUNT_def idle_xc_def simp del: lock_n.simps unlock_n.simps)

end
