(* ===== verification/Console.thy ===== *)
theory Console
  imports Locks Itoa
begin

text \<open>
  \<open>cores/ch32h4/ch32h4_console.c\<close>: the early console on USART1.  Its lock is a recursive
  per-core count over hardware semaphore 0 whose wait is bounded; its output is the
  sequence of characters handed to \<open>USART_SendData\<close>.  A wait for the transmitter that
  never ends is \<open>None\<close>.
\<close>

section \<open>State and lock\<close>

definition HSEM_CONSOLE :: u8 where "HSEM_CONSOLE = 0"

record 'd con =
  lk :: "'d xc"
  s_lock_depth :: "core \<Rightarrow> u32"

definition on_hw :: "('d \<Rightarrow> 'd) \<Rightarrow> 'd con \<Rightarrow> 'd con" where
  "on_hw f s = s\<lparr>lk := (lk s)\<lparr>hw := f (hw (lk s))\<rparr>\<rparr>"

definition console_init :: "'d machine \<Rightarrow> u32 \<Rightarrow> 'd con \<Rightarrow> 'd con" where
  "console_init M baud s =
     on_hw (do_all
       [m_call M (Call ''RCC_HB2PeriphClockCmd''
          [Sym ''RCC_HB2Periph_GPIOA | RCC_HB2Periph_USART1 | RCC_HB2Periph_AFIO'', Sym ''ENABLE'']),
        m_touch M (REG ''RCC.HB2PCENR''),
        m_call M (Call ''GPIO_PinAFConfig'' [Sym ''GPIOA'', Sym ''GPIO_PinSource9'', Sym ''GPIO_AF7'']),
        m_call M (Call ''GPIO_PinAFConfig'' [Sym ''GPIOA'', Sym ''GPIO_PinSource10'', Sym ''GPIO_AF7'']),
        m_call M (Call ''GPIO_Init''
          [Sym ''GPIOA'', Sym ''GPIO_Pin_9'', Sym ''GPIO_Mode_AF_PP'', Sym ''GPIO_Speed_High'']),
        m_call M (Call ''GPIO_Init''
          [Sym ''GPIOA'', Sym ''GPIO_Pin_10'', Sym ''GPIO_Mode_AF_PP'', Sym ''GPIO_Speed_High'']),
        m_call M (Call ''USART_Init'' [Sym ''USART1'', Num baud, Sym ''USART_WordLength_8b'',
          Sym ''USART_StopBits_1'', Sym ''USART_Parity_No'', Sym ''USART_HardwareFlowControl_None'',
          Sym ''USART_Mode_Tx | USART_Mode_Rx'']),
        m_call M (Call ''USART_Cmd'' [Sym ''USART1'', Sym ''ENABLE''])])
       (s\<lparr>s_lock_depth := (\<lambda>_. 0)\<rparr>)"

definition console_lock ::
  "(core \<Rightarrow> 'd machine) \<Rightarrow> ('d xc \<Rightarrow> 'd xc) \<Rightarrow> core \<Rightarrow> 'd con \<Rightarrow> 'd con" where
  "console_lock M env c s =
     (let s1 = s\<lparr>s_lock_depth := (s_lock_depth s)(c := s_lock_depth s c + 1)\<rparr>
      in if s_lock_depth s c \<noteq> 0 then s1
         else s1\<lparr>lk := snd (guarded (mutex_attempt M env c HSEM_CONSOLE) 100000000 (lk s1))\<rparr>)"

definition console_unlock :: "(core \<Rightarrow> 'd machine) \<Rightarrow> core \<Rightarrow> 'd con \<Rightarrow> 'd con" where
  "console_unlock M c s =
     (if s_lock_depth s c = 0 then s
      else let n = s_lock_depth s c - 1; s1 = s\<lparr>s_lock_depth := (s_lock_depth s)(c := n)\<rparr>
           in if n = 0 then s1\<lparr>lk := mutex_unlock M c HSEM_CONSOLE (lk s1)\<rparr> else s1)"

section \<open>Output\<close>

definition usart_flag :: "'d machine \<Rightarrow> string \<Rightarrow> 'd \<Rightarrow> bool \<times> 'd" where
  "usart_flag M flag d =
     (case m_ask M (Call ''USART_GetFlagStatus'' [Sym ''USART1'', Sym flag]) d of (v, d') \<Rightarrow> (v \<noteq> 0, d'))"

definition usart_send :: "'d machine \<Rightarrow> char \<Rightarrow> 'd \<Rightarrow> 'd" where
  "usart_send M ch = m_call M (Call ''USART_SendData'' [Sym ''USART1'', Num (word_of_nat (of_char ch))])"

definition console_putc :: "(core \<Rightarrow> 'd machine) \<Rightarrow> core \<Rightarrow> char \<Rightarrow> 'd con \<Rightarrow> 'd con option" where
  "console_putc M c ch s =
     (case spin (usart_flag (M c) ''USART_FLAG_TXE'') (hw (lk s)) of
        None \<Rightarrow> None
      | Some d \<Rightarrow> Some (on_hw (\<lambda>_. usart_send (M c) ch d) s))"

fun putc_all :: "(core \<Rightarrow> 'd machine) \<Rightarrow> core \<Rightarrow> string \<Rightarrow> 'd con \<Rightarrow> 'd con option" where
  "putc_all M c [] s = Some s"
| "putc_all M c (ch # chs) s = do { s \<leftarrow> console_putc M c ch s; putc_all M c chs s }"

text \<open>The loop of \<open>ch32h4_console_puts\<close>.\<close>

fun puts_loop :: "(core \<Rightarrow> 'd machine) \<Rightarrow> core \<Rightarrow> string \<Rightarrow> 'd con \<Rightarrow> 'd con option" where
  "puts_loop M c [] s = Some s"
| "puts_loop M c (ch # chs) s =
     do { s \<leftarrow> (if ch = CHR 0x0A then console_putc M c (CHR 0x0D) s else Some s);
          s \<leftarrow> console_putc M c ch s;
          puts_loop M c chs s }"

definition console_puts ::
  "(core \<Rightarrow> 'd machine) \<Rightarrow> ('d xc \<Rightarrow> 'd xc) \<Rightarrow> core \<Rightarrow> string \<Rightarrow> 'd con \<Rightarrow> 'd con option" where
  "console_puts M env c str s =
     do { s \<leftarrow> puts_loop M c str (console_lock M env c s);
          Some (console_unlock M c s) }"

definition console_flush :: "(core \<Rightarrow> 'd machine) \<Rightarrow> core \<Rightarrow> 'd con \<Rightarrow> 'd con" where
  "console_flush M c s =
     on_hw (\<lambda>d. snd (guarded (usart_flag (M c) ''USART_FLAG_TC'') 2000000 d)) s"

text \<open>The digits \<open>ch32h4_console_putu\<close> leaves in \<open>buf\<close>, least significant first.\<close>

function putu_buf :: "u32 \<Rightarrow> string" where
  "putu_buf v = (if v = 0 then [] else char_of (48 + unat (v mod 10)) # putu_buf (v div 10))"
  by auto
termination
  by (relation "measure unat") (auto simp: unat_div unat_gt_0 div_less_dividend)

declare putu_buf.simps [simp del]

definition console_putu ::
  "(core \<Rightarrow> 'd machine) \<Rightarrow> ('d xc \<Rightarrow> 'd xc) \<Rightarrow> core \<Rightarrow> u32 \<Rightarrow> 'd con \<Rightarrow> 'd con option" where
  "console_putu M env c v s =
     (let s1 = console_lock M env c s
      in if v = 0 then do { s \<leftarrow> console_putc M c (CHR ''0'') s1; Some (console_unlock M c s) }
         else do { s \<leftarrow> putc_all M c (rev (putu_buf v)) s1; Some (console_unlock M c s) })"

definition hex_digit :: "u32 \<Rightarrow> char" where
  "hex_digit n = ''0123456789abcdef'' ! unat n"

definition hex_digits :: "u32 \<Rightarrow> string" where
  "hex_digits v = map (\<lambda>i. hex_digit (drop_bit i v AND 0xF)) [28, 24, 20, 16, 12, 8, 4, 0]"

definition console_puthex ::
  "(core \<Rightarrow> 'd machine) \<Rightarrow> ('d xc \<Rightarrow> 'd xc) \<Rightarrow> core \<Rightarrow> u32 \<Rightarrow> 'd con \<Rightarrow> 'd con option" where
  "console_puthex M env c v s =
     do { s \<leftarrow> console_puts M env c ''0x'' (console_lock M env c s);
          s \<leftarrow> putc_all M c (hex_digits v) s;
          Some (console_unlock M c s) }"

section \<open>What the transmitter does\<close>

text \<open>
  \<open>out d\<close> is what has been handed to the transmitter.  \<open>USART_SendData\<close> appends to it and
  nothing else the console does changes it; the transmitter always becomes ready again.
\<close>

definition uart_ok :: "(core \<Rightarrow> 'd machine) \<Rightarrow> ('d xc \<Rightarrow> 'd xc) \<Rightarrow> core \<Rightarrow> ('d \<Rightarrow> string) \<Rightarrow> bool" where
  "uart_ok M env c out \<longleftrightarrow>
     (\<forall>d. \<exists>n. fst (usart_flag (M c) ''USART_FLAG_TXE''
                (((\<lambda>d. snd (usart_flag (M c) ''USART_FLAG_TXE'' d)) ^^ n) d))) \<and>
     (\<forall>d f. out (snd (usart_flag (M c) f d)) = out d) \<and>
     (\<forall>d ch. out (usart_send (M c) ch d) = out d @ [ch]) \<and>
     (\<forall>d. out (snd (m_rd (M c) (HSEM_RLRX HSEM_CONSOLE) d)) = out d) \<and>
     (\<forall>d. out (m_call (M c) (Call ''HSEM_ReleaseOneSem'' [Num 0, Num 0]) d) = out d) \<and>
     (\<forall>x. out (hw (env x)) = out (hw x))"

lemma uart_okD:
  assumes "uart_ok M env c out"
  shows "\<exists>n. fst (usart_flag (M c) ''USART_FLAG_TXE'' (((\<lambda>d. snd (usart_flag (M c) ''USART_FLAG_TXE'' d)) ^^ n) d))"
    "out (snd (usart_flag (M c) f d)) = out d"
    "out (usart_send (M c) ch d) = out d @ [ch]"
    "out (snd (m_rd (M c) (HSEM_RLRX HSEM_CONSOLE) d)) = out d"
    "out (m_call (M c) (Call ''HSEM_ReleaseOneSem'' [Num 0, Num 0]) d) = out d"
    "out (hw (env x)) = out (hw x)"
  using assms unfolding uart_ok_def by blast+

text \<open>\<open>prints out str s s'\<close>: from \<open>s\<close> to \<open>s'\<close> exactly \<open>str\<close> was sent, and the lock is as it was.\<close>

definition prints :: "('d \<Rightarrow> string) \<Rightarrow> string \<Rightarrow> 'd con \<Rightarrow> 'd con \<Rightarrow> bool" where
  "prints out str s s' \<longleftrightarrow>
     out (hw (lk s')) = out (hw (lk s)) @ str \<and> s_lock_depth s' = s_lock_depth s"

lemma prints_Nil: "prints out [] s s"
  by (simp add: prints_def)

lemma prints_trans: "prints out a s s1 \<Longrightarrow> prints out b s1 s2 \<Longrightarrow> prints out (a @ b) s s2"
  by (simp add: prints_def)

lemma putc_prints:
  assumes "uart_ok M env c out"
  shows "\<exists>s'. console_putc M c ch s = Some s' \<and> prints out [ch] s s'"
proof -
  obtain n where n: "fst (usart_flag (M c) ''USART_FLAG_TXE''
      (((\<lambda>d. snd (usart_flag (M c) ''USART_FLAG_TXE'' d)) ^^ n) (hw (lk s))))"
    using uart_okD(1) [OF assms] by blast
  obtain d where d: "spin (usart_flag (M c) ''USART_FLAG_TXE'') (hw (lk s)) = Some d"
    using spin_returns [of "usart_flag (M c) ''USART_FLAG_TXE''" n "hw (lk s)"] n by blast
  have "out d = out (hw (lk s))"
    using spin_inv [OF d, of "\<lambda>d'. out d' = out (hw (lk s))"] uart_okD(2) [OF assms] by simp
  then show ?thesis
    using d uart_okD(3) [OF assms] by (simp add: console_putc_def on_hw_def prints_def)
qed

lemma putc_all_prints:
  assumes "uart_ok M env c out"
  shows "\<exists>s'. putc_all M c str s = Some s' \<and> prints out str s s'"
proof (induction str arbitrary: s)
  case Nil
  then show ?case by (simp add: prints_Nil)
next
  case (Cons ch str)
  obtain s1 where s1: "console_putc M c ch s = Some s1" "prints out [ch] s s1"
    using putc_prints [OF assms] by blast
  obtain s2 where "putc_all M c str s1 = Some s2" "prints out str s1 s2" using Cons.IH by blast
  then show ?case using s1 prints_trans [of out "[ch]" s s1 str s2] by simp
qed

fun crlf :: "string \<Rightarrow> string" where
  "crlf [] = []"
| "crlf (ch # chs) = (if ch = CHR 0x0A then [CHR 0x0D, ch] else [ch]) @ crlf chs"

lemma puts_loop_eq: "puts_loop M c str s = putc_all M c (crlf str) s"
  by (induction str arbitrary: s) (auto split: Option.bind_splits)

section \<open>The lock around the output\<close>

lemma attempt_out:
  assumes "uart_ok M env c out"
  shows "out (hw (snd (mutex_attempt M env c HSEM_CONSOLE x))) = out (hw x)"
proof -
  obtain v d where r: "m_rd (M c) (HSEM_RLRX HSEM_CONSOLE) (hw x) = (v, d)"
    by (cases "m_rd (M c) (HSEM_RLRX HSEM_CONSOLE) (hw x)")
  have "out d = out (hw x)" using uart_okD(4) [OF assms, of "hw x"] r by simp
  then show ?thesis using r uart_okD(6) [OF assms]
    by (simp add: mutex_attempt_def mutex_try_lock_def HSEM_CONSOLE_def HSEM_COUNT_def split: prod.splits)
qed

lemma lock_prints:
  assumes "uart_ok M env c out"
  shows "out (hw (lk (console_lock M env c s))) = out (hw (lk s))"
    "s_lock_depth (console_lock M env c s) = (s_lock_depth s)(c := s_lock_depth s c + 1)"
  using guarded_inv [of "\<lambda>x. out (hw x) = out (hw (lk s))" "mutex_attempt M env c HSEM_CONSOLE" "lk s" 100000000]
    attempt_out [OF assms]
  by (simp_all add: console_lock_def Let_def)

lemma unlock_prints:
  assumes "uart_ok M env c out" "s_lock_depth s c \<noteq> 0"
  shows "out (hw (lk (console_unlock M c s))) = out (hw (lk s))"
    "s_lock_depth (console_unlock M c s) = (s_lock_depth s)(c := s_lock_depth s c - 1)"
  using assms(2) uart_okD(5) [OF assms(1)]
  by (simp_all add: console_unlock_def Let_def mutex_unlock_def HSEM_CONSOLE_def)

text \<open>A call that locks, prints and unlocks prints what its body prints.\<close>

lemma locked_prints:
  assumes u: "uart_ok M env c out" and d: "s_lock_depth s c \<noteq> - 1"
    and b: "\<And>s1. s_lock_depth s1 c = s_lock_depth s c + 1 \<Longrightarrow> \<exists>s'. body s1 = Some s' \<and> prints out str s1 s'"
  shows "\<exists>s'. (do { s \<leftarrow> body (console_lock M env c s); Some (console_unlock M c s) }) = Some s' \<and>
    prints out str s s'"
proof -
  let ?s1 = "console_lock M env c s"
  note l = lock_prints [OF u, of s]
  have nz: "s_lock_depth s c + 1 \<noteq> 0" using d by (metis add_diff_cancel_right' diff_0)
  obtain s2 where s2: "body ?s1 = Some s2" "prints out str ?s1 s2" using b [of ?s1] l by auto
  have "s_lock_depth s2 c \<noteq> 0" using s2(2) l nz by (simp add: prints_def)
  note v = unlock_prints [OF u this]
  have "prints out str s (console_unlock M c s2)"
    using s2(2) l v by (simp add: prints_def)
  then show ?thesis using s2(1) by simp
qed

lemma puts_prints:
  assumes "uart_ok M env c out" "s_lock_depth s c \<noteq> - 1"
  shows "\<exists>s'. console_puts M env c str s = Some s' \<and> prints out (crlf str) s s'"
  unfolding console_puts_def
  by (rule locked_prints [OF assms]) (simp add: puts_loop_eq putc_all_prints [OF assms(1)])

section \<open>Numbers\<close>

lemma digit_val_0_9: "unat (d :: u32) < 10 \<Longrightarrow> char_of (48 + unat d) = digit_char d"
  by (simp add: digit_char_def word_less_nat_alt)

lemma putu_buf_reads:
  "read_nat 10 (rev (putu_buf v)) = unat v"
proof (induction v rule: putu_buf.induct)
  case (1 v)
  have m: "unat (v mod 10) < 10" by (simp add: unat_mod)
  show ?case
  proof (cases "v = 0")
    case True
    then show ?thesis by (subst putu_buf.simps) (simp add: read_nat_def)
  next
    case False
    have "read_nat 10 (rev (putu_buf v)) = read_nat 10 (rev (putu_buf (v div 10))) * 10 + unat (v mod 10)"
      using False m by (subst putu_buf.simps) (simp add: read_nat_def digit_val_0_9 digit_val_char)
    then show ?thesis using 1 False by (simp add: unat_mod unat_div)
  qed
qed

lemma putu_buf_length:
  "unat v < 10 ^ n \<Longrightarrow> length (putu_buf v) \<le> n"
proof (induction v arbitrary: n rule: putu_buf.induct)
  case (1 v)
  show ?case
  proof (cases "v = 0")
    case True
    then show ?thesis by (subst putu_buf.simps) simp
  next
    case False
    then have "0 < n" using 1(2) by (cases n) (auto simp: unat_eq_zero)
    then obtain m where m: "n = Suc m" by (cases n) auto
    then have "unat (v div 10) < 10 ^ m" using 1(2) by (simp add: unat_div less_mult_imp_div_less)
    then show ?thesis using 1(1) [OF False, of m] False m by (subst putu_buf.simps) simp
  qed
qed

lemma hex_digit_val:
  assumes "unat n < 16"
  shows "digit_val (hex_digit n) = unat n"
proof -
  have "unat n \<in> {0..<16}" using assms by simp
  then have "unat n \<in> {0,1,2,3,4,5,6,7,8,9,10,11,12,13,14,15}" by (simp add: atLeastLessThan_nat_numeral) auto
  then show ?thesis by (auto simp: hex_digit_def digit_val_def)
qed

lemma nibble: "unat (drop_bit i v AND 0xF :: u32) = unat v div 2 ^ i mod 16"
proof -
  have "drop_bit i v AND 0xF = take_bit 4 (drop_bit i v)"
    using take_bit_eq_mask [of 4 "drop_bit i v"] by (simp add: mask_eq_exp_minus_1)
  also have "unat \<dots> = take_bit 4 (unat (drop_bit i v))"
    by (rule unsigned_take_bit_eq)
  also have "unat (drop_bit i v) = unat v div 2 ^ i"
    by (simp only: unat_drop_bit_eq) (simp only: drop_bit_eq_div)
  finally show ?thesis by (simp add: take_bit_eq_mod)
qed

lemma nibbles_read:
  "read_nat 16 (map (\<lambda>i. hex_digit (drop_bit (4 * i) v AND 0xF)) (rev [0..<n])) = unat v mod 16 ^ n"
proof (induction n)
  case 0
  then show ?case by (simp add: read_nat_def)
next
  case (Suc n)
  have "(2 :: nat) ^ (4 * n) = 16 ^ n" by (simp add: power_mult)
  then have "digit_val (hex_digit (drop_bit (4 * n) v AND 0xF)) = unat v div 16 ^ n mod 16"
    by (simp add: hex_digit_val nibble)
  moreover have "unat v mod 16 ^ Suc n = 16 ^ n * (unat v div 16 ^ n mod 16) + unat v mod 16 ^ n"
    using mod_mult2_eq [of "unat v" "16 ^ n" 16] by (simp add: mult.commute)
  ultimately show ?case using Suc.IH by (simp add: read_nat_Cons)
qed

lemma hex_digits_read: "read_nat 16 (hex_digits v) = unat v"
proof -
  have "hex_digits v = map (\<lambda>i. hex_digit (drop_bit (4 * i) v AND 0xF)) (rev [0..<8])"
    by (simp add: hex_digits_def upt_rec)
  then show ?thesis using nibbles_read [of v 8] by simp
qed

section \<open>Properties\<close>

text \<open>
  C23.  Printing a string returns, sends its characters in order with a carriage return in
  front of every line feed and nothing else, and leaves the lock as deep as it found it,
  even when the wait for the semaphore gave up.
\<close>

theorem console_puts_sends:
  assumes "uart_ok M env c out" "s_lock_depth s c \<noteq> - 1"
  shows "\<exists>s'. console_puts M env c str s = Some s' \<and>
    out (hw (lk s')) = out (hw (lk s)) @ crlf str \<and> s_lock_depth s' = s_lock_depth s"
  using puts_prints [OF assms, of str] by (simp add: prints_def)

text \<open>A machine whose transmitter is ready at every second look; its state is what was sent.\<close>

definition uart_machine :: "(bool \<times> string) machine" where
  "uart_machine =
     \<lparr>m_rd = (\<lambda>r d. (0x80000000, d)), m_wr = (\<lambda>r v d. d), m_millis = (\<lambda>d. (0, d)),
      m_call = (\<lambda>f d. case f of Call n as \<Rightarrow>
         (case as of [Sym u, Num v] \<Rightarrow>
            if n = ''USART_SendData'' then (fst d, snd d @ [char_of (unat v)]) else d
          | _ \<Rightarrow> d)),
      m_ask = (\<lambda>f d. (if fst d then 1 else 0, (\<not> fst d, snd d)))\<rparr>"

lemma uart_machine_ok: "uart_ok (\<lambda>_. uart_machine) (\<lambda>x. x) c snd"
proof -
  let ?c = "usart_flag uart_machine ''USART_FLAG_TXE''"
  have "fst (?c (((\<lambda>d. snd (?c d)) ^^ (if fst d then 0 else 1)) d))" for d
    by (simp add: usart_flag_def uart_machine_def)
  then have "\<exists>n. fst (?c (((\<lambda>d. snd (?c d)) ^^ n) d))" for d by blast
  moreover have "unat (word_of_nat (of_char ch) :: u32) = of_char ch" for ch
  proof -
    have "of_char ch < (2 :: nat) ^ 32" by (rule order.strict_trans [OF nat_of_char_less_256]) simp
    then show ?thesis unfolding unsigned_of_nat of_nat_id by (simp add: take_bit_nat_eq_self)
  qed
  ultimately show ?thesis
    by (simp add: uart_ok_def uart_machine_def usart_flag_def usart_send_def)
qed

definition quiet :: "(bool \<times> string) con" where
  "quiet = \<lparr>lk = \<lparr>s_mutex_depth = (\<lambda>_ _. 0), hsem_ready = True, hw = (False, [])\<rparr>, s_lock_depth = (\<lambda>_. 0)\<rparr>"

theorem console_puts_sends_witness:
  "\<exists>s'. console_puts (\<lambda>_. uart_machine) (\<lambda>x. x) V3F ''ok'' quiet = Some s' \<and>
    snd (hw (lk s')) = ''ok'' \<and> s_lock_depth s' V3F = 0"
proof -
  have q: "snd (hw (lk quiet)) = []" "s_lock_depth quiet = (\<lambda>_. 0)" by (simp_all add: quiet_def)
  show ?thesis
    using console_puts_sends [OF uart_machine_ok, of quiet V3F "''ok''"] q by auto
qed

lemma putu_prints:
  assumes "uart_ok M env c out" "s_lock_depth s c \<noteq> - 1"
  shows "\<exists>s'. console_putu M env c v s = Some s' \<and>
    prints out (if v = 0 then ''0'' else rev (putu_buf v)) s s'"
proof (cases "v = 0")
  case True
  then show ?thesis
    using locked_prints [OF assms, of "console_putc M c (CHR ''0'')" "''0''"] putc_prints [OF assms(1)]
    by (simp add: console_putu_def)
next
  case False
  then show ?thesis
    using locked_prints [OF assms, of "putc_all M c (rev (putu_buf v))" "rev (putu_buf v)"]
      putc_all_prints [OF assms(1)]
    by (simp add: console_putu_def)
qed

lemma puthex_prints:
  assumes "uart_ok M env c out" "s_lock_depth s c \<noteq> - 1" "s_lock_depth s c \<noteq> - 2"
  shows "\<exists>s'. console_puthex M env c v s = Some s' \<and> prints out (''0x'' @ hex_digits v) s s'"
proof -
  let ?body = "\<lambda>s. do { s \<leftarrow> console_puts M env c ''0x'' s; putc_all M c (hex_digits v) s }"
  have x: "crlf ''0x'' = ''0x''" by simp
  have "\<exists>s'. ?body s1 = Some s' \<and> prints out (''0x'' @ hex_digits v) s1 s'"
    if "s_lock_depth s1 c = s_lock_depth s c + 1" for s1
  proof -
    have "s_lock_depth s1 c \<noteq> - 1"
    proof
      assume "s_lock_depth s1 c = - 1"
      then have "s_lock_depth s c = - 1 - 1" using that by (simp only: eq_diff_eq)
      then show False using assms(3) by simp
    qed
    then obtain s2 where "console_puts M env c ''0x'' s1 = Some s2" "prints out ''0x'' s1 s2"
      using puts_prints [OF assms(1), of s1 "''0x''"] x by auto
    moreover obtain s3 where "putc_all M c (hex_digits v) s2 = Some s3" "prints out (hex_digits v) s2 s3"
      using putc_all_prints [OF assms(1)] by blast
    ultimately show ?thesis using prints_trans [of out "''0x''" s1 s2] by simp
  qed
  from locked_prints [OF assms(1,2), of ?body, OF this] show ?thesis
    by (simp add: console_puthex_def)
qed

text \<open>
  C24.  Printing a number returns, leaves the lock as it found it and sends digits that read
  back as the number: in decimal one to ten of them, so the eleven-byte buffer never
  overflows; in hexadecimal \<open>0x\<close> and exactly eight.
\<close>

theorem console_numbers_send:
  assumes "uart_ok M env c out" "s_lock_depth s c < 0xFFFFFFFE"
  shows "(\<exists>s' ds. console_putu M env c v s = Some s' \<and> s_lock_depth s' = s_lock_depth s \<and>
      out (hw (lk s')) = out (hw (lk s)) @ ds \<and> read_nat 10 ds = unat v \<and> 1 \<le> length ds \<and> length ds \<le> 10) \<and>
    (\<exists>s' ds. console_puthex M env c v s = Some s' \<and> s_lock_depth s' = s_lock_depth s \<and>
      out (hw (lk s')) = out (hw (lk s)) @ ''0x'' @ ds \<and> read_nat 16 ds = unat v \<and> length ds = 8)"
proof
  have d: "s_lock_depth s c \<noteq> - 1" "s_lock_depth s c \<noteq> - 2" using assms(2) by auto
  let ?ds = "if v = 0 then ''0'' else rev (putu_buf v)"
  have "read_nat 10 ?ds = unat v" using putu_buf_reads [of v] by (simp add: read_nat_def digit_val_def)
  moreover have "length ?ds \<le> 10"
    using putu_buf_length [of v 10] unat_lt_2p32 [of v] by (simp del: unat_lt_2p32)
  moreover have "1 \<le> length ?ds" by (simp add: putu_buf.simps [of v] Suc_le_eq)
  ultimately show "\<exists>s' ds. console_putu M env c v s = Some s' \<and> s_lock_depth s' = s_lock_depth s \<and>
      out (hw (lk s')) = out (hw (lk s)) @ ds \<and> read_nat 10 ds = unat v \<and> 1 \<le> length ds \<and> length ds \<le> 10"
    using putu_prints [OF assms(1) d(1), of v] unfolding prints_def by blast
  show "\<exists>s' ds. console_puthex M env c v s = Some s' \<and> s_lock_depth s' = s_lock_depth s \<and>
      out (hw (lk s')) = out (hw (lk s)) @ ''0x'' @ ds \<and> read_nat 16 ds = unat v \<and> length ds = 8"
    using puthex_prints [OF assms(1) d, of v] hex_digits_read [of v] unfolding prints_def
    by (fastforce simp: hex_digits_def)
qed

theorem console_numbers_send_witness:
  "\<exists>s' ds. console_putu (\<lambda>_. uart_machine) (\<lambda>x. x) V3F 4294967295 quiet = Some s' \<and>
    snd (hw (lk s')) = ds \<and> read_nat 10 ds = 4294967295 \<and> length ds \<le> 10"
proof -
  have q: "snd (hw (lk quiet)) = []" "s_lock_depth quiet V3F < 0xFFFFFFFE" by (simp_all add: quiet_def)
  show ?thesis
    using console_numbers_send [OF uart_machine_ok q(2), of 4294967295] q(1) by auto
qed

end
