(* ===== verification/Park.thy ===== *)
theory Park
  imports Machine
begin

text \<open>
  \<open>cores/ch32h4/ch32h4_park.c\<close>: parking the other core in a loop outside flash while this
  core programs the flash.  First the functions, over this core's \<open>machine\<close> (the request,
  acknowledge and live words are registers of it); then the protocol between the
  requesting and the parked core as a step relation over their shared words.
\<close>

section \<open>The functions\<close>

definition park_ch :: "core \<Rightarrow> nat" where
  "park_ch c = (if core_num c = 0 then 2 else 3)"

definition park_mask :: "nat \<Rightarrow> u32" where
  "park_mask ch = push_bit (ch * 8) 1"

text \<open>\<open>csrrci\<close> and \<open>csrsi\<close> on bit 3 of \<open>mstatus\<close>.\<close>

definition irq_mask :: "'d machine \<Rightarrow> 'd \<Rightarrow> u32 \<times> 'd" where
  "irq_mask M d = (case m_rd M MSTATUS d of (prev, d') \<Rightarrow> (prev, m_wr M MSTATUS (prev AND NOT 8) d'))"

definition irq_restore :: "'d machine \<Rightarrow> u32 \<Rightarrow> 'd \<Rightarrow> 'd" where
  "irq_restore M prev d = (if prev AND 8 \<noteq> 0 then m_or M MSTATUS 8 d else d)"

definition req_clear :: "'d machine \<Rightarrow> core \<Rightarrow> 'd \<Rightarrow> bool \<times> 'd" where
  "req_clear M self d = (case m_rd M (PARK_REQ self) d of (v, d') \<Rightarrow> (v = 0, d'))"

definition park_spin :: "'d machine \<Rightarrow> core \<Rightarrow> nat \<Rightarrow> 'd \<Rightarrow> 'd option" where
  "park_spin M self ch d =
     (case irq_mask M d of (prev, d) \<Rightarrow>
        do { d \<leftarrow> spin (req_clear M self) (m_wr M (PARK_ACK self) 1 d);
             Some (irq_restore M prev (m_wr M IPC_CLR (park_mask ch) (m_wr M (PARK_ACK self) 0 d))) })"

definition IPC_CH2_Handler :: "'d machine \<Rightarrow> 'd \<Rightarrow> 'd option" where
  "IPC_CH2_Handler M d = park_spin M V3F 2 d"

definition IPC_CH3_Handler :: "'d machine \<Rightarrow> 'd \<Rightarrow> 'd option" where
  "IPC_CH3_Handler M d = park_spin M V5F 3 d"

definition park_live_here :: "'d machine \<Rightarrow> core \<Rightarrow> 'd \<Rightarrow> 'd" where
  "park_live_here M self d =
     (let ch = park_ch self
      in do_all
        [m_wr M (PARK_REQ self) 0,
         m_wr M (PARK_ACK self) 0,
         m_or M IPC_CTLR (push_bit (ch * 8 + 5) 1),
         m_or M IPC_ENA (park_mask ch),
         m_wr M IPC_CLR (park_mask ch),
         m_call M (Call ''NVIC_EnableIRQ'' [Sym (if core_num self = 0 then ''IPC_CH2_IRQn'' else ''IPC_CH3_IRQn'')]),
         m_wr M (PARK_LIVE self) 1] d)"

definition park_check :: "'d machine \<Rightarrow> core \<Rightarrow> 'd \<Rightarrow> 'd option" where
  "park_check M self d =
     (case m_rd M (PARK_REQ self) d of (r, d) \<Rightarrow>
        if r = 0 then Some d
        else (case m_rd M (PARK_ACK self) d of (a, d) \<Rightarrow>
                if a \<noteq> 0 then Some d else park_spin M self (park_ch self) d))"

definition ack_seen :: "'d machine \<Rightarrow> core \<Rightarrow> 'd \<Rightarrow> unit option \<times> 'd" where
  "ack_seen M c d = (case m_rd M (PARK_ACK c) d of (v, d') \<Rightarrow> (if v \<noteq> 0 then Some () else None, d'))"

definition park_other :: "'d machine \<Rightarrow> core \<Rightarrow> u32 \<Rightarrow> 'd \<Rightarrow> (bool \<times> 'd) option" where
  "park_other M self timeout_ms d =
     (case m_rd M (PARK_LIVE (other self)) d of (live, d) \<Rightarrow>
        if live = 0 then Some (True, d)
        else
          (case m_millis M (m_wr M IPC_SET (park_mask (park_ch (other self)))
                 (m_wr M (PARK_REQ (other self)) 1 (m_wr M (PARK_ACK (other self)) 0 d))) of
             (start, d) \<Rightarrow>
               do { (r, d) \<leftarrow> poll (ack_seen M (other self)) (m_millis M) (\<lambda>t. t - start > timeout_ms) d;
                    (case r of Some _ \<Rightarrow> Some (True, d)
                     | None \<Rightarrow> Some (False, m_wr M (PARK_REQ (other self)) 0 d)) }))"

definition unpark_other :: "'d machine \<Rightarrow> core \<Rightarrow> 'd \<Rightarrow> 'd" where
  "unpark_other M self d = m_wr M (PARK_REQ (other self)) 0 d"

section \<open>The request comes back\<close>

text \<open>
  What the request needs of the hardware: the tick runs and no register access turns it
  back, and the request word is plain storage that only this core writes.
\<close>

definition park_hw :: "('d \<Rightarrow> nat) \<Rightarrow> ('d \<Rightarrow> nat) \<Rightarrow> 'd machine \<Rightarrow> core \<Rightarrow> bool" where
  "park_hw T R M self \<longleftrightarrow>
     ticking T R (ack_seen M (other self)) (m_millis M) \<and>
     stable M (PARK_REQ (other self)) \<and>
     (\<forall>d. fst (m_millis M d) = word_of_nat (T d) \<and> T d \<le> T (snd (m_millis M d)) \<and>
          T (snd (m_millis M d)) < T d + 1073741824) \<and>
     (\<forall>r v d. T d \<le> T (m_wr M r v d)) \<and> (\<forall>r d. T d \<le> T (snd (m_rd M r d)))"

lemma ack_seen_req:
  "stable M (PARK_REQ c) \<Longrightarrow> val M (PARK_REQ c) (snd (ack_seen M c' d)) = val M (PARK_REQ c) d"
  by (simp add: ack_seen_def split_beta stable_simps)

text \<open>The wait for the acknowledge, started at \<open>d3\<close> with the request made, comes to an end.\<close>

lemma park_wait_ends:
  assumes hw: "park_hw T R M self" and small: "unat timeout < 2147483648"
    and d4: "m_millis M d3 = (start, d4)" and req: "val M (PARK_REQ (other self)) d3 = 1"
  obtains r d5 where "poll (ack_seen M (other self)) (m_millis M) (\<lambda>t. t - start > timeout) d4 = Some (r, d5)"
    "val M (PARK_REQ (other self)) d5 = 1" "r = None \<longrightarrow> T d3 + unat timeout < T d5"
proof -
  have tick: "ticking T R (ack_seen M (other self)) (m_millis M)"
    and st: "stable M (PARK_REQ (other self))"
    and ms: "fst (m_millis M d3) = word_of_nat (T d3) \<and> T d3 \<le> T (snd (m_millis M d3)) \<and>
        T (snd (m_millis M d3)) < T d3 + 1073741824"
    using hw by (auto simp: park_hw_def)
  have S: "start = word_of_nat (T d3)" "T d3 \<le> T d4" "T d4 < T d3 + 1073741824"
    using ms d4 by auto
  have "\<exists>r d'. poll (ack_seen M (other self)) (m_millis M) (\<lambda>t. t - start > timeout) d4 = Some (r, d') \<and>
      T d4 \<le> T d' \<and> (r = None \<longrightarrow> T d3 + unat timeout < T d')"
    using S small elapsed_exact [of "T d3" _ timeout]
    by (intro poll_returns [OF tick, of d3]) auto
  then obtain r d5 where p: "poll (ack_seen M (other self)) (m_millis M) (\<lambda>t. t - start > timeout) d4 = Some (r, d5)"
    and late: "r = None \<longrightarrow> T d3 + unat timeout < T d5" by blast
  have "val M (PARK_REQ (other self)) d4 = 1"
    using d4 stable_millis [OF st, of d3] req by simp
  then have "val M (PARK_REQ (other self)) d5 = 1"
    using poll_inv [OF p, of "\<lambda>d. val M (PARK_REQ (other self)) d = 1"] ack_seen_req [OF st]
      stable_millis [OF st] by simp
  with p late show ?thesis using that by blast
qed


text \<open>A machine whose other core never answers: the request word, and a clock of its own.\<close>

definition deaf_machine :: "(u32 \<times> nat) machine" where
  "deaf_machine =
     \<lparr>m_rd = (\<lambda>r d. (if r = PARK_REQ V3F then fst d else if r = PARK_LIVE V3F then 1 else 0, d)),
      m_wr = (\<lambda>r v d. if r = PARK_REQ V3F then (v, snd d) else d),
      m_millis = (\<lambda>d. (word_of_nat (snd d), (fst d, Suc (snd d)))),
      m_call = (\<lambda>f d. d), m_ask = (\<lambda>f d. (0, d))\<rparr>"

lemma deaf_machine_hw: "park_hw snd (\<lambda>_. 0) deaf_machine V5F"
  by (auto simp: park_hw_def ticking_def deaf_machine_def ack_seen_def stable_def val_def)


section \<open>The protocol\<close>

text \<open>
  The requester in \<open>ch32h4_park_other\<close> and \<open>ch32h4_unpark_other\<close>, and the other core, access
  by access.  \<open>R_go\<close>: the other core was seen live; \<open>R_ack0\<close>, \<open>R_req1\<close>: after the stores to
  the acknowledge and the request word; \<open>R_wait\<close>: polling; \<open>R_parked\<close>: \<open>ch32h4_park_other\<close>
  has returned true with the acknowledge seen; \<open>R_free\<close>: it has returned true because the
  other core was not live.  \<open>lv\<close> is how far the other core has come in
  \<open>ch32h4_park_live_here\<close> (its enable registers are no words of the protocol; \<open>L_on\<close>:
  the interrupt is enabled; \<open>L_live\<close>: the live word is set).  \<open>O_run\<close>: the other core runs
  outside the handler; \<open>O_masked\<close>: in \<open>park_spin\<close>, interrupts off; \<open>O_spin\<close>: acknowledged,
  testing the request word; \<open>O_left\<close>: it read zero; \<open>O_ack0\<close>: acknowledge withdrawn.  \<open>chk\<close>
  is how far a call of \<open>ch32h4_park_check\<close>, which an interrupt may preempt, has come.
\<close>

datatype rpc = R_idle | R_free | R_go | R_ack0 | R_req1 | R_wait | R_parked
datatype lpc = L_start | L_req | L_ack | L_clr | L_on | L_live
datatype opc = O_run | O_masked | O_spin | O_left | O_ack0
datatype chk = C_none | C_req | C_go

record pk =
  preq :: bool
  pack :: bool
  plive :: bool
  ppend :: bool
  rq :: rpc
  lv :: lpc
  oth :: opc
  chk :: chk

datatype plabel = Requester | Timeout | Live | Parked | Check

inductive pk_step :: "pk \<Rightarrow> plabel \<Rightarrow> pk \<Rightarrow> bool" where
  r_live: "rq s = R_idle \<Longrightarrow> plive s \<Longrightarrow> pk_step s Requester (s\<lparr>rq := R_go\<rparr>)"
| r_notlive: "rq s = R_idle \<Longrightarrow> \<not> plive s \<Longrightarrow> pk_step s Requester (s\<lparr>rq := R_free\<rparr>)"
| r_ack: "rq s = R_go \<Longrightarrow> pk_step s Requester (s\<lparr>pack := False, rq := R_ack0\<rparr>)"
| r_req: "rq s = R_ack0 \<Longrightarrow> pk_step s Requester (s\<lparr>preq := True, rq := R_req1\<rparr>)"
| r_set: "rq s = R_req1 \<Longrightarrow> pk_step s Requester (s\<lparr>ppend := True, rq := R_wait\<rparr>)"
| r_seen: "rq s = R_wait \<Longrightarrow> pack s \<Longrightarrow> pk_step s Requester (s\<lparr>rq := R_parked\<rparr>)"
| r_timeout: "rq s = R_wait \<Longrightarrow> \<not> pack s \<Longrightarrow> pk_step s Timeout (s\<lparr>preq := False, rq := R_idle\<rparr>)"
| r_unpark: "rq s = R_parked \<or> rq s = R_free \<Longrightarrow> pk_step s Requester (s\<lparr>preq := False, rq := R_idle\<rparr>)"
| l_req: "lv s = L_start \<Longrightarrow> oth s = O_run \<Longrightarrow> pk_step s Live (s\<lparr>preq := False, lv := L_req\<rparr>)"
| l_ack: "lv s = L_req \<Longrightarrow> oth s = O_run \<Longrightarrow> pk_step s Live (s\<lparr>pack := False, lv := L_ack\<rparr>)"
| l_clr: "lv s = L_ack \<Longrightarrow> oth s = O_run \<Longrightarrow> pk_step s Live (s\<lparr>ppend := False, lv := L_clr\<rparr>)"
| l_on: "lv s = L_clr \<Longrightarrow> oth s = O_run \<Longrightarrow> pk_step s Live (s\<lparr>lv := L_on\<rparr>)"
| l_live: "lv s = L_on \<Longrightarrow> oth s = O_run \<Longrightarrow> pk_step s Live (s\<lparr>plive := True, lv := L_live\<rparr>)"
| o_irq: "oth s = O_run \<Longrightarrow> ppend s \<Longrightarrow> lv s = L_on \<or> lv s = L_live \<Longrightarrow> pk_step s Parked (s\<lparr>oth := O_masked\<rparr>)"
| o_ack: "oth s = O_masked \<Longrightarrow> pk_step s Parked (s\<lparr>pack := True, oth := O_spin\<rparr>)"
| o_leave: "oth s = O_spin \<Longrightarrow> \<not> preq s \<Longrightarrow> pk_step s Parked (s\<lparr>oth := O_left\<rparr>)"
| o_unack: "oth s = O_left \<Longrightarrow> pk_step s Parked (s\<lparr>pack := False, oth := O_ack0\<rparr>)"
| o_clear: "oth s = O_ack0 \<Longrightarrow> pk_step s Parked (s\<lparr>ppend := False, oth := O_run\<rparr>)"
| c_req: "oth s = O_run \<Longrightarrow> chk s = C_none \<Longrightarrow> preq s \<Longrightarrow> pk_step s Check (s\<lparr>chk := C_req\<rparr>)"
| c_ack: "oth s = O_run \<Longrightarrow> chk s = C_req \<Longrightarrow>
    pk_step s Check (s\<lparr>chk := if pack s then C_none else C_go\<rparr>)"
| c_spin: "oth s = O_run \<Longrightarrow> chk s = C_go \<Longrightarrow> pk_step s Check (s\<lparr>chk := C_none, oth := O_masked\<rparr>)"

inductive pk_run :: "pk \<Rightarrow> plabel list \<Rightarrow> pk \<Rightarrow> bool" where
  pk_start: "pk_run s [] s"
| pk_more: "pk_run s ls s1 \<Longrightarrow> pk_step s1 l s2 \<Longrightarrow> pk_run s (ls @ [l]) s2"

inductive_cases pk_run_snoc: "pk_run s (ls @ [l]) s'"

text \<open>The shared words as \<open>ch32h4_xcore_init\<close> leaves them, neither core in the protocol yet.\<close>

definition pk_init :: pk where
  "pk_init = \<lparr>preq = False, pack = False, plive = False, ppend = False,
     rq = R_idle, lv = L_start, oth = O_run, chk = C_none\<rparr>"

text \<open>
  Without a timeout and without \<open>ch32h4_park_check\<close>: nothing is asked of a core that is not
  live, the request word follows the requester, a pending interrupt that has not been taken
  belongs to the request being waited for, and an acknowledge that the requester can see is
  a core in its loop.
\<close>

definition pk_inv :: "pk \<Rightarrow> bool" where
  "pk_inv s \<longleftrightarrow>
     chk s = C_none \<and>
     (plive s \<longleftrightarrow> lv s = L_live) \<and>
     (lv s \<noteq> L_live \<longrightarrow> rq s = R_idle \<or> rq s = R_free) \<and>
     (lv s \<noteq> L_live \<or> rq s = R_free \<longrightarrow> oth s = O_run \<and> \<not> pack s \<and> \<not> ppend s) \<and>
     (preq s \<longleftrightarrow> rq s = R_req1 \<or> rq s = R_wait \<or> rq s = R_parked) \<and>
     (ppend s \<and> oth s = O_run \<longrightarrow> rq s = R_wait) \<and>
     (oth s = O_masked \<longrightarrow> rq s = R_wait) \<and>
     (pack s \<longrightarrow> (oth s = O_spin \<and> rq s \<noteq> R_ack0 \<and> rq s \<noteq> R_req1) \<or>
        (oth s = O_left \<and> (rq s = R_idle \<or> rq s = R_go))) \<and>
     (rq s = R_parked \<longrightarrow> oth s = O_spin)"

lemma pk_step_inv:
  assumes "pk_step s l s'" "pk_inv s" "l \<noteq> Timeout" "l \<noteq> Check"
  shows "pk_inv s'"
  using assms by (cases rule: pk_step.cases; cases "rq s") (auto simp: pk_inv_def)

lemma pk_run_inv:
  "pk_run s ls s' \<Longrightarrow> pk_inv s \<Longrightarrow> set ls \<subseteq> {Requester, Parked, Live} \<Longrightarrow> pk_inv s'"
  by (induction rule: pk_run.induct) (auto intro: pk_step_inv)

text \<open>The requester stands at \<open>R_free\<close> since the step in which it looked at the live word.\<close>

lemma pk_free_looked:
  assumes "pk_run s0 ls s" "rq s = R_free" "rq s0 \<noteq> R_free"
  shows "\<exists>ls1 ls2 s1. ls = ls1 @ Requester # ls2 \<and> Requester \<notin> set ls2 \<and> pk_run s0 ls1 s1 \<and>
     rq s1 = R_idle \<and> \<not> plive s1"
  using assms
proof (induction rule: pk_run.induct)
  case (pk_more s ls s1 l s2)
  show ?case
  proof (cases "l = Requester")
    case True
    then have "rq s1 = R_idle \<and> \<not> plive s1"
      using pk_more.hyps(2) pk_more.prems(1) by (auto elim!: pk_step.cases)
    with True pk_more.hyps(1) show ?thesis
      by (intro exI [of _ ls] exI [of _ "[]"] exI [of _ s1]) simp
  next
    case False
    then have "rq s1 = R_free"
      using pk_more.hyps(2) pk_more.prems(1) by (auto elim!: pk_step.cases)
    from pk_more.IH [OF this pk_more.prems(2)] obtain ls1 ls2 s1'
      where I: "ls = ls1 @ Requester # ls2" "Requester \<notin> set ls2" "pk_run s ls1 s1'"
        "rq s1' = R_idle" "\<not> plive s1'" by blast
    from I False show ?thesis
      by (intro exI [of _ ls1] exI [of _ "ls2 @ [l]"] exI [of _ s1']) simp
  qed
qed simp

text \<open>
  C3.  The restrictions first: no request of the run has timed out and the other core
  answers by interrupt alone (\<open>ch32h4_park_check\<close> is not called).  The other core takes
  itself live at any time.  When \<open>ch32h4_park_other\<close> returns true there are two cases.
  Either the acknowledge was seen (\<open>R_parked\<close>): then until \<open>ch32h4_unpark_other\<close> the other
  core is in its loop outside flash with interrupts off, and the request word stays set.
  Or nothing was parked (\<open>R_free\<close>): then the other core had not set its live word when this
  very call looked at it.
\<close>

theorem park_excludes_flash:
  assumes "pk_run pk_init ls s" "set ls \<subseteq> {Requester, Parked, Live}"
  shows "(rq s = R_parked \<longrightarrow> oth s = O_spin \<and> preq s \<and> plive s) \<and>
     (rq s = R_free \<longrightarrow> (\<exists>ls1 ls2 s1. ls = ls1 @ Requester # ls2 \<and> Requester \<notin> set ls2 \<and>
        pk_run pk_init ls1 s1 \<and> rq s1 = R_idle \<and> \<not> plive s1))"
proof -
  have "pk_inv s" by (rule pk_run_inv [OF assms(1) _ assms(2)]) (simp add: pk_inv_def pk_init_def)
  then have 1: "rq s = R_parked \<Longrightarrow> oth s = O_spin \<and> preq s \<and> plive s"
    by (cases "lv s = L_live") (simp_all add: pk_inv_def)
  have "rq pk_init \<noteq> R_free" by (simp add: pk_init_def)
  from pk_free_looked [OF assms(1) _ this] show ?thesis using 1 by (intro conjI impI) blast+
qed

text \<open>A run step by step, the next states computed.\<close>

lemma pk_next: "pk_run s ls s1 \<Longrightarrow> pk_step s1 l s2 \<Longrightarrow> ls @ [l] = ls' \<Longrightarrow> s2 = s3 \<Longrightarrow> pk_run s ls' s3"
  using pk_more by blast

text \<open>A state in which the other core is live.\<close>

abbreviation "pst r a p q ot ck \<equiv>
  \<lparr>preq = r, pack = a, plive = True, ppend = p, rq = q, lv = L_live, oth = ot, chk = ck\<rparr>"

abbreviation "bst q l \<equiv>
  \<lparr>preq = False, pack = False, plive = False, ppend = False, rq = q, lv = l, oth = O_run, chk = C_none\<rparr>"

lemma pk_other_live: "pk_run pk_init [Live, Live, Live, Live, Live] (pst False False False R_idle O_run C_none)"
proof -
  have 1: "pk_run pk_init [Live] (bst R_idle L_req)"
    by (rule pk_next [OF pk_start l_req]) (simp_all add: pk_init_def)
  have 2: "pk_run pk_init [Live, Live] (bst R_idle L_ack)" by (rule pk_next [OF 1 l_ack]) simp_all
  have 3: "pk_run pk_init [Live, Live, Live] (bst R_idle L_clr)" by (rule pk_next [OF 2 l_clr]) simp_all
  have 4: "pk_run pk_init [Live, Live, Live, Live] (bst R_idle L_on)" by (rule pk_next [OF 3 l_on]) simp_all
  show ?thesis by (rule pk_next [OF 4 l_live]) simp_all
qed

abbreviation "pk_asked \<equiv> [Live, Live, Live, Live, Live, Requester, Requester, Requester, Requester]"

lemma pk_first_request: "pk_run pk_init pk_asked (pst True False True R_wait O_run C_none)"
proof -
  have 0: "pk_run pk_init [Live, Live, Live, Live, Live, Requester] (pst False False False R_go O_run C_none)"
    by (rule pk_next [OF pk_other_live r_live]) simp_all
  have 1: "pk_run pk_init [Live, Live, Live, Live, Live, Requester, Requester] (pst False False False R_ack0 O_run C_none)"
    by (rule pk_next [OF 0 r_ack]) simp_all
  have 2: "pk_run pk_init [Live, Live, Live, Live, Live, Requester, Requester, Requester]
      (pst True False False R_req1 O_run C_none)"
    by (rule pk_next [OF 1 r_req]) simp_all
  show ?thesis by (rule pk_next [OF 2 r_set]) simp_all
qed

text \<open>A request that is acknowledged, and a request before the other core is live.\<close>

theorem park_excludes_flash_witness:
  "(\<exists>ls s. pk_run pk_init ls s \<and> rq s = R_parked \<and> oth s = O_spin \<and> preq s) \<and>
   (\<exists>ls s. pk_run pk_init ls s \<and> rq s = R_free \<and> Requester \<in> set ls)"
proof
  have 1: "pk_run pk_init (pk_asked @ [Parked]) (pst True False True R_wait O_masked C_none)"
    by (rule pk_next [OF pk_first_request o_irq]) simp_all
  have 2: "pk_run pk_init (pk_asked @ [Parked, Parked]) (pst True True True R_wait O_spin C_none)"
    by (rule pk_next [OF 1 o_ack]) simp_all
  have 3: "pk_run pk_init (pk_asked @ [Parked, Parked, Requester]) (pst True True True R_parked O_spin C_none)"
    by (rule pk_next [OF 2 r_seen]) simp_all
  then show "\<exists>ls s. pk_run pk_init ls s \<and> rq s = R_parked \<and> oth s = O_spin \<and> preq s"
    using park_excludes_flash [OF 3] by (intro exI) auto
next
  have 1: "pk_run pk_init [Live] (bst R_idle L_req)"
    by (rule pk_next [OF pk_start l_req]) (simp_all add: pk_init_def)
  have 2: "pk_run pk_init [Live, Requester] (bst R_free L_req)"
    by (rule pk_next [OF 1 r_notlive]) simp_all
  show "\<exists>ls s. pk_run pk_init ls s \<and> rq s = R_free \<and> Requester \<in> set ls"
    using 2 park_excludes_flash [OF 2] by (intro exI) auto
qed

section \<open>Where the protocol fails\<close>

text \<open>
  What \<open>R_free\<close> does not promise: the answer is the moment's, and the other core may take
  itself live, and run from flash, while this one programs on the strength of it.
\<close>

lemma park_live_window:
  "\<exists>ls s. pk_run pk_init ls s \<and> set ls \<subseteq> {Requester, Live} \<and> rq s = R_free \<and> plive s \<and> oth s = O_run"
proof -
  have 1: "pk_run pk_init [Requester] (bst R_free L_start)"
    by (rule pk_next [OF pk_start r_notlive]) (simp_all add: pk_init_def)
  have 2: "pk_run pk_init [Requester, Live] (bst R_free L_req)" by (rule pk_next [OF 1 l_req]) simp_all
  have 3: "pk_run pk_init [Requester, Live, Live] (bst R_free L_ack)" by (rule pk_next [OF 2 l_ack]) simp_all
  have 4: "pk_run pk_init [Requester, Live, Live, Live] (bst R_free L_clr)" by (rule pk_next [OF 3 l_clr]) simp_all
  have 5: "pk_run pk_init [Requester, Live, Live, Live, Live] (bst R_free L_on)" by (rule pk_next [OF 4 l_on]) simp_all
  have 6: "pk_run pk_init [Requester, Live, Live, Live, Live, Live] (pst False False False R_free O_run C_none)"
    by (rule pk_next [OF 5 l_live]) simp_all
  show ?thesis by (rule exI, rule exI, rule conjI, rule 6) simp
qed

text \<open>
  From a state in which the other core is entering the handler on behalf of nobody, the
  next call is told that it is parked while it is not.
\<close>

lemma pk_stale_handler:
  assumes "rq s = R_ack0" "oth s = O_masked" "\<not> preq s"
  shows "\<exists>s'. pk_run s [Parked, Parked, Requester, Requester, Requester, Parked, Parked] s' \<and>
     rq s' = R_parked \<and> oth s' = O_run \<and> \<not> ppend s'"
proof -
  have 1: "pk_run s [Parked] (s\<lparr>pack := True, oth := O_spin\<rparr>)"
    by (rule pk_next [OF pk_start o_ack]) (simp_all add: assms)
  have 2: "pk_run s [Parked, Parked] (s\<lparr>pack := True, oth := O_left\<rparr>)"
    by (rule pk_next [OF 1 o_leave]) (simp_all add: assms)
  have 3: "pk_run s [Parked, Parked, Requester] (s\<lparr>preq := True, pack := True, rq := R_req1, oth := O_left\<rparr>)"
    by (rule pk_next [OF 2 r_req]) (simp_all add: assms)
  have 4: "pk_run s [Parked, Parked, Requester, Requester]
      (s\<lparr>preq := True, pack := True, ppend := True, rq := R_wait, oth := O_left\<rparr>)"
    by (rule pk_next [OF 3 r_set]) simp_all
  have 5: "pk_run s [Parked, Parked, Requester, Requester, Requester]
      (s\<lparr>preq := True, pack := True, ppend := True, rq := R_parked, oth := O_left\<rparr>)"
    by (rule pk_next [OF 4 r_seen]) simp_all
  have 6: "pk_run s [Parked, Parked, Requester, Requester, Requester, Parked]
      (s\<lparr>preq := True, pack := False, ppend := True, rq := R_parked, oth := O_ack0\<rparr>)"
    by (rule pk_next [OF 5 o_unack]) simp_all
  have 7: "pk_run s [Parked, Parked, Requester, Requester, Requester, Parked, Parked]
      (s\<lparr>preq := True, pack := False, ppend := False, rq := R_parked, oth := O_run\<rparr>)"
    by (rule pk_next [OF 6 o_clear]) simp_all
  show ?thesis by (rule exI, rule conjI, rule 7) simp
qed

text \<open>
  A call of \<open>ch32h4_park_check\<close> that the parking interrupt preempts after its two tests
  enters the loop again when that request is over, with the same effect on the next one.
\<close>

lemma park_check_stale:
  "\<exists>ls s ls' s'. pk_run pk_init ls s \<and> Timeout \<notin> set ls \<and> rq s = R_ack0 \<and>
     pk_run s ls' s' \<and> set ls' \<subseteq> {Requester, Parked} \<and> rq s' = R_parked \<and> oth s' = O_run \<and> \<not> ppend s'"
proof -
  let ?l = "pk_asked @ [Check, Check]"
  have 1: "pk_run pk_init (pk_asked @ [Check]) (pst True False True R_wait O_run C_req)"
    by (rule pk_next [OF pk_first_request c_req]) simp_all
  have 2: "pk_run pk_init ?l (pst True False True R_wait O_run C_go)" by (rule pk_next [OF 1 c_ack]) simp_all
  have 3: "pk_run pk_init (?l @ [Parked]) (pst True False True R_wait O_masked C_go)"
    by (rule pk_next [OF 2 o_irq]) simp_all
  have 4: "pk_run pk_init (?l @ [Parked, Parked]) (pst True True True R_wait O_spin C_go)"
    by (rule pk_next [OF 3 o_ack]) simp_all
  let ?m = "?l @ [Parked, Parked, Requester, Requester]"
  have 5: "pk_run pk_init (?l @ [Parked, Parked, Requester]) (pst True True True R_parked O_spin C_go)"
    by (rule pk_next [OF 4 r_seen]) simp_all
  have 6: "pk_run pk_init ?m (pst False True True R_idle O_spin C_go)" by (rule pk_next [OF 5 r_unpark]) simp_all
  have 7: "pk_run pk_init (?m @ [Parked]) (pst False True True R_idle O_left C_go)"
    by (rule pk_next [OF 6 o_leave]) simp_all
  have 8: "pk_run pk_init (?m @ [Parked, Parked]) (pst False False True R_idle O_ack0 C_go)"
    by (rule pk_next [OF 7 o_unack]) simp_all
  have 9: "pk_run pk_init (?m @ [Parked, Parked, Parked]) (pst False False False R_idle O_run C_go)"
    by (rule pk_next [OF 8 o_clear]) simp_all
  have 10: "pk_run pk_init (?m @ [Parked, Parked, Parked, Requester]) (pst False False False R_go O_run C_go)"
    by (rule pk_next [OF 9 r_live]) simp_all
  have 11: "pk_run pk_init (?m @ [Parked, Parked, Parked, Requester, Requester])
      (pst False False False R_ack0 O_run C_go)"
    by (rule pk_next [OF 10 r_ack]) simp_all
  have 12: "pk_run pk_init (?m @ [Parked, Parked, Parked, Requester, Requester, Check])
      (pst False False False R_ack0 O_masked C_none)"
    by (rule pk_next [OF 11 c_spin]) simp_all
  obtain s' where s': "pk_run (pst False False False R_ack0 O_masked C_none)
      [Parked, Parked, Requester, Requester, Requester, Parked, Parked] s'"
    "rq s' = R_parked" "oth s' = O_run" "\<not> ppend s'"
    using pk_stale_handler [of "pst False False False R_ack0 O_masked C_none"] by auto
  show ?thesis by (rule exI, rule exI, rule exI, rule exI, rule conjI, rule 12) (use s' in auto)
qed

text \<open>Two runs, one after the other.\<close>

lemma pk_run_append: "pk_run s1 ls2 s2 \<Longrightarrow> pk_run s ls1 s1 \<Longrightarrow> pk_run s (ls1 @ ls2) s2"
proof (induction rule: pk_run.induct)
  case (pk_more s1 ls sa l sb)
  have "pk_run s ((ls1 @ ls) @ [l]) sb" by (rule pk_run.pk_more [OF pk_more.IH [OF pk_more.prems] pk_more.hyps(2)])
  then show ?case by simp
qed simp

text \<open>
  C25.  A request that timed out leaves its interrupt pending, and that breaks the next one.
  There is a run whose last step is the time-out of its only request, and from there one
  call of \<open>ch32h4_park_other\<close>, its five accesses interleaved with the other core alone,
  without \<open>ch32h4_park_check\<close>: the handler started by the stale interrupt acknowledges after
  the call has cleared the acknowledge word and reads the request word before it is set.
  The call returns true with its own request standing, and the other core is back to
  running from flash with nothing pending to stop it.
\<close>

theorem park_after_timeout_unsafe:
  "\<exists>ls s0 ls' s. pk_run pk_init (ls @ [Timeout]) s0 \<and> set ls \<subseteq> {Live, Requester, Parked} \<and> rq s0 = R_idle \<and>
     pk_run s0 ls' s \<and> set ls' \<subseteq> {Requester, Parked} \<and> count_list ls' Requester = 5 \<and>
     rq s = R_parked \<and> oth s = O_run \<and> \<not> ppend s"
proof -
  let ?s0 = "pst False False True R_idle O_run C_none"
  let ?s1 = "pst False False True R_ack0 O_masked C_none"
  have 0: "pk_run pk_init (pk_asked @ [Timeout]) ?s0" by (rule pk_next [OF pk_first_request r_timeout]) simp_all
  have 1: "pk_run ?s0 [Requester] (pst False False True R_go O_run C_none)"
    by (rule pk_next [OF pk_start r_live]) simp_all
  have 2: "pk_run ?s0 [Requester, Requester] (pst False False True R_ack0 O_run C_none)"
    by (rule pk_next [OF 1 r_ack]) simp_all
  have 3: "pk_run ?s0 [Requester, Requester, Parked] ?s1" by (rule pk_next [OF 2 o_irq]) simp_all
  let ?ls = "[Requester, Requester, Parked] @ [Parked, Parked, Requester, Requester, Requester, Parked, Parked]"
  obtain s where s: "pk_run ?s1 [Parked, Parked, Requester, Requester, Requester, Parked, Parked] s"
    "rq s = R_parked" "oth s = O_run" "\<not> ppend s"
    using pk_stale_handler [of ?s1] by auto
  have "pk_run ?s0 ?ls s" by (rule pk_run_append [OF s(1) 3])
  moreover have "set pk_asked \<subseteq> {Live, Requester, Parked}" "set ?ls \<subseteq> {Requester, Parked}"
    "count_list ?ls Requester = 5" "rq ?s0 = R_idle" by simp_all
  ultimately show ?thesis using 0 s by blast
qed

end
