(* ===== verification/Flash.thy ===== *)
theory Flash
  imports Park "HOL-Library.Sublist"
begin

text \<open>
  Self-programming the flash: \<open>cores/ch32h4/ch32h4_flash_ll.c\<close> (the controller's register
  sequences), \<open>ch32h4_flash.c\<close> (erase and write with the other core parked) and
  \<open>ch32h4_ota.c\<close> (committing a new image over the running one).  Flash contents are read
  through \<open>MEM8\<close> and \<open>MEM32\<close>; stores to \<open>MEM32\<close> go to the controller's page buffer.
\<close>

section \<open>The controller\<close>

definition CR_PER_Set :: u32 where "CR_PER_Set = 0x2"
definition CR_STRT_Set :: u32 where "CR_STRT_Set = 0x40"
definition CR_LOCK_Set :: u32 where "CR_LOCK_Set = 0x80"
definition CR_FLOCK_Set :: u32 where "CR_FLOCK_Set = 0x8000"
definition CR_PAGE_PG :: u32 where "CR_PAGE_PG = 0x10000"
definition CR_PG_STRT :: u32 where "CR_PG_STRT = 0x200000"
definition SR_BSY :: u32 where "SR_BSY = 1"
definition SR_WR_BSY :: u32 where "SR_WR_BSY = 2"
definition FLASH_KEY1 :: u32 where "FLASH_KEY1 = 0x45670123"
definition FLASH_KEY2 :: u32 where "FLASH_KEY2 = 0xCDEF89AB"
definition SPIN_LIMIT :: nat where "SPIN_LIMIT = 1000000"
definition LL_PROG_PAGE :: nat where "LL_PROG_PAGE = 256"
definition FLASH_ERASED_WORD :: u32 where "FLASH_ERASED_WORD = 0xE339E339"

text \<open>\<open>while ((STATR & mask) && guard) guard--; return guard != 0;\<close>\<close>

fun wait_clear :: "'d machine \<Rightarrow> u32 \<Rightarrow> nat \<Rightarrow> 'd \<Rightarrow> bool \<times> 'd" where
  "wait_clear M bits 0 d = (case m_rd M FLASH_STATR d of (v, d1) \<Rightarrow> (False, d1))"
| "wait_clear M bits (Suc guard) d =
     (case m_rd M FLASH_STATR d of (v, d1) \<Rightarrow>
        if v AND bits = 0 then (True, d1) else wait_clear M bits guard d1)"

definition wait_bsy :: "'d machine \<Rightarrow> 'd \<Rightarrow> bool \<times> 'd" where
  "wait_bsy M d = wait_clear M SR_BSY SPIN_LIMIT d"

definition wait_wr :: "'d machine \<Rightarrow> 'd \<Rightarrow> bool \<times> 'd" where
  "wait_wr M d = wait_clear M SR_WR_BSY SPIN_LIMIT d"

definition flash_ll_unlock :: "'d machine \<Rightarrow> 'd \<Rightarrow> 'd" where
  "flash_ll_unlock M = do_all
     [m_wr M FLASH_KEYR FLASH_KEY1, m_wr M FLASH_KEYR FLASH_KEY2,
      m_wr M FLASH_MODEKEYR FLASH_KEY1, m_wr M FLASH_MODEKEYR FLASH_KEY2]"

definition flash_ll_lock :: "'d machine \<Rightarrow> 'd \<Rightarrow> 'd" where
  "flash_ll_lock M = do_all [m_or M FLASH_CTLR CR_FLOCK_Set, m_or M FLASH_CTLR CR_LOCK_Set]"

definition flash_ll_page_size :: "'d machine \<Rightarrow> 'd \<Rightarrow> u32 \<times> 'd" where
  "flash_ll_page_size M d =
     (case m_rd M FLASH_CFGR0 d of (v, d) \<Rightarrow> (if v AND push_bit 28 1 \<noteq> 0 then 8192 else 4096, d))"

definition flash_ll_erase_page :: "'d machine \<Rightarrow> u32 \<Rightarrow> 'd \<Rightarrow> bool \<times> 'd" where
  "flash_ll_erase_page M addr d =
     (case irq_mask M d of (prev, d) \<Rightarrow>
        (case wait_bsy M d of (ok, d) \<Rightarrow>
           (case (if ok
                  then (case wait_bsy M (do_all
                          [m_or M FLASH_CTLR CR_PER_Set, m_wr M FLASH_ADDR addr,
                           m_or M FLASH_CTLR CR_STRT_Set] d) of
                          (ok, d) \<Rightarrow> (ok, m_and M FLASH_CTLR (NOT CR_PER_Set) d))
                  else (ok, d)) of
              (ok, d) \<Rightarrow> (ok, irq_restore M prev d))))"

text \<open>The loop that fills the page buffer, from word \<open>i\<close> on.\<close>

fun prog_words :: "'d machine \<Rightarrow> u32 \<Rightarrow> nat \<Rightarrow> u32 list \<Rightarrow> 'd \<Rightarrow> bool \<times> 'd" where
  "prog_words M addr i [] d = (True, d)"
| "prog_words M addr i (w # ws) d =
     (case wait_wr M (m_wr M (MEM32 (addr + word_of_nat i * 4)) w d) of
        (ok, d) \<Rightarrow> if ok then prog_words M addr (Suc i) ws d else (False, d))"

definition flash_ll_program_page :: "'d machine \<Rightarrow> u32 \<Rightarrow> u32 list \<Rightarrow> 'd \<Rightarrow> bool \<times> 'd" where
  "flash_ll_program_page M addr src d =
     (case irq_mask M d of (prev, d) \<Rightarrow>
        (case wait_bsy M (m_or M FLASH_CTLR CR_PAGE_PG d) of (ok, d) \<Rightarrow>
           (case (if ok then wait_wr M d else (False, d)) of (ok, d) \<Rightarrow>
              (case (if ok then prog_words M addr 0 (take (LL_PROG_PAGE div 4) src) d else (False, d)) of
                 (ok, d) \<Rightarrow>
                 (case (if ok then wait_bsy M (m_or M FLASH_CTLR CR_PG_STRT d) else (False, d)) of
                    (ok, d) \<Rightarrow>
                    (ok, irq_restore M prev (m_and M FLASH_CTLR (NOT CR_PAGE_PG) d)))))))"

section \<open>The driver\<close>

definition flash_page_size :: "'d machine \<Rightarrow> 'd \<Rightarrow> u32 \<times> 'd" where
  "flash_page_size M d =
     (case m_rd M FLASH_CFGR0 d of (v, d) \<Rightarrow> (if v AND push_bit 28 1 \<noteq> 0 then 8192 else 4096, d))"

definition flash_size :: "'d machine \<Rightarrow> 'd \<Rightarrow> u32 \<times> 'd" where
  "flash_size M d =
     (case m_rd M FLASH_CFGR0 d of (v, d) \<Rightarrow>
        (if v AND push_bit 28 1 \<noteq> 0 then 960 * 1024 else 480 * 1024, d))"

text \<open>\<open>memcpy\<close> out of the flash, byte by byte.\<close>

fun flash_read :: "'d machine \<Rightarrow> u32 \<Rightarrow> nat \<Rightarrow> 'd \<Rightarrow> u8 list \<times> 'd" where
  "flash_read M addr 0 d = ([], d)"
| "flash_read M addr (Suc n) d =
     (case m_rd M (MEM8 addr) d of (b, d1) \<Rightarrow>
        (case flash_read M (addr + 1) n d1 of (bs, d2) \<Rightarrow> (ucast b # bs, d2)))"

fun all_erased :: "'d machine \<Rightarrow> u32 \<Rightarrow> nat \<Rightarrow> 'd \<Rightarrow> bool \<times> 'd" where
  "all_erased M addr 0 d = (True, d)"
| "all_erased M addr (Suc n) d =
     (case m_rd M (MEM32 addr) d of (w, d1) \<Rightarrow>
        if w \<noteq> FLASH_ERASED_WORD then (False, d1) else all_erased M (addr + 4) n d1)"

definition flash_is_erased :: "'d machine \<Rightarrow> u32 \<Rightarrow> u32 \<Rightarrow> 'd \<Rightarrow> bool \<times> 'd" where
  "flash_is_erased M addr len d =
     (if addr AND 3 \<noteq> 0 \<or> len AND 3 \<noteq> 0 then (False, d)
      else all_erased M addr (unat (len div 4)) d)"

definition PARK_TIMEOUT_MS :: u32 where "PARK_TIMEOUT_MS = 100"

definition flash_erase :: "'d machine \<Rightarrow> core \<Rightarrow> u32 \<Rightarrow> u32 \<Rightarrow> 'd \<Rightarrow> (bool \<times> 'd) option" where
  "flash_erase M self addr len d =
     (case flash_page_size M d of (page, d) \<Rightarrow>
        if len = 0 \<or> addr mod page \<noteq> 0 \<or> len mod page \<noteq> 0 then Some (False, d)
        else do { (parked, d) \<leftarrow> park_other M self PARK_TIMEOUT_MS d;
                  if \<not> parked then Some (False, d)
                  else do { (ok, d) \<leftarrow> for_step (\<lambda>off. flash_ll_erase_page M (addr + off)) page len 0
                                        (flash_ll_unlock M d);
                            Some (ok, unpark_other M self (flash_ll_lock M d)) } })"

definition flash_prog_size :: u32 where
  "flash_prog_size = word_of_nat LL_PROG_PAGE"

text \<open>Little-endian words of a byte buffer, four bytes each: the copy into \<open>page\<close>.\<close>

fun words_of :: "u8 list \<Rightarrow> u32 list" where
  "words_of (a # b # c # e # bs) =
     (ucast a OR push_bit 8 (ucast b) OR push_bit 16 (ucast c) OR push_bit 24 (ucast e)) # words_of bs"
| "words_of _ = []"

definition page_at :: "u8 list \<Rightarrow> u32 \<Rightarrow> u32 list" where
  "page_at src off = words_of (take LL_PROG_PAGE (drop (unat off) src))"

definition flash_write :: "'d machine \<Rightarrow> core \<Rightarrow> u32 \<Rightarrow> u8 list \<Rightarrow> u32 \<Rightarrow> 'd \<Rightarrow> (bool \<times> 'd) option" where
  "flash_write M self addr src len d =
     (if len = 0 then Some (True, d)
      else if addr mod word_of_nat LL_PROG_PAGE \<noteq> 0 \<or> len mod word_of_nat LL_PROG_PAGE \<noteq> 0
      then Some (False, d)
      else do { (parked, d) \<leftarrow> park_other M self PARK_TIMEOUT_MS d;
                if \<not> parked then Some (False, d)
                else do { (ok, d) \<leftarrow> for_step (\<lambda>off. flash_ll_program_page M (addr + off) (page_at src off))
                                      (word_of_nat LL_PROG_PAGE) len 0 (flash_ll_unlock M d);
                          let d = unpark_other M self (flash_ll_lock M d);
                          if \<not> ok then Some (False, d)
                          else (case flash_read M addr (unat len) d of
                                  (bs, d) \<Rightarrow> Some (bs = take (unat len) src, d)) } })"

section \<open>Committing an image\<close>

text \<open>
  \<open>ch32h4_ota_commit\<close> ends in \<open>reset_now\<close> on every path: its value is the state at the
  reset.  The infinite loop after the reset request is not entered.
\<close>

definition reset_now :: "'d machine \<Rightarrow> 'd \<Rightarrow> 'd" where
  "reset_now M = m_wr M PFIC_CFGR (0xBEEF0000 OR push_bit 7 1)"

definition OTA_PROG_PAGE :: u32 where "OTA_PROG_PAGE = 256"

definition ota_commit :: "'d machine \<Rightarrow> u32 \<Rightarrow> u8 list \<Rightarrow> u32 \<Rightarrow> u32 \<Rightarrow> 'd \<Rightarrow> 'd option" where
  "ota_commit M dest img len page_size d =
     do { (ok, d) \<leftarrow> for_step (\<lambda>off. flash_ll_erase_page M (dest + off)) page_size len 0
                      (flash_ll_unlock M (snd (irq_mask M d)));
          if \<not> ok then Some (reset_now M d)
          else do { (ok, d) \<leftarrow> for_step (\<lambda>off. flash_ll_program_page M (dest + off) (page_at img off))
                                OTA_PROG_PAGE len 0 d;
                    if \<not> ok then Some (reset_now M d)
                    else Some (reset_now M (flash_ll_lock M d)) } }"

section \<open>The shape of the loops and waits\<close>

lemma mod_0_times: "(x :: u32) mod y = 0 \<Longrightarrow> unat x = (unat x div unat y) * unat y"
proof -
  assume "x mod y = 0"
  then have "unat x mod unat y = 0" by (simp flip: unat_mod)
  then show ?thesis by (metis add.right_neutral div_mult_mod_eq)
qed

lemma flash_page_size_pos: "flash_page_size M d = (page, d1) \<Longrightarrow> 0 < unat page"
  by (auto simp: flash_page_size_def split: prod.splits if_splits)

text \<open>What every read, and every store the wait for the other core makes, leaves alone.\<close>

lemma wait_keeps:
  assumes "\<And>r d. P d \<Longrightarrow> P (snd (m_rd M r d))" "P d"
  shows "P (snd (wait_clear M b g d))"
  using assms(2)
proof (induction g arbitrary: d)
  case 0
  then show ?case using assms(1) by (simp add: split_beta)
next
  case (Suc g)
  then show ?case using assms(1) by (simp add: split_beta)
qed

lemma park_keeps:
  assumes p: "park_other M self t d = Some (ok, d')"
    and rd: "\<And>r d. P d \<Longrightarrow> P (snd (m_rd M r d))" and ms: "\<And>d. P d \<Longrightarrow> P (snd (m_millis M d))"
    and wr: "\<And>r v d. r \<in> {PARK_REQ (other self), PARK_ACK (other self), IPC_SET} \<Longrightarrow> P d \<Longrightarrow> P (m_wr M r v d)"
    and d: "P d"
  shows "P d'"
proof (cases "fst (m_rd M (PARK_LIVE (other self)) d) = 0")
  case True
  then show ?thesis using p rd [OF d, of "PARK_LIVE (other self)"] by (auto simp: park_other_def split_beta)
next
  case False
  have a: "\<forall>d. P d \<longrightarrow> P (snd (ack_seen M (other self) d))" using rd by (simp add: ack_seen_def split_beta)
  let ?d3 = "m_wr M IPC_SET (park_mask (park_ch (other self))) (m_wr M (PARK_REQ (other self)) 1
    (m_wr M (PARK_ACK (other self)) 0 (snd (m_rd M (PARK_LIVE (other self)) d))))"
  obtain start d4 where d4: "m_millis M ?d3 = (start, d4)" by (cases "m_millis M ?d3")
  obtain r d5 where q: "poll (ack_seen M (other self)) (m_millis M) (\<lambda>t'. t' - start > t) d4 = Some (r, d5)"
    and e: "d' = (case r of Some _ \<Rightarrow> d5 | None \<Rightarrow> m_wr M (PARK_REQ (other self)) 0 d5)"
    using p False d4 by (auto simp: park_other_def split_beta split: Option.bind_splits option.splits)
  have "P ?d3" by (intro wr rd d) simp_all
  then have "P d4" using ms [of ?d3] d4 by simp
  then have "P d5" using poll_inv [OF q a] ms by blast
  then show ?thesis using wr by (simp add: e split: option.splits)
qed

text \<open>
  A machine with idle flash on the large part, and no second core running.  The start bits
  of the control register read as zero and the keys open the locks.
\<close>

definition sim_open :: "u32 \<Rightarrow> sim \<Rightarrow> sim" where
  "sim_open b d = d\<lparr>regs := (regs d)(FLASH_CTLR := regs d FLASH_CTLR AND NOT b)\<rparr>"

definition flash_sim :: "sim machine" where
  "flash_sim = (sim_machine (\<lambda>_. None))
     \<lparr>m_rd := (\<lambda>r d. (if r = FLASH_CFGR0 then 0x10000000 else if r = FLASH_STATR then 0
        else if r = FLASH_CTLR then regs d r AND NOT (CR_STRT_Set OR CR_PG_STRT) else regs d r, d)),
      m_wr := (\<lambda>r v d. (if v = FLASH_KEY2 \<and> r = FLASH_KEYR then sim_open CR_LOCK_Set
        else if v = FLASH_KEY2 \<and> r = FLASH_MODEKEYR then sim_open CR_FLOCK_Set else (\<lambda>d. d))
        (d\<lparr>regs := (regs d)(r := v), wlog := wlog d @ [(r, v)]\<rparr>))\<rparr>"

lemma flash_sim_rd: "m_rd flash_sim r d =
    (if r = FLASH_CFGR0 then 0x10000000 else if r = FLASH_STATR then 0
     else if r = FLASH_CTLR then regs d r AND NOT (CR_STRT_Set OR CR_PG_STRT) else regs d r, d)"
  by (simp add: flash_sim_def)

lemma flash_sim_wr: "m_wr flash_sim r v d = (if v = FLASH_KEY2 \<and> r = FLASH_KEYR then sim_open CR_LOCK_Set
        else if v = FLASH_KEY2 \<and> r = FLASH_MODEKEYR then sim_open CR_FLOCK_Set else (\<lambda>d. d))
        (d\<lparr>regs := (regs d)(r := v), wlog := wlog d @ [(r, v)]\<rparr>)"
  by (simp add: flash_sim_def)

lemma flash_sim_millis: "m_millis flash_sim d = (word_of_nat (now d), d\<lparr>now := Suc (now d)\<rparr>)"
  by (simp add: flash_sim_def sim_machine_def)

lemma flash_sim_logs: "logs flash_sim wlog"
  by (auto simp: logs_def flash_sim_def sim_machine_def sim_open_def)

lemma flash_sim_stable: "r \<notin> {FLASH_CTLR, FLASH_CFGR0, FLASH_STATR} \<Longrightarrow> stable flash_sim r"
  by (auto simp: stable_def val_def flash_sim_def sim_machine_def sim_open_def)

lemma flash_sim_wait [simp]: "wait_bsy flash_sim d = (True, d)" "wait_wr flash_sim d = (True, d)"
proof -
  have e: "1000000 = Suc 999999" by simp
  have "wait_clear flash_sim b 1000000 d = (True, d)" for b
    unfolding e wait_clear.simps by (simp add: flash_sim_rd)
  then show "wait_bsy flash_sim d = (True, d)" "wait_wr flash_sim d = (True, d)"
    by (simp_all add: wait_bsy_def wait_wr_def SPIN_LIMIT_def)
qed

text \<open>A controller that is never busy for longer than the bounded waits last.\<close>

definition prompt :: "'d machine \<Rightarrow> bool" where
  "prompt M \<longleftrightarrow> (\<forall>d. fst (wait_bsy M d) \<and> fst (wait_wr M d))"

lemma prompt_waits [simp]: "prompt M \<Longrightarrow> fst (wait_bsy M d)" "prompt M \<Longrightarrow> fst (wait_wr M d)"
  by (simp_all add: prompt_def)

lemma prompt_erase: "prompt M \<Longrightarrow> fst (flash_ll_erase_page M a d)"
  by (simp add: flash_ll_erase_page_def split_beta)

lemma prompt_words: "prompt M \<Longrightarrow> fst (prog_words M a i ws d)"
  by (induction ws arbitrary: i d) (simp_all add: split_beta)

lemma prompt_program: "prompt M \<Longrightarrow> fst (flash_ll_program_page M a ws d)"
  using prompt_words by (simp add: flash_ll_program_page_def split_beta)

lemma flash_sim_prompt: "prompt flash_sim"
  by (simp add: prompt_def)

lemma run_while_true: "(\<And>x d. fst (body x d)) \<Longrightarrow> fst (run_while body xs d)"
  by (induction xs arbitrary: d) (auto simp: split_beta)

lemma prompt_erases:
  assumes "run_while (\<lambda>off. flash_ll_erase_page M (a + off)) xs d = (ok, d')" "prompt M"
  shows ok
  using run_while_true [of "\<lambda>off. flash_ll_erase_page M (a + off)" xs d] prompt_erase [OF assms(2)] assms(1) by simp

lemma prompt_programs:
  assumes "run_while (\<lambda>off. flash_ll_program_page M (a + off) (src off)) xs d = (ok, d')" "prompt M"
  shows ok
  using run_while_true [of "\<lambda>off. flash_ll_program_page M (a + off) (src off)" xs d] prompt_program [OF assms(2)] assms(1)
  by simp

lemma flash_sim_page: "flash_page_size flash_sim d = (8192, d)"
  by (simp add: flash_page_size_def flash_sim_rd)

lemma flash_sim_park:
  "regs d (PARK_LIVE (other self)) = 0 \<Longrightarrow> park_other flash_sim self t d = Some (True, d)"
  by (simp add: park_other_def flash_sim_rd)

section \<open>The state the controller is left in\<close>

text \<open>
  What the bits of \<open>FLASH_CTLR\<close> that the driver sets and clears do: page erase (1), fast
  program (16), lock (7) and fast lock (15) read back as they were last written there, and
  the first two change in no other way; the locks may also be opened by a key.
\<close>

definition ctlr_bits :: "nat \<Rightarrow> bool" where
  "ctlr_bits n \<longleftrightarrow> n = 1 \<or> n = 7 \<or> n = 15 \<or> n = 16"

definition ctlr_ok :: "'d machine \<Rightarrow> bool" where
  "ctlr_ok M \<longleftrightarrow>
     (\<forall>n v d. ctlr_bits n \<longrightarrow> bit (val M FLASH_CTLR (m_wr M FLASH_CTLR v d)) n = bit v n) \<and>
     (\<forall>n r v d. ctlr_bits n \<longrightarrow> r \<noteq> FLASH_CTLR \<longrightarrow> (n = 1 \<or> n = 16 \<or> (r \<noteq> FLASH_KEYR \<and> r \<noteq> FLASH_MODEKEYR)) \<longrightarrow>
        bit (val M FLASH_CTLR (m_wr M r v d)) n = bit (val M FLASH_CTLR d) n) \<and>
     (\<forall>n r d. ctlr_bits n \<longrightarrow> bit (val M FLASH_CTLR (snd (m_rd M r d))) n = bit (val M FLASH_CTLR d) n) \<and>
     (\<forall>n d. ctlr_bits n \<longrightarrow> bit (val M FLASH_CTLR (snd (m_millis M d))) n = bit (val M FLASH_CTLR d) n)"

text \<open>Neither page erase nor fast program armed.\<close>

definition disarmed :: "'d machine \<Rightarrow> 'd \<Rightarrow> bool" where
  "disarmed M d \<longleftrightarrow> \<not> bit (val M FLASH_CTLR d) 1 \<and> \<not> bit (val M FLASH_CTLR d) 16"

lemma ctlr_bits_simps [simp]: "ctlr_bits 1" "ctlr_bits (Suc 0)" "ctlr_bits 7" "ctlr_bits 15" "ctlr_bits 16"
  by (simp_all add: ctlr_bits_def)

lemma ctlr_simps:
  assumes "ctlr_ok M" "ctlr_bits n"
  shows "bit (val M FLASH_CTLR (m_wr M FLASH_CTLR v d)) n = bit v n"
    "n = 1 \<or> n = 16 \<Longrightarrow> r \<noteq> FLASH_CTLR \<Longrightarrow>
       bit (val M FLASH_CTLR (m_wr M r v d)) n = bit (val M FLASH_CTLR d) n"
    "r \<noteq> FLASH_CTLR \<Longrightarrow> r \<noteq> FLASH_KEYR \<Longrightarrow> r \<noteq> FLASH_MODEKEYR \<Longrightarrow>
       bit (val M FLASH_CTLR (m_wr M r v d)) n = bit (val M FLASH_CTLR d) n"
    "bit (val M FLASH_CTLR (snd (m_rd M r d))) n = bit (val M FLASH_CTLR d) n"
    "bit (val M FLASH_CTLR (snd (m_millis M d))) n = bit (val M FLASH_CTLR d) n"
  using assms unfolding ctlr_ok_def by blast+

lemma m_or_ctlr:
  assumes "ctlr_ok M" "ctlr_bits n"
  shows "bit (val M FLASH_CTLR (m_or M FLASH_CTLR x d)) n = (bit (val M FLASH_CTLR d) n \<or> bit x n)"
    "bit (val M FLASH_CTLR (m_and M FLASH_CTLR x d)) n = (bit (val M FLASH_CTLR d) n \<and> bit x n)"
  unfolding m_or_eq m_and_eq ctlr_simps(1) [OF assms] by (simp_all only: bit_or_iff bit_and_iff)

lemma disarmed_simps:
  assumes "ctlr_ok M"
  shows "r \<noteq> FLASH_CTLR \<Longrightarrow> disarmed M (m_wr M r v d) = disarmed M d"
    "disarmed M (snd (m_rd M r d)) = disarmed M d" "disarmed M (snd (m_millis M d)) = disarmed M d"
  using ctlr_simps [OF assms] by (simp_all add: disarmed_def)

lemma disarmed_or: "r \<noteq> FLASH_CTLR \<Longrightarrow> ctlr_ok M \<Longrightarrow> disarmed M (m_or M r v d) = disarmed M d"
  by (simp add: m_or_def split_beta disarmed_simps)

lemma stable_restore:
  assumes "stable M MSTATUS" "irq_mask M d = (prev, d1)" "val M MSTATUS d2 = val M MSTATUS d1"
  shows "val M MSTATUS (irq_restore M prev d2) = val M MSTATUS d"
proof -
  have p: "prev = val M MSTATUS d" "val M MSTATUS d1 = prev AND NOT 8"
    using assms(1,2) by (auto simp: irq_mask_def val_def stable_def split: prod.splits)
  have "prev AND 8 \<noteq> 0 \<longleftrightarrow> bit prev 3" using and_pow_u32 [of prev 3] by simp
  moreover have "bit prev 3 \<Longrightarrow> (prev AND NOT 8) OR 8 = prev" using clear_then_set [of prev 3] by simp
  moreover have "\<not> bit prev 3 \<Longrightarrow> prev AND NOT 8 = prev" using clear_absent [of prev 3] by simp
  ultimately show ?thesis
    using assms(1,3) p by (cases "bit prev 3") (simp_all add: irq_restore_def stable_or_same)
qed

text \<open>What a page operation needs: the controller disarmed and the interrupt mask known.\<close>

definition idle_flash :: "'d machine \<Rightarrow> u32 \<Rightarrow> 'd \<Rightarrow> bool" where
  "idle_flash M mie d \<longleftrightarrow> disarmed M d \<and> val M MSTATUS d = mie"

text \<open>The two words a step may read without disturbing: used for every wait.\<close>

definition flash_words :: "'d machine \<Rightarrow> 'd \<Rightarrow> bool list \<times> u32" where
  "flash_words M d = (map (bit (val M FLASH_CTLR d)) [1, 16, 7, 15], val M MSTATUS d)"

lemma flash_words_eq:
  "flash_words M d = flash_words M d' \<Longrightarrow> ctlr_bits n \<Longrightarrow>
     bit (val M FLASH_CTLR d) n = bit (val M FLASH_CTLR d') n"
  "flash_words M d = flash_words M d' \<Longrightarrow> val M MSTATUS d = val M MSTATUS d'"
  "flash_words M d = flash_words M d' \<Longrightarrow> disarmed M d = disarmed M d'"
  by (auto simp: flash_words_def ctlr_bits_def disarmed_def)

lemma flash_words_keep:
  assumes "ctlr_ok M" "stable M MSTATUS"
  shows "flash_words M (snd (m_rd M r d)) = flash_words M d"
    "flash_words M (snd (m_millis M d)) = flash_words M d"
    "r \<notin> {FLASH_CTLR, FLASH_KEYR, FLASH_MODEKEYR, MSTATUS} \<Longrightarrow> flash_words M (m_wr M r v d) = flash_words M d"
  using ctlr_simps [OF assms(1)] assms(2) by (simp_all add: flash_words_def stable_simps)

lemma wait_words:
  assumes "ctlr_ok M" "stable M MSTATUS"
  shows "flash_words M (snd (wait_clear M b g d)) = flash_words M d"
  by (rule wait_keeps [where P = "\<lambda>d'. flash_words M d' = flash_words M d"]) (simp_all add: flash_words_keep [OF assms])

lemma prog_words_words:
  assumes "ctlr_ok M" "stable M MSTATUS"
  shows "flash_words M (snd (prog_words M a i ws d)) = flash_words M d"
proof (induction ws arbitrary: i d)
  case (Cons w ws)
  let ?d1 = "m_wr M (MEM32 (a + word_of_nat i * 4)) w d"
  obtain ok d2 where "wait_wr M ?d1 = (ok, d2)" by (cases "wait_wr M ?d1")
  moreover have "flash_words M (snd (wait_wr M ?d1)) = flash_words M d"
    by (simp add: wait_wr_def wait_words [OF assms] flash_words_keep [OF assms])
  ultimately show ?case using Cons.IH by simp
qed simp

lemma flash_bits: "bit CR_PER_Set n \<longleftrightarrow> n = 1" "bit CR_PAGE_PG n \<longleftrightarrow> n = 16" "bit CR_STRT_Set n \<longleftrightarrow> n = 6"
    "bit CR_PG_STRT n \<longleftrightarrow> n = 21" "bit CR_LOCK_Set n \<longleftrightarrow> n = 7" "bit CR_FLOCK_Set n \<longleftrightarrow> n = 15"
  using bit_pow_u32 [of 1 n] bit_pow_u32 [of 16 n] bit_pow_u32 [of 6 n] bit_pow_u32 [of 21 n]
    bit_pow_u32 [of 7 n] bit_pow_u32 [of 15 n]
  by (simp_all add: CR_PER_Set_def CR_PAGE_PG_def CR_STRT_Set_def CR_PG_STRT_def CR_LOCK_Set_def CR_FLOCK_Set_def)

lemma flash_sim_ctlr: "ctlr_ok flash_sim"
  by (auto simp: ctlr_ok_def flash_sim_rd flash_sim_wr flash_sim_millis val_def sim_open_def ctlr_bits_def
      bit_and_iff bit_not_u32 bit_or_iff flash_bits)

lemma m_set_words:
  assumes "ctlr_ok M" "stable M MSTATUS" "ctlr_bits n"
  shows "bit (val M FLASH_CTLR (m_or M FLASH_CTLR x d)) n \<longleftrightarrow> bit (val M FLASH_CTLR d) n \<or> bit x n"
    "n < 32 \<Longrightarrow> bit (val M FLASH_CTLR (m_and M FLASH_CTLR (NOT x) d)) n \<longleftrightarrow>
       bit (val M FLASH_CTLR d) n \<and> \<not> bit x n"
    "val M MSTATUS (m_or M FLASH_CTLR x d) = val M MSTATUS d"
    "val M MSTATUS (m_and M FLASH_CTLR x d) = val M MSTATUS d"
  using m_or_ctlr [OF assms(1,3)] stable_or_other [OF assms(2)] stable_and_other [OF assms(2)]
  by (simp_all add: bit_not_u32)

text \<open>
  A page operation that finds the controller disarmed leaves it disarmed, the locks as they
  were and the interrupt enable restored, whether it succeeds or not.
\<close>

lemma irq_mask_words:
  assumes "ctlr_ok M" "stable M MSTATUS" "ctlr_bits n"
  shows "bit (val M FLASH_CTLR (snd (irq_mask M d))) n = bit (val M FLASH_CTLR d) n"
    "bit (val M FLASH_CTLR (irq_restore M p d)) n = bit (val M FLASH_CTLR d) n"
  using ctlr_simps [OF assms(1,3)] assms(3)
  by (simp_all add: irq_mask_def irq_restore_def m_or_def split_beta)

lemma wait_words_at:
  assumes "ctlr_ok M" "stable M MSTATUS" "wait_bsy M d = (ok, d') \<or> wait_wr M d = (ok, d')"
  shows "flash_words M d' = flash_words M d"
  using wait_words [OF assms(1,2)] assms(3) by (metis snd_conv wait_bsy_def wait_wr_def)

lemma erase_page_words:
  assumes "ctlr_ok M" "stable M MSTATUS" "disarmed M d"
  shows "flash_words M (snd (flash_ll_erase_page M a d)) = flash_words M d"
proof -
  obtain prev d1 where 1: "irq_mask M d = (prev, d1)" by (cases "irq_mask M d")
  obtain ok d2 where 2: "wait_bsy M d1 = (ok, d2)" by (cases "wait_bsy M d1")
  note w2 = wait_words_at [OF assms(1,2) disjI1 [OF 2]]
  have c1: "bit (val M FLASH_CTLR d1) n = bit (val M FLASH_CTLR d) n" if "ctlr_bits n" for n
    using irq_mask_words(1) [OF assms(1,2) that, of d] 1 by simp
  have c2: "bit (val M FLASH_CTLR d2) n = bit (val M FLASH_CTLR d) n" if "ctlr_bits n" for n
    using c1 [OF that] flash_words_eq(1) [OF _ that, of M d2 d1] w2 by simp
  have m2: "val M MSTATUS d2 = val M MSTATUS d1" by (rule flash_words_eq(2) [OF w2])
  have fin: "flash_words M (irq_restore M prev d3) = flash_words M d"
    if "\<And>n. ctlr_bits n \<Longrightarrow> bit (val M FLASH_CTLR d3) n = bit (val M FLASH_CTLR d) n"
      "val M MSTATUS d3 = val M MSTATUS d1" for d3
    using that irq_mask_words(2) [OF assms(1,2)] stable_restore [OF assms(2) 1]
    by (simp add: flash_words_def)
  show ?thesis
  proof (cases ok)
    case False
    then show ?thesis using 1 2 fin [OF c2 m2] by (simp add: flash_ll_erase_page_def)
  next
    case True
    let ?d3 = "do_all [m_or M FLASH_CTLR CR_PER_Set, m_wr M FLASH_ADDR a, m_or M FLASH_CTLR CR_STRT_Set] d2"
    obtain ok4 d4 where 4: "wait_bsy M ?d3 = (ok4, d4)" by (cases "wait_bsy M ?d3")
    have w4: "flash_words M d4 = flash_words M ?d3" using wait_words_at [OF assms(1,2)] 4 by blast
    have c3: "bit (val M FLASH_CTLR ?d3) n \<longleftrightarrow> bit (val M FLASH_CTLR d2) n \<or> n = 1" if "ctlr_bits n" for n
      using that m_set_words(1) [OF assms(1,2) that] ctlr_simps(3) [OF assms(1) that]
      by (auto simp: flash_bits ctlr_bits_def)
    have m3: "val M MSTATUS ?d3 = val M MSTATUS d2"
      using assms(2) by (simp add: stable_simps)
    let ?d5 = "m_and M FLASH_CTLR (NOT CR_PER_Set) d4"
    have "bit (val M FLASH_CTLR ?d5) n = bit (val M FLASH_CTLR d) n" if n: "ctlr_bits n" for n
    proof -
      have "bit (val M FLASH_CTLR d4) n \<longleftrightarrow> bit (val M FLASH_CTLR d) n \<or> n = 1"
        using flash_words_eq(1) [OF w4 n] c3 [OF n] c2 [OF n] by simp
      moreover have "n < 32" using n by (auto simp: ctlr_bits_def)
      moreover have "n = 1 \<Longrightarrow> \<not> bit (val M FLASH_CTLR d) n" using assms(3) by (simp add: disarmed_def)
      ultimately show ?thesis using m_set_words(2) [OF assms(1,2) n] by (auto simp: flash_bits)
    qed
    moreover have "val M MSTATUS ?d5 = val M MSTATUS d1"
      using m2 m3 flash_words_eq(2) [OF w4] assms(2) by (simp add: stable_simps)
    ultimately have "flash_words M (irq_restore M prev ?d5) = flash_words M d" by (rule fin)
    then show ?thesis using 1 2 4 True by (simp add: flash_ll_erase_page_def)
  qed
qed

lemma program_page_words:
  assumes "ctlr_ok M" "stable M MSTATUS" "disarmed M d"
  shows "flash_words M (snd (flash_ll_program_page M a ws d)) = flash_words M d"
proof -
  obtain prev d1 where 1: "irq_mask M d = (prev, d1)" by (cases "irq_mask M d")
  let ?d1 = "m_or M FLASH_CTLR CR_PAGE_PG d1" and ?ws = "take (LL_PROG_PAGE div 4) ws"
  obtain ok2 d2 where 2: "wait_bsy M ?d1 = (ok2, d2)" by (cases "wait_bsy M ?d1")
  obtain ok3 d3 where 3: "(if ok2 then wait_wr M d2 else (False, d2)) = (ok3, d3)"
    by (cases "if ok2 then wait_wr M d2 else (False, d2)")
  obtain ok4 d4 where 4: "(if ok3 then prog_words M a 0 ?ws d3 else (False, d3)) = (ok4, d4)"
    by (cases "if ok3 then prog_words M a 0 ?ws d3 else (False, d3)")
  let ?d4 = "m_or M FLASH_CTLR CR_PG_STRT d4"
  obtain ok5 d5 where 5: "(if ok4 then wait_bsy M ?d4 else (False, d4)) = (ok5, d5)"
    by (cases "if ok4 then wait_bsy M ?d4 else (False, d4)")
  have "flash_words M d2 = flash_words M ?d1" by (rule wait_words_at [OF assms(1,2) disjI1 [OF 2]])
  moreover have "flash_words M d3 = flash_words M d2"
    using 3 wait_words_at [OF assms(1,2), of d2 ok3 d3] by (auto split: if_splits)
  moreover have "flash_words M d4 = flash_words M d3"
    using 4 prog_words_words [OF assms(1,2), of a 0 ?ws d3] by (auto split: if_splits)
  ultimately have w: "flash_words M d4 = flash_words M ?d1" by simp
  have c5: "bit (val M FLASH_CTLR d5) n = bit (val M FLASH_CTLR d4) n" if "ctlr_bits n" for n
  proof (cases ok4)
    case True
    have "flash_words M d5 = flash_words M ?d4"
      using 5 True wait_words_at [OF assms(1,2) disjI1, of ?d4] by simp
    moreover have "bit (val M FLASH_CTLR ?d4) n = bit (val M FLASH_CTLR d4) n"
      using that m_set_words(1) [OF assms(1,2) that] by (auto simp: flash_bits ctlr_bits_def)
    ultimately show ?thesis using flash_words_eq(1) that by metis
  qed (use 5 in simp)
  have m5: "val M MSTATUS d5 = val M MSTATUS d4"
  proof (cases ok4)
    case True
    have "flash_words M d5 = flash_words M ?d4"
      using 5 True wait_words_at [OF assms(1,2) disjI1, of ?d4] by simp
    then show ?thesis using flash_words_eq(2) [of M d5 ?d4] assms(2) by (simp add: stable_simps)
  qed (use 5 in simp)
  let ?d6 = "m_and M FLASH_CTLR (NOT CR_PAGE_PG) d5"
  have b: "bit (val M FLASH_CTLR (irq_restore M prev ?d6)) n = bit (val M FLASH_CTLR d) n" if n: "ctlr_bits n" for n
  proof -
    have "bit (val M FLASH_CTLR d5) n \<longleftrightarrow> bit (val M FLASH_CTLR d1) n \<or> n = 16"
      using c5 [OF n] flash_words_eq(1) [OF w n] m_set_words(1) [OF assms(1,2) n] by (simp add: flash_bits)
    moreover have "bit (val M FLASH_CTLR d1) n = bit (val M FLASH_CTLR d) n"
      using irq_mask_words(1) [OF assms(1,2) n, of d] 1 by simp
    moreover have "n < 32" using n by (auto simp: ctlr_bits_def)
    moreover have "n = 16 \<Longrightarrow> \<not> bit (val M FLASH_CTLR d) n" using assms(3) by (simp add: disarmed_def)
    ultimately show ?thesis
      using m_set_words(2) [OF assms(1,2) n] irq_mask_words(2) [OF assms(1,2) n] by (auto simp: flash_bits)
  qed
  have "val M MSTATUS ?d6 = val M MSTATUS d1"
    using m5 flash_words_eq(2) [OF w] assms(2) by (simp add: stable_simps)
  then have "val M MSTATUS (irq_restore M prev ?d6) = val M MSTATUS d"
    by (rule stable_restore [OF assms(2) 1])
  with b have "flash_words M (irq_restore M prev ?d6) = flash_words M d" by (simp add: flash_words_def)
  moreover have "flash_ll_program_page M a ws d = (ok5, irq_restore M prev ?d6)"
    using 1 2 3 4 5 by (simp add: flash_ll_program_page_def)
  ultimately show ?thesis by simp
qed

lemma flash_loops_words:
  assumes "ctlr_ok M" "stable M MSTATUS" "disarmed M d"
  shows "flash_words M (snd (run_while (\<lambda>off. flash_ll_erase_page M (a + off)) xs d)) = flash_words M d"
    "flash_words M (snd (run_while (\<lambda>off. flash_ll_program_page M (a + off) (src off)) xs d)) = flash_words M d"
proof -
  have *: "flash_words M d' = flash_words M d \<Longrightarrow> disarmed M d'" for d'
    using assms(3) flash_words_eq(3) [of M d' d] by simp
  have e: "flash_words M (snd (flash_ll_erase_page M b d')) = flash_words M d"
    and p: "flash_words M (snd (flash_ll_program_page M b ws d')) = flash_words M d"
    if "flash_words M d' = flash_words M d" for b ws d'
    using erase_page_words [OF assms(1,2) * [OF that]] program_page_words [OF assms(1,2) * [OF that]] that
    by simp_all
  show "flash_words M (snd (run_while (\<lambda>off. flash_ll_erase_page M (a + off)) xs d)) = flash_words M d"
    by (rule run_while_inv [where P = "\<lambda>d'. flash_words M d' = flash_words M d"]) (rule e, assumption, rule refl)
  show "flash_words M (snd (run_while (\<lambda>off. flash_ll_program_page M (a + off) (src off)) xs d)) = flash_words M d"
    by (rule run_while_inv [where P = "\<lambda>d'. flash_words M d' = flash_words M d"]) (rule p, assumption, rule refl)
qed

lemma park_words:
  assumes "ctlr_ok M" "stable M MSTATUS" "park_other M self t d = Some (ok, d')"
  shows "flash_words M d' = flash_words M d"
  by (rule park_keeps [OF assms(3), where P = "\<lambda>x. flash_words M x = flash_words M d"])
    (auto simp: flash_words_keep [OF assms(1,2)])

lemma park_req_withdrawn:
  assumes "stable M (PARK_REQ (other self))" "park_other M self t d = Some (False, d')"
  shows "val M (PARK_REQ (other self)) d' = 0"
proof -
  have "fst (m_rd M (PARK_LIVE (other self)) d) \<noteq> 0"
    using assms(2) by (auto simp: park_other_def split_beta)
  then obtain d5 where "d' = m_wr M (PARK_REQ (other self)) 0 d5"
    using assms(2) by (auto simp: park_other_def split_beta split: Option.bind_splits option.splits)
  then show ?thesis using assms(1) by (simp add: stable_simps)
qed

text \<open>
  Between two calls: page erase and fast program not armed, both locks closed, interrupts
  as the caller had them, and no parking request outstanding.
\<close>

definition flash_at_rest :: "'d machine \<Rightarrow> core \<Rightarrow> u32 \<Rightarrow> 'd \<Rightarrow> bool" where
  "flash_at_rest M self mstatus d \<longleftrightarrow>
     disarmed M d \<and> bit (val M FLASH_CTLR d) 7 \<and> bit (val M FLASH_CTLR d) 15 \<and>
     val M MSTATUS d = mstatus \<and> val M (PARK_REQ (other self)) d = 0"

lemma lock_at_rest:
  assumes "ctlr_ok M" "stable M MSTATUS" "stable M (PARK_REQ (other self))"
    and "disarmed M d" "val M MSTATUS d = mstatus"
  shows "flash_at_rest M self mstatus (unpark_other M self (flash_ll_lock M d))"
  using assms(2-5) m_set_words(1) [OF assms(1,2)] ctlr_simps(3) [OF assms(1)]
  by (simp add: flash_at_rest_def unpark_other_def flash_ll_lock_def disarmed_def flash_bits stable_simps)

lemma unlock_disarmed:
  assumes "ctlr_ok M" "stable M MSTATUS"
  shows "disarmed M (flash_ll_unlock M d) = disarmed M d" "val M MSTATUS (flash_ll_unlock M d) = val M MSTATUS d"
  using disarmed_simps(1) [OF assms(1)] assms(2) by (simp_all add: flash_ll_unlock_def stable_simps)

lemma read_at_rest:
  assumes "ctlr_ok M" "stable M MSTATUS" "stable M (PARK_REQ (other self))"
  shows "flash_at_rest M self mstatus (snd (m_rd M r d)) = flash_at_rest M self mstatus d"
    "flash_at_rest M self mstatus (snd (flash_read M a n d)) = flash_at_rest M self mstatus d"
proof -
  show *: "flash_at_rest M self mstatus (snd (m_rd M r d)) = flash_at_rest M self mstatus d" for r d
    using ctlr_simps(4) [OF assms(1)] assms(2,3)
    by (simp add: flash_at_rest_def disarmed_def stable_simps)
  show "flash_at_rest M self mstatus (snd (flash_read M a n d)) = flash_at_rest M self mstatus d"
    by (induction n arbitrary: a d) (simp_all add: split_beta *)
qed

text \<open>A parked stretch of work: it ends at rest whatever the work did.\<close>

lemma parked_work_at_rest:
  assumes hyp: "ctlr_ok M" "stable M MSTATUS" "stable M (PARK_REQ (other self))"
    and rest: "flash_at_rest M self mstatus d" and p: "park_other M self t d = Some (parked, d1)"
  shows "\<not> parked \<Longrightarrow> flash_at_rest M self mstatus d1"
    and "flash_words M d2 = flash_words M (flash_ll_unlock M d1) \<Longrightarrow>
      flash_at_rest M self mstatus (unpark_other M self (flash_ll_lock M d2))"
    and "disarmed M (flash_ll_unlock M d1)"
proof -
  note w = park_words [OF hyp(1,2) p]
  have w1: "disarmed M d1" "val M MSTATUS d1 = mstatus"
    using rest flash_words_eq(2,3) [OF w] by (simp_all add: flash_at_rest_def)
  show "\<not> parked \<Longrightarrow> flash_at_rest M self mstatus d1"
    using park_req_withdrawn [OF hyp(3)] p w1 rest flash_words_eq(1) [OF w] by (auto simp: flash_at_rest_def)
  show u: "disarmed M (flash_ll_unlock M d1)" using w1 unlock_disarmed(1) [OF hyp(1,2)] by simp
  assume e: "flash_words M d2 = flash_words M (flash_ll_unlock M d1)"
  show "flash_at_rest M self mstatus (unpark_other M self (flash_ll_lock M d2))"
    using lock_at_rest [OF hyp] u w1 unlock_disarmed(2) [OF hyp(1,2)] flash_words_eq(2,3) [OF e] by simp
qed

lemma flash_erase_at_rest:
  assumes hyp: "ctlr_ok M" "stable M MSTATUS" "stable M (PARK_REQ (other self))"
    and rest: "flash_at_rest M self mstatus d" and run: "flash_erase M self addr len d = Some (ok, d')"
  shows "flash_at_rest M self mstatus d'"
proof -
  obtain page d1 where pg: "flash_page_size M d = (page, d1)" by (cases "flash_page_size M d")
  have r1: "flash_at_rest M self mstatus d1"
    using rest read_at_rest(1) [OF hyp] pg by (auto simp: flash_page_size_def split_beta)
  show ?thesis
  proof (cases "len = 0 \<or> addr mod page \<noteq> 0 \<or> len mod page \<noteq> 0")
    case True
    then show ?thesis using run pg r1 by (auto simp: flash_erase_def)
  next
    case False
    obtain parked d2 where p: "park_other M self PARK_TIMEOUT_MS d1 = Some (parked, d2)"
      using run pg False by (auto simp: flash_erase_def split: Option.bind_splits)
    note w = parked_work_at_rest [OF hyp r1 p]
    let ?n = "unat len div unat page" and ?b = "\<lambda>off. flash_ll_erase_page M (addr + off)"
    have "unat len = ?n * unat page" using False by (intro mod_0_times) simp
    note l = for_step_list [OF flash_page_size_pos [OF pg] this, of ?b "flash_ll_unlock M d2"]
    obtain ok4 d4 where r: "run_while ?b (offsets page ?n) (flash_ll_unlock M d2) = (ok4, d4)"
      by (cases "run_while ?b (offsets page ?n) (flash_ll_unlock M d2)")
    have "flash_at_rest M self mstatus (unpark_other M self (flash_ll_lock M d4))"
      using w(2) [of d4] flash_loops_words(1) [OF hyp(1,2) w(3), of addr "offsets page ?n"] r by simp
    then show ?thesis
      using run pg False p l r w(1) by (auto simp: flash_erase_def split: if_splits)
  qed
qed

lemma flash_write_at_rest:
  assumes hyp: "ctlr_ok M" "stable M MSTATUS" "stable M (PARK_REQ (other self))"
    and rest: "flash_at_rest M self mstatus d" and run: "flash_write M self addr src len d = Some (ok, d')"
  shows "flash_at_rest M self mstatus d'"
proof (cases "len = 0 \<or> addr mod word_of_nat LL_PROG_PAGE \<noteq> 0 \<or> len mod word_of_nat LL_PROG_PAGE \<noteq> 0")
  case True
  then show ?thesis using run rest by (auto simp: flash_write_def split: if_splits)
next
  case False
  obtain parked d2 where p: "park_other M self PARK_TIMEOUT_MS d = Some (parked, d2)"
    using run False by (auto simp: flash_write_def split: Option.bind_splits)
  note w = parked_work_at_rest [OF hyp rest p]
  let ?n = "unat len div LL_PROG_PAGE" and ?s = "word_of_nat LL_PROG_PAGE :: u32"
  let ?b = "\<lambda>off. flash_ll_program_page M (addr + off) (page_at src off)"
  have u: "unat ?s = LL_PROG_PAGE" "0 < unat ?s" by (simp_all add: LL_PROG_PAGE_def)
  have "unat len = ?n * unat ?s" using mod_0_times [of len ?s] False u(1) by simp
  note l = for_step_list [OF u(2) this, of ?b "flash_ll_unlock M d2"]
  obtain ok4 d4 where r: "run_while ?b (offsets ?s ?n) (flash_ll_unlock M d2) = (ok4, d4)"
    by (cases "run_while ?b (offsets ?s ?n) (flash_ll_unlock M d2)")
  let ?d5 = "unpark_other M self (flash_ll_lock M d4)"
  have r5: "flash_at_rest M self mstatus ?d5"
    using w(2) [of d4] flash_loops_words(2) [OF hyp(1,2) w(3), of addr "page_at src" "offsets ?s ?n"] r by simp
  have "d' = d2 \<and> \<not> parked \<or> d' = ?d5 \<or> d' = snd (flash_read M addr (unat len) ?d5)"
    using run False p l r by (auto simp: flash_write_def Let_def split: if_splits prod.splits)
  then show ?thesis using w(1) r5 read_at_rest(2) [OF hyp, of mstatus addr "unat len" ?d5] by auto
qed

text \<open>
  C10.  Every outcome of an erase or a write, refused, not parked, failed half way or done,
  leaves the controller at rest: page erase and fast program disarmed, both locks closed,
  the caller's interrupt enable restored, and the other core released.
\<close>

theorem flash_always_relocked:
  assumes "ctlr_ok M" "stable M MSTATUS" "stable M (PARK_REQ (other self))" "flash_at_rest M self mstatus d"
    and "flash_erase M self addr len d = Some (ok, d') \<or> flash_write M self addr src len d = Some (ok, d')"
  shows "flash_at_rest M self mstatus d'"
  using flash_erase_at_rest [OF assms(1-4)] flash_write_at_rest [OF assms(1-4)] assms(5) by blast

theorem flash_always_relocked_witness:
  "\<exists>ok d'. flash_erase flash_sim V5F 0x080E0000 0x4000 (sim_init\<lparr>regs := (\<lambda>_. 0)(FLASH_CTLR := 0x8080, MSTATUS := 8)\<rparr>)
      = Some (ok, d') \<and> flash_at_rest flash_sim V5F 8 d'"
proof -
  let ?s = "sim_init\<lparr>regs := (\<lambda>_. 0)(FLASH_CTLR := 0x8080, MSTATUS := 8)\<rparr>"
  let ?b = "\<lambda>off. flash_ll_erase_page flash_sim (0x080E0000 + off)"
  have f: "for_step ?b 8192 0x4000 0 d = Some (run_while ?b (offsets 8192 2) d)" for d
    by (rule for_step_list) simp_all
  obtain ok d' where r: "flash_erase flash_sim V5F 0x080E0000 0x4000 ?s = Some (ok, d')"
    using f by (simp add: flash_erase_def flash_sim_page flash_sim_park split_beta)
  have st: "stable flash_sim MSTATUS" "stable flash_sim (PARK_REQ (other V5F))"
    by (rule flash_sim_stable, simp)+
  have "flash_at_rest flash_sim V5F 8 ?s"
    using bit_pow_u32 [of 7] bit_pow_u32 [of 15]
    by (simp add: flash_at_rest_def disarmed_def val_def flash_sim_rd bit_and_iff bit_not_u32 bit_or_iff flash_bits)
  then show ?thesis using flash_always_relocked [OF flash_sim_ctlr st] r by blast
qed

section \<open>What the controller is told to do\<close>

text \<open>
  The commands in a sequence of register writes, as the controller takes them.  A write of
  \<open>FLASH_CTLR\<close> with page erase (1) and start (6) set erases the page addressed last, if the
  controller is unlocked; one with fast program (16) and page-program start (21) set programs
  the words stored since fast program was entered, if both locks are open.  A write with a
  lock bit closes that lock, the two keys in a row open it; leaving fast program drops the
  words stored.  The reset is one more command.
\<close>

datatype flash_cmd = Erase u32 | Program "(u32 \<times> u32) list" | Reset u32

record watch =
  w_addr :: u32
  w_buf :: "(u32 \<times> u32) list"
  w_key :: bool
  w_mkey :: bool
  w_open :: bool
  w_mopen :: bool
  w_cmds :: "flash_cmd list"

definition watch_off :: watch where
  "watch_off = \<lparr>w_addr = 0, w_buf = [], w_key = False, w_mkey = False, w_open = False, w_mopen = False, w_cmds = []\<rparr>"

definition started :: "u32 \<Rightarrow> watch \<Rightarrow> flash_cmd list" where
  "started v w =
     (if bit v 6 \<and> bit v 1 \<and> w_open w then [Erase (w_addr w)]
      else if bit v 21 \<and> bit v 16 \<and> w_open w \<and> w_mopen w then [Program (w_buf w)] else [])"

fun watch_reg :: "reg \<Rightarrow> u32 \<Rightarrow> watch \<Rightarrow> watch" where
  "watch_reg FLASH_ADDR v w = w\<lparr>w_addr := v\<rparr>"
| "watch_reg (MEM32 a) v w = w\<lparr>w_buf := w_buf w @ [(a, v)]\<rparr>"
| "watch_reg FLASH_KEYR v w = w\<lparr>w_key := v = FLASH_KEY1, w_open := w_open w \<or> (w_key w \<and> v = FLASH_KEY2)\<rparr>"
| "watch_reg FLASH_MODEKEYR v w = w\<lparr>w_mkey := v = FLASH_KEY1, w_mopen := w_mopen w \<or> (w_mkey w \<and> v = FLASH_KEY2)\<rparr>"
| "watch_reg FLASH_CTLR v w = w\<lparr>w_cmds := w_cmds w @ started v w, w_open := w_open w \<and> \<not> bit v 7,
     w_mopen := w_mopen w \<and> \<not> bit v 15, w_buf := if bit v 16 then w_buf w else []\<rparr>"
| "watch_reg PFIC_CFGR v w = w\<lparr>w_cmds := w_cmds w @ [Reset v]\<rparr>"
| "watch_reg r v w = w"

definition watch :: "('d \<Rightarrow> (reg \<times> u32) list) \<Rightarrow> 'd \<Rightarrow> watch" where
  "watch wl d = fold (\<lambda>(r, v). watch_reg r v) (wl d) watch_off"

abbreviation cmds :: "('d \<Rightarrow> (reg \<times> u32) list) \<Rightarrow> 'd \<Rightarrow> flash_cmd list" where
  "cmds wl d \<equiv> w_cmds (watch wl d)"

text \<open>
  What is relied on of the controller beyond \<open>ctlr_ok\<close>: a start bit that is not written set
  does not become set, a status that is not busy says that both have gone back to zero, and
  the four key writes open both locks.
\<close>

definition start_ok :: "'d machine \<Rightarrow> nat \<Rightarrow> bool" where
  "start_ok M n \<longleftrightarrow>
     (\<forall>v d. \<not> bit v n \<longrightarrow> \<not> bit (val M FLASH_CTLR (m_wr M FLASH_CTLR v d)) n) \<and>
     (\<forall>r v d. r \<noteq> FLASH_CTLR \<longrightarrow> \<not> bit (val M FLASH_CTLR d) n \<longrightarrow> \<not> bit (val M FLASH_CTLR (m_wr M r v d)) n) \<and>
     (\<forall>r d. \<not> bit (val M FLASH_CTLR d) n \<longrightarrow> \<not> bit (val M FLASH_CTLR (snd (m_rd M r d))) n) \<and>
     (\<forall>d. \<not> bit (val M FLASH_CTLR d) n \<longrightarrow> \<not> bit (val M FLASH_CTLR (snd (m_millis M d))) n) \<and>
     (\<forall>d. fst (m_rd M FLASH_STATR d) AND SR_BSY = 0 \<longrightarrow> \<not> bit (val M FLASH_CTLR (snd (m_rd M FLASH_STATR d))) n)"

definition start_bit :: "nat \<Rightarrow> bool" where "start_bit n \<longleftrightarrow> n = 6 \<or> n = 21"

definition flash_ctl :: "'d machine \<Rightarrow> ('d \<Rightarrow> (reg \<times> u32) list) \<Rightarrow> bool" where
  "flash_ctl M wl \<longleftrightarrow> logs M wl \<and> ctlr_ok M \<and> start_ok M 6 \<and> start_ok M 21 \<and>
     (\<forall>n d. n = 7 \<or> n = 15 \<longrightarrow> \<not> bit (val M FLASH_CTLR (m_wr M FLASH_MODEKEYR FLASH_KEY2
        (m_wr M FLASH_MODEKEYR FLASH_KEY1 (m_wr M FLASH_KEYR FLASH_KEY2 (m_wr M FLASH_KEYR FLASH_KEY1 d))))) n)"

text \<open>Between two calls: nothing armed, nothing started, no words waiting.\<close>

definition flash_idle :: "'d machine \<Rightarrow> ('d \<Rightarrow> (reg \<times> u32) list) \<Rightarrow> 'd \<Rightarrow> bool" where
  "flash_idle M wl d \<longleftrightarrow> disarmed M d \<and> \<not> bit (val M FLASH_CTLR d) 6 \<and> \<not> bit (val M FLASH_CTLR d) 21 \<and>
     w_buf (watch wl d) = []"

text \<open>
  Between the unlock and the lock: page erase \<open>p\<close>, fast program \<open>g\<close>, both locks open, with
  \<open>q\<close> no start bit set, and \<open>w\<close> what the controller has been told.
\<close>

definition ctl :: "'d machine \<Rightarrow> ('d \<Rightarrow> (reg \<times> u32) list) \<Rightarrow> 'd \<Rightarrow> bool \<Rightarrow> bool \<Rightarrow> bool \<Rightarrow> watch \<Rightarrow> bool" where
  "ctl M wl d p g q w \<longleftrightarrow> bit (val M FLASH_CTLR d) 1 = p \<and> bit (val M FLASH_CTLR d) 16 = g \<and>
     \<not> bit (val M FLASH_CTLR d) 7 \<and> \<not> bit (val M FLASH_CTLR d) 15 \<and>
     (q \<longrightarrow> \<not> bit (val M FLASH_CTLR d) 6 \<and> \<not> bit (val M FLASH_CTLR d) 21) \<and>
     watch wl d = w \<and> w_open w \<and> w_mopen w"

lemma start_bits [simp]: "start_bit 6" "start_bit 21"
  by (simp_all add: start_bit_def)

lemma flash_ctl_ok: "flash_ctl M wl \<Longrightarrow> ctlr_ok M" "flash_ctl M wl \<Longrightarrow> logs M wl"
  by (simp_all add: flash_ctl_def)

lemma start_simps:
  assumes "flash_ctl M wl" "start_bit n"
  shows "\<not> bit v n \<Longrightarrow> \<not> bit (val M FLASH_CTLR (m_wr M FLASH_CTLR v d)) n"
    "r \<noteq> FLASH_CTLR \<Longrightarrow> \<not> bit (val M FLASH_CTLR d) n \<Longrightarrow> \<not> bit (val M FLASH_CTLR (m_wr M r v d)) n"
    "\<not> bit (val M FLASH_CTLR d) n \<Longrightarrow> \<not> bit (val M FLASH_CTLR (snd (m_rd M r d))) n"
    "\<not> bit (val M FLASH_CTLR d) n \<Longrightarrow> \<not> bit (val M FLASH_CTLR (snd (m_millis M d))) n"
    "fst (m_rd M FLASH_STATR d) AND SR_BSY = 0 \<Longrightarrow> \<not> bit (val M FLASH_CTLR (snd (m_rd M FLASH_STATR d))) n"
proof -
  have "start_ok M n" using assms by (auto simp: flash_ctl_def start_bit_def)
  then show "\<not> bit v n \<Longrightarrow> \<not> bit (val M FLASH_CTLR (m_wr M FLASH_CTLR v d)) n"
    "r \<noteq> FLASH_CTLR \<Longrightarrow> \<not> bit (val M FLASH_CTLR d) n \<Longrightarrow> \<not> bit (val M FLASH_CTLR (m_wr M r v d)) n"
    "\<not> bit (val M FLASH_CTLR d) n \<Longrightarrow> \<not> bit (val M FLASH_CTLR (snd (m_rd M r d))) n"
    "\<not> bit (val M FLASH_CTLR d) n \<Longrightarrow> \<not> bit (val M FLASH_CTLR (snd (m_millis M d))) n"
    "fst (m_rd M FLASH_STATR d) AND SR_BSY = 0 \<Longrightarrow> \<not> bit (val M FLASH_CTLR (snd (m_rd M FLASH_STATR d))) n"
    by (simp_all add: start_ok_def)
qed

lemma watch_simps:
  assumes "logs M wl"
  shows "watch wl (m_wr M r v d) = watch_reg r v (watch wl d)" "watch wl (snd (m_rd M r d)) = watch wl d"
    "watch wl (snd (m_millis M d)) = watch wl d"
    "watch wl (m_or M r v d) = watch_reg r (val M r d OR v) (watch wl d)"
    "watch wl (m_and M r v d) = watch_reg r (val M r d AND v) (watch wl d)"
  by (simp_all add: watch_def logs_simps [OF assms])

subsection \<open>The accesses of the two page operations\<close>

lemma ctl_rd: "flash_ctl M wl \<Longrightarrow> ctl M wl d p g q w \<Longrightarrow> ctl M wl (snd (m_rd M r d)) p g q w"
  using start_simps(3) [of M wl]
  by (auto simp: ctl_def watch_simps [OF flash_ctl_ok(2)] ctlr_simps(4) [OF flash_ctl_ok(1)])

lemma ctl_wr:
  assumes "flash_ctl M wl" "ctl M wl d p g q w" "r \<notin> {FLASH_CTLR, FLASH_KEYR, FLASH_MODEKEYR}"
  shows "ctl M wl (m_wr M r v d) p g q (watch_reg r v w)"
proof -
  have "w_open (watch_reg r v w) = w_open w" "w_mopen (watch_reg r v w) = w_mopen w"
    using assms(3) by (cases r; simp)+
  moreover have "bit (val M FLASH_CTLR (m_wr M r v d)) n = bit (val M FLASH_CTLR d) n" if "ctlr_bits n" for n
    using ctlr_simps(3) [OF flash_ctl_ok(1) [OF assms(1)] that] assms(3) by simp
  moreover have "\<not> bit (val M FLASH_CTLR (m_wr M r v d)) n" if "start_bit n" "\<not> bit (val M FLASH_CTLR d) n" for n
    using start_simps(2) [OF assms(1) that(1) _ that(2)] assms(3) by simp
  moreover have "watch wl (m_wr M r v d) = watch_reg r v (watch wl d)"
    by (rule watch_simps(1) [OF flash_ctl_ok(2) [OF assms(1)]])
  ultimately show ?thesis using assms(2) by (auto simp: ctl_def)
qed

lemma ctl_wait: "flash_ctl M wl \<Longrightarrow> ctl M wl d p g q w \<Longrightarrow> ctl M wl (snd (wait_clear M b n d)) p g q w"
  by (rule wait_keeps [where P = "\<lambda>d. ctl M wl d p g q w"]) (rule ctl_rd)

lemma ctl_not_busy:
  "flash_ctl M wl \<Longrightarrow> ctl M wl d p g q w \<Longrightarrow> wait_clear M SR_BSY n d = (True, d') \<Longrightarrow> ctl M wl d' p g True w"
proof (induction n arbitrary: d)
  case (Suc n)
  obtain v d1 where r: "m_rd M FLASH_STATR d = (v, d1)" by (cases "m_rd M FLASH_STATR d")
  have c: "ctl M wl d1 p g q w" using ctl_rd [OF Suc.prems(1,2), of FLASH_STATR] r by simp
  show ?case
  proof (cases "v AND SR_BSY = 0")
    case True
    then have "\<not> bit (val M FLASH_CTLR d1) 6" "\<not> bit (val M FLASH_CTLR d1) 21"
      using start_simps(5) [OF Suc.prems(1), of _ d] r by simp_all
    then show ?thesis using c Suc.prems(3) r True by (simp add: ctl_def)
  next
    case False
    then show ?thesis using Suc.IH [OF Suc.prems(1) c] Suc.prems(3) r by simp
  qed
qed (simp split: prod.splits)

lemma ctl_bsy:
  assumes "flash_ctl M wl" "ctl M wl d p g q w" "wait_bsy M d = (ok, d')"
  shows "ctl M wl d' p g (q \<or> ok) w"
proof (cases ok)
  case True
  then show ?thesis using ctl_not_busy [OF assms(1,2)] assms(3) by (simp add: wait_bsy_def)
next
  case False
  then show ?thesis using ctl_wait [OF assms(1,2), of SR_BSY SPIN_LIMIT] assms(3) by (simp add: wait_bsy_def)
qed

lemma ctl_wrb: "flash_ctl M wl \<Longrightarrow> ctl M wl d p g q w \<Longrightarrow> wait_wr M d = (ok, d') \<Longrightarrow> ctl M wl d' p g q w"
  using ctl_wait [of M wl d p g q w SR_WR_BSY SPIN_LIMIT] by (simp add: wait_wr_def)

lemma ctl_irq:
  assumes "flash_ctl M wl" "ctl M wl d p g q w"
  shows "ctl M wl (snd (irq_mask M d)) p g q w" "ctl M wl (irq_restore M prev d) p g q w"
proof -
  have "ctl M wl (m_wr M MSTATUS v (snd (m_rd M MSTATUS d))) p g q w" for v
    using ctl_wr [OF assms(1) ctl_rd [OF assms], of MSTATUS v] by simp
  then show "ctl M wl (snd (irq_mask M d)) p g q w" "ctl M wl (irq_restore M prev d) p g q w"
    using assms(2) by (simp_all add: irq_mask_def irq_restore_def m_or_def split_beta)
qed

text \<open>A read-modify-write of the control register.\<close>

lemma ctl_set:
  assumes F: "flash_ctl M wl" and c: "ctl M wl d p g q w" and x: "\<not> bit x 7" "\<not> bit x 15"
  shows "ctl M wl (m_or M FLASH_CTLR x d) (p \<or> bit x 1) (g \<or> bit x 16) (q \<and> \<not> bit x 6 \<and> \<not> bit x 21)
    (watch_reg FLASH_CTLR (val M FLASH_CTLR d OR x) w)"
proof -
  note F' = flash_ctl_ok [OF F]
  have "\<not> bit (val M FLASH_CTLR (m_or M FLASH_CTLR x d)) n"
    if "start_bit n" "\<not> bit (val M FLASH_CTLR d) n" "\<not> bit x n" for n
    unfolding m_or_eq by (rule start_simps(1) [OF F that(1)]) (use that in \<open>simp add: bit_or_iff\<close>)
  then show ?thesis using c x m_or_ctlr(1) [OF F'(1)]
    by (auto simp: ctl_def watch_simps [OF F'(2)] bit_or_iff)
qed

lemma ctl_clear:
  assumes F: "flash_ctl M wl" and c: "ctl M wl d p g q w"
  shows "ctl M wl (m_and M FLASH_CTLR (NOT x) d) (p \<and> \<not> bit x 1) (g \<and> \<not> bit x 16) q
    (watch_reg FLASH_CTLR (val M FLASH_CTLR d AND NOT x) w)"
proof -
  note F' = flash_ctl_ok [OF F]
  have "\<not> bit (val M FLASH_CTLR (m_and M FLASH_CTLR (NOT x) d)) n" if "start_bit n" "\<not> bit (val M FLASH_CTLR d) n" for n
    unfolding m_and_eq by (rule start_simps(1) [OF F that(1)]) (use that in \<open>simp add: bit_and_iff\<close>)
  then show ?thesis using c m_or_ctlr(2) [OF F'(1)]
    by (auto simp: ctl_def watch_simps [OF F'(2)] bit_and_iff bit_not_u32)
qed

text \<open>The six such writes of the driver.\<close>

lemma ctl_per:
  assumes "flash_ctl M wl" "ctl M wl d False False True w" "w_buf w = []"
  shows "ctl M wl (m_or M FLASH_CTLR CR_PER_Set d) True False True w"
proof -
  have "watch_reg FLASH_CTLR (val M FLASH_CTLR d OR CR_PER_Set) w = w"
    using assms(2,3) by (simp add: ctl_def started_def bit_or_iff flash_bits)
  then show ?thesis using ctl_set [OF assms(1,2), of CR_PER_Set] by (simp add: flash_bits)
qed

lemma ctl_strt:
  assumes "flash_ctl M wl" "ctl M wl d True False q w" "w_buf w = []"
  shows "ctl M wl (m_or M FLASH_CTLR CR_STRT_Set d) True False False (w\<lparr>w_cmds := w_cmds w @ [Erase (w_addr w)]\<rparr>)"
proof -
  have "watch_reg FLASH_CTLR (val M FLASH_CTLR d OR CR_STRT_Set) w = w\<lparr>w_cmds := w_cmds w @ [Erase (w_addr w)]\<rparr>"
    using assms(2,3) by (simp add: ctl_def started_def bit_or_iff flash_bits)
  then show ?thesis using ctl_set [OF assms(1,2), of CR_STRT_Set] by (simp add: flash_bits)
qed

lemma ctl_unper:
  assumes "flash_ctl M wl" "ctl M wl d True False q w" "w_buf w = []"
  shows "ctl M wl (m_and M FLASH_CTLR (NOT CR_PER_Set) d) False False q w"
proof -
  have "watch_reg FLASH_CTLR (val M FLASH_CTLR d AND NOT CR_PER_Set) w = w"
    using assms(2,3) by (simp add: ctl_def started_def bit_and_iff bit_not_u32 flash_bits)
  then show ?thesis using ctl_clear [OF assms(1,2), of CR_PER_Set] by (simp add: flash_bits)
qed

lemma ctl_pg:
  assumes "flash_ctl M wl" "ctl M wl d False False True w"
  shows "ctl M wl (m_or M FLASH_CTLR CR_PAGE_PG d) False True True w"
proof -
  have "watch_reg FLASH_CTLR (val M FLASH_CTLR d OR CR_PAGE_PG) w = w"
    using assms(2) by (simp add: ctl_def started_def bit_or_iff flash_bits)
  then show ?thesis using ctl_set [OF assms(1,2), of CR_PAGE_PG] by (simp add: flash_bits)
qed

lemma ctl_pgstrt:
  assumes "flash_ctl M wl" "ctl M wl d False True q w"
  shows "ctl M wl (m_or M FLASH_CTLR CR_PG_STRT d) False True False (w\<lparr>w_cmds := w_cmds w @ [Program (w_buf w)]\<rparr>)"
proof -
  have "watch_reg FLASH_CTLR (val M FLASH_CTLR d OR CR_PG_STRT) w = w\<lparr>w_cmds := w_cmds w @ [Program (w_buf w)]\<rparr>"
    using assms(2) by (simp add: ctl_def started_def bit_or_iff flash_bits)
  then show ?thesis using ctl_set [OF assms(1,2), of CR_PG_STRT] by (simp add: flash_bits)
qed

lemma ctl_unpg:
  assumes "flash_ctl M wl" "ctl M wl d False True q w"
  shows "ctl M wl (m_and M FLASH_CTLR (NOT CR_PAGE_PG) d) False False q (w\<lparr>w_buf := []\<rparr>)"
proof -
  have "watch_reg FLASH_CTLR (val M FLASH_CTLR d AND NOT CR_PAGE_PG) w = w\<lparr>w_buf := []\<rparr>"
    using assms(2) by (simp add: ctl_def started_def bit_and_iff bit_not_u32 flash_bits)
  then show ?thesis using ctl_clear [OF assms(1,2), of CR_PAGE_PG] by (simp add: flash_bits)
qed

subsection \<open>Page operations and loops of them\<close>

definition flash_ready :: "'d machine \<Rightarrow> ('d \<Rightarrow> (reg \<times> u32) list) \<Rightarrow> 'd \<Rightarrow> bool" where
  "flash_ready M wl d \<longleftrightarrow> ctl M wl d False False True (watch wl d) \<and> w_buf (watch wl d) = []"

definition flash_halted :: "'d machine \<Rightarrow> ('d \<Rightarrow> (reg \<times> u32) list) \<Rightarrow> 'd \<Rightarrow> bool" where
  "flash_halted M wl d \<longleftrightarrow> disarmed M d \<and> w_buf (watch wl d) = []"

lemma ctl_watch: "ctl M wl d p g q w \<Longrightarrow> watch wl d = w"
  by (simp add: ctl_def)

lemma ctl_ready: "ctl M wl d False False q w \<Longrightarrow> w_buf w = [] \<Longrightarrow> flash_halted M wl d \<and> (q \<longrightarrow> flash_ready M wl d)"
  by (auto simp: ctl_def flash_halted_def flash_ready_def disarmed_def)

text \<open>
  A piece of work that gives the controller an initial part of the commands \<open>es\<close>, all of
  them when it succeeds, and then leaves it ready for more.
\<close>

definition emits :: "'d machine \<Rightarrow> ('d \<Rightarrow> (reg \<times> u32) list) \<Rightarrow> flash_cmd list \<Rightarrow> 'd \<Rightarrow> bool \<times> 'd \<Rightarrow> bool" where
  "emits M wl es d r \<longleftrightarrow> flash_halted M wl (snd r) \<and>
     (\<exists>xs. cmds wl (snd r) = cmds wl d @ xs \<and> prefix xs es \<and> (fst r \<longrightarrow> xs = es \<and> flash_ready M wl (snd r)))"

lemma run_while_emits:
  assumes "\<And>x d. flash_ready M wl d \<Longrightarrow> emits M wl (f x) d (body x d)" "flash_ready M wl d"
  shows "emits M wl (concat (map f xs)) d (run_while body xs d)"
  using assms(2)
proof (induction xs arbitrary: d)
  case Nil
  then show ?case by (auto simp: emits_def flash_ready_def flash_halted_def ctl_def disarmed_def)
next
  case (Cons x xs)
  obtain ok d1 where b: "body x d = (ok, d1)" by (cases "body x d")
  obtain es where es: "cmds wl d1 = cmds wl d @ es" "prefix es (f x)" "ok \<longrightarrow> es = f x \<and> flash_ready M wl d1"
      "flash_halted M wl d1"
    using assms(1) [OF Cons.prems, of x] b by (auto simp: emits_def)
  show ?case
  proof (cases ok)
    case True
    then show ?thesis using es b Cons.IH [of d1] by (auto simp: emits_def)
  next
    case False
    have "prefix es (concat (map f (x # xs)))" using es(2) by (simp add: prefix_prefix)
    then show ?thesis using es False b by (auto simp: emits_def)
  qed
qed

lemma erase_page_emits:
  assumes F: "flash_ctl M wl" and d: "flash_ready M wl d"
  shows "emits M wl [Erase a] d (flash_ll_erase_page M a d)"
proof -
  let ?w = "watch wl d"
  have c: "ctl M wl d False False True ?w" "w_buf ?w = []" using d by (simp_all add: flash_ready_def)
  obtain prev d1 where 1: "irq_mask M d = (prev, d1)" by (cases "irq_mask M d")
  have c1: "ctl M wl d1 False False True ?w" using ctl_irq(1) [OF F c(1)] 1 by simp
  obtain ok d2 where 2: "wait_bsy M d1 = (ok, d2)" by (cases "wait_bsy M d1")
  have c2: "ctl M wl d2 False False True ?w" using ctl_bsy [OF F c1 2] by simp
  show ?thesis
  proof (cases ok)
    case False
    have c': "ctl M wl (irq_restore M prev d2) False False True ?w" by (rule ctl_irq(2) [OF F c2])
    then show ?thesis using 1 2 False ctl_ready [OF c' c(2)] ctl_watch [OF c']
      by (simp add: flash_ll_erase_page_def emits_def)
  next
    case True
    let ?d3 = "do_all [m_or M FLASH_CTLR CR_PER_Set, m_wr M FLASH_ADDR a, m_or M FLASH_CTLR CR_STRT_Set] d2"
    let ?wa = "?w\<lparr>w_addr := a\<rparr>" and ?wc = "?w\<lparr>w_addr := a, w_cmds := w_cmds ?w @ [Erase a]\<rparr>"
    have "ctl M wl (m_wr M FLASH_ADDR a (m_or M FLASH_CTLR CR_PER_Set d2)) True False True ?wa"
      using ctl_wr [OF F ctl_per [OF F c2 c(2)], of FLASH_ADDR a] by simp
    then have "ctl M wl ?d3 True False False ?wc" using ctl_strt [OF F, of _ True ?wa] c(2) by simp
    moreover obtain ok4 d4 where 4: "wait_bsy M ?d3 = (ok4, d4)" by (cases "wait_bsy M ?d3")
    ultimately have c4: "ctl M wl d4 True False ok4 ?wc" using ctl_bsy [OF F] by fastforce
    have "ctl M wl (irq_restore M prev (m_and M FLASH_CTLR (NOT CR_PER_Set) d4)) False False ok4 ?wc"
      by (rule ctl_irq(2) [OF F ctl_unper [OF F c4]]) (simp add: c(2))
    moreover have "flash_ll_erase_page M a d = (ok4, irq_restore M prev (m_and M FLASH_CTLR (NOT CR_PER_Set) d4))"
      using 1 2 4 True by (simp add: flash_ll_erase_page_def)
    ultimately show ?thesis using ctl_ready [of M wl _ ok4 ?wc] c(2)
      by (auto simp: emits_def ctl_watch)
  qed
qed

text \<open>The stores of one page: addresses and words.\<close>

fun page_words :: "u32 \<Rightarrow> nat \<Rightarrow> u32 list \<Rightarrow> (u32 \<times> u32) list" where
  "page_words addr i [] = []"
| "page_words addr i (w # ws) = (addr + word_of_nat i * 4, w) # page_words addr (Suc i) ws"

lemma prog_words_ctl:
  assumes F: "flash_ctl M wl" and "ctl M wl d False True q w" "prog_words M a i ws d = (ok, d')"
  shows "\<exists>xs. ctl M wl d' False True q (w\<lparr>w_buf := w_buf w @ xs\<rparr>) \<and> (ok \<longrightarrow> xs = page_words a i ws)"
  using assms(2,3)
proof (induction ws arbitrary: i d w)
  case Nil
  then show ?case by (intro exI [of _ "[]"]) simp
next
  case (Cons v ws)
  let ?q = "a + word_of_nat i * 4"
  let ?w = "w\<lparr>w_buf := w_buf w @ [(?q, v)]\<rparr>"
  have "ctl M wl (m_wr M (MEM32 ?q) v d) False True q ?w"
    using ctl_wr [OF F Cons.prems(1), of "MEM32 ?q" v] by simp
  moreover obtain ok1 d1 where 1: "wait_wr M (m_wr M (MEM32 ?q) v d) = (ok1, d1)"
    by (cases "wait_wr M (m_wr M (MEM32 ?q) v d)")
  ultimately have c: "ctl M wl d1 False True q ?w" using ctl_wrb [OF F] by blast
  show ?case
  proof (cases ok1)
    case True
    then have "prog_words M a (Suc i) ws d1 = (ok, d')" using Cons.prems(2) 1 by simp
    from Cons.IH [OF c this] obtain xs where
      "ctl M wl d' False True q (?w\<lparr>w_buf := w_buf ?w @ xs\<rparr>)" "ok \<longrightarrow> xs = page_words a (Suc i) ws" by blast
    then show ?thesis by (intro exI [of _ "(?q, v) # xs"]) simp
  next
    case False
    then show ?thesis using Cons.prems(2) 1 c by (intro exI [of _ "[(?q, v)]"]) simp
  qed
qed

abbreviation page_program :: "u32 \<Rightarrow> u32 list \<Rightarrow> flash_cmd" where
  "page_program a ws \<equiv> Program (page_words a 0 (take (LL_PROG_PAGE div 4) ws))"

lemma program_page_emits:
  assumes F: "flash_ctl M wl" and d: "flash_ready M wl d"
  shows "emits M wl [page_program a ws] d (flash_ll_program_page M a ws d)"
proof -
  let ?w = "watch wl d" and ?ws = "take (LL_PROG_PAGE div 4) ws"
  have c: "ctl M wl d False False True ?w" "w_buf ?w = []" using d by (simp_all add: flash_ready_def)
  obtain prev d1 where 1: "irq_mask M d = (prev, d1)" by (cases "irq_mask M d")
  let ?d1 = "m_or M FLASH_CTLR CR_PAGE_PG d1"
  have "ctl M wl d1 False False True ?w" using ctl_irq(1) [OF F c(1)] 1 by simp
  then have c1: "ctl M wl ?d1 False True True ?w" by (rule ctl_pg [OF F])
  obtain ok2 d2 where 2: "wait_bsy M ?d1 = (ok2, d2)" by (cases "wait_bsy M ?d1")
  have c2: "ctl M wl d2 False True True ?w" using ctl_bsy [OF F c1 2] by simp
  obtain ok3 d3 where 3: "(if ok2 then wait_wr M d2 else (False, d2)) = (ok3, d3)"
    by (cases "if ok2 then wait_wr M d2 else (False, d2)")
  have c3: "ctl M wl d3 False True True ?w" using 3 c2 ctl_wrb [OF F c2] by (auto split: if_splits)
  obtain ok4 d4 where 4: "(if ok3 then prog_words M a 0 ?ws d3 else (False, d3)) = (ok4, d4)"
    by (cases "if ok3 then prog_words M a 0 ?ws d3 else (False, d3)")
  obtain xs where c4: "ctl M wl d4 False True True (?w\<lparr>w_buf := xs\<rparr>)" "ok4 \<longrightarrow> xs = page_words a 0 ?ws"
  proof (cases ok3)
    case True
    then show ?thesis using that prog_words_ctl [OF F c3, of a 0 ?ws ok4 d4] 4 c(2) by auto
  next
    case False
    then show ?thesis using that [of "w_buf ?w"] 4 c3 by simp
  qed
  let ?d4 = "m_or M FLASH_CTLR CR_PG_STRT d4"
  obtain ok5 d5 where 5: "(if ok4 then wait_bsy M ?d4 else (False, d4)) = (ok5, d5)"
    by (cases "if ok4 then wait_bsy M ?d4 else (False, d4)")
  let ?es = "if ok4 then [page_program a ws] else []"
  have c5: "ctl M wl d5 False True ok5 (?w\<lparr>w_buf := xs, w_cmds := w_cmds ?w @ ?es\<rparr>)"
  proof (cases ok4)
    case True
    have "ctl M wl ?d4 False True False (?w\<lparr>w_buf := xs, w_cmds := w_cmds ?w @ ?es\<rparr>)"
      using ctl_pgstrt [OF F c4(1)] c4(2) True by simp
    then show ?thesis using ctl_bsy [OF F, of ?d4 False True False] 5 True by fastforce
  next
    case False
    then show ?thesis using 5 c4(1) by (simp add: ctl_def)
  qed
  let ?d6 = "irq_restore M prev (m_and M FLASH_CTLR (NOT CR_PAGE_PG) d5)"
  have c6: "ctl M wl ?d6 False False ok5 (?w\<lparr>w_cmds := w_cmds ?w @ ?es, w_buf := []\<rparr>)"
    using ctl_irq(2) [OF F ctl_unpg [OF F c5], of prev] by (cases ok4) simp_all
  have "flash_ll_program_page M a ws d = (ok5, ?d6)" "ok5 \<longrightarrow> ok4"
    using 1 2 3 4 5 by (auto simp: flash_ll_program_page_def split: if_splits)
  then show ?thesis using ctl_ready [OF c6] ctl_watch [OF c6] by (auto simp: emits_def)
qed

text \<open>The commands of a range.\<close>

definition erases :: "u32 \<Rightarrow> u32 \<Rightarrow> nat \<Rightarrow> flash_cmd list" where
  "erases addr page n = map (\<lambda>i. Erase (addr + word_of_nat i * page)) [0..<n]"

definition programs :: "u32 \<Rightarrow> u8 list \<Rightarrow> nat \<Rightarrow> flash_cmd list" where
  "programs addr src n =
     map (\<lambda>off. page_program (addr + off) (page_at src off)) (offsets (word_of_nat LL_PROG_PAGE) n)"

lemma erase_loop_emits:
  assumes "flash_ctl M wl" "flash_ready M wl d"
  shows "emits M wl (erases addr page n) d (run_while (\<lambda>off. flash_ll_erase_page M (addr + off)) (offsets page n) d)"
proof -
  have "erases addr page n = concat (map (\<lambda>off. [Erase (addr + off)]) (offsets page n))"
    by (simp add: erases_def offsets_def comp_def)
  then show ?thesis
    using run_while_emits [OF _ assms(2), where f = "\<lambda>off. [Erase (addr + off)]"] erase_page_emits [OF assms(1)] by simp
qed

lemma program_loop_emits:
  assumes "flash_ctl M wl" "flash_ready M wl d"
  shows "emits M wl (programs addr src n) d (run_while (\<lambda>off. flash_ll_program_page M (addr + off) (page_at src off))
       (offsets (word_of_nat LL_PROG_PAGE) n) d)"
proof -
  have "programs addr src n = concat (map (\<lambda>off. [page_program (addr + off) (page_at src off)])
      (offsets (word_of_nat LL_PROG_PAGE) n))"
    by (simp add: programs_def)
  then show ?thesis
    using run_while_emits [OF _ assms(2), where f = "\<lambda>off. [page_program (addr + off) (page_at src off)]"]
      program_page_emits [OF assms(1)] by simp
qed

subsection \<open>Unlocking, locking and the wait for the other core\<close>

lemma unlock_ready:
  assumes F: "flash_ctl M wl" and i: "flash_idle M wl d"
  shows "flash_ready M wl (flash_ll_unlock M d)" "cmds wl (flash_ll_unlock M d) = cmds wl d"
proof -
  let ?d = "flash_ll_unlock M d" and ?w = "watch wl d"
  note F' = flash_ctl_ok [OF F]
  have w: "watch wl ?d = ?w\<lparr>w_key := False, w_mkey := False, w_open := True, w_mopen := True\<rparr>"
    by (simp add: flash_ll_unlock_def watch_simps [OF F'(2)] FLASH_KEY1_def FLASH_KEY2_def)
  have "disarmed M ?d" using i by (simp add: flash_idle_def flash_ll_unlock_def disarmed_simps [OF F'(1)])
  moreover have "\<not> bit (val M FLASH_CTLR ?d) n" if "start_bit n" "\<not> bit (val M FLASH_CTLR d) n" for n
    unfolding flash_ll_unlock_def by simp (intro start_simps(2) [OF F that(1)] that(2), simp_all)
  then have "\<not> bit (val M FLASH_CTLR ?d) 6" "\<not> bit (val M FLASH_CTLR ?d) 21" using i by (simp_all add: flash_idle_def)
  moreover have "\<not> bit (val M FLASH_CTLR ?d) 7" "\<not> bit (val M FLASH_CTLR ?d) 15"
    using F by (simp_all add: flash_ctl_def flash_ll_unlock_def)
  ultimately show "flash_ready M wl ?d" using i by (simp add: flash_ready_def ctl_def w disarmed_def flash_idle_def)
  show "cmds wl ?d = cmds wl d" by (simp add: w)
qed

lemma halted_keeps:
  assumes F: "flash_ctl M wl" and h: "flash_halted M wl d" and n: "start_bit n \<longrightarrow> \<not> bit x n" "\<not> bit x 1" "\<not> bit x 16"
  shows "flash_halted M wl (m_or M FLASH_CTLR x d)" "cmds wl (m_or M FLASH_CTLR x d) = cmds wl d"
proof -
  note F' = flash_ctl_ok [OF F]
  show "flash_halted M wl (m_or M FLASH_CTLR x d)"
    using h n(2,3) m_or_ctlr(1) [OF F'(1)]
    by (auto simp: flash_halted_def disarmed_def watch_simps [OF F'(2)] bit_or_iff)
  show "cmds wl (m_or M FLASH_CTLR x d) = cmds wl d"
    using h n(2,3) by (simp add: flash_halted_def disarmed_def watch_simps [OF F'(2)] started_def bit_or_iff)
qed

lemma lock_halted:
  assumes F: "flash_ctl M wl" and h: "flash_halted M wl d"
  shows "flash_halted M wl (flash_ll_lock M d)" "cmds wl (flash_ll_lock M d) = cmds wl d"
    "flash_ready M wl d \<Longrightarrow> flash_idle M wl (flash_ll_lock M d)"
proof -
  have x: "\<not> bit CR_FLOCK_Set 1" "\<not> bit CR_FLOCK_Set 16" "\<not> bit CR_LOCK_Set 1" "\<not> bit CR_LOCK_Set 16"
    "start_bit n \<longrightarrow> \<not> bit CR_FLOCK_Set n" "start_bit n \<longrightarrow> \<not> bit CR_LOCK_Set n" for n
    by (simp_all add: flash_bits start_bit_def)
  note 1 = halted_keeps [OF F h x(5,1,2)]
  note 2 = halted_keeps [OF F 1(1) x(6,3,4)]
  show h2: "flash_halted M wl (flash_ll_lock M d)" and "cmds wl (flash_ll_lock M d) = cmds wl d"
    using 1(2) 2 by (simp_all add: flash_ll_lock_def)
  assume r: "flash_ready M wl d"
  have o: "\<not> bit (val M FLASH_CTLR (m_or M FLASH_CTLR y c)) n"
    if "start_bit n" "\<not> bit (val M FLASH_CTLR c) n" "\<not> bit y n" for n y c
    unfolding m_or_eq by (rule start_simps(1) [OF F that(1)]) (use that in \<open>simp add: bit_or_iff\<close>)
  have "\<not> bit (val M FLASH_CTLR (flash_ll_lock M d)) n" if "start_bit n" "\<not> bit (val M FLASH_CTLR d) n" for n
    unfolding flash_ll_lock_def using x(5,6) [of n] that by (simp add: o)
  then show "flash_idle M wl (flash_ll_lock M d)"
    using r h2 by (simp add: flash_idle_def flash_halted_def flash_ready_def ctl_def)
qed

text \<open>Accesses that concern neither the control register nor the commands.\<close>

definition calm :: "'d machine \<Rightarrow> ('d \<Rightarrow> (reg \<times> u32) list) \<Rightarrow> 'd \<Rightarrow> 'd \<Rightarrow> bool" where
  "calm M wl d d' \<longleftrightarrow> watch wl d' = watch wl d \<and> disarmed M d' = disarmed M d \<and> (flash_idle M wl d \<longrightarrow> flash_idle M wl d')"

lemma calm_steps:
  assumes F: "flash_ctl M wl"
  shows "calm M wl d d1 \<Longrightarrow> calm M wl d (snd (m_rd M r d1))" "calm M wl d d1 \<Longrightarrow> calm M wl d (snd (m_millis M d1))"
    "r \<in> {PARK_REQ c, PARK_ACK c, IPC_SET} \<Longrightarrow> calm M wl d d1 \<Longrightarrow> calm M wl d (m_wr M r v d1)"
  using start_simps(2-4) [OF F start_bits(1)] start_simps(2-4) [OF F start_bits(2)]
  by (auto simp: calm_def flash_idle_def watch_simps [OF flash_ctl_ok(2) [OF F]] disarmed_simps [OF flash_ctl_ok(1) [OF F]])

lemma calm_refl: "calm M wl d d"
  by (simp add: calm_def)

lemma irq_mask_idle:
  assumes F: "flash_ctl M wl"
  shows "flash_idle M wl d \<Longrightarrow> flash_idle M wl (snd (irq_mask M d))" "cmds wl (snd (irq_mask M d)) = cmds wl d"
  using start_simps(2,3) [OF F start_bits(1)] start_simps(2,3) [OF F start_bits(2)]
  by (simp_all add: irq_mask_def flash_idle_def split_beta watch_simps [OF flash_ctl_ok(2) [OF F]]
      disarmed_simps [OF flash_ctl_ok(1) [OF F]])

lemma calm_park:
  assumes F: "flash_ctl M wl" and p: "park_other M self t d = Some (ok, d')"
  shows "calm M wl d d'"
proof (rule park_keeps [OF p, where P = "calm M wl d"])
  show "calm M wl d (m_wr M r v c)" if "r \<in> {PARK_REQ (other self), PARK_ACK (other self), IPC_SET}" "calm M wl d c" for r v c
    by (rule calm_steps(3) [OF F that])
qed (simp_all add: calm_steps [OF F] calm_refl)

lemma calm_unpark: "flash_ctl M wl \<Longrightarrow> calm M wl d (unpark_other M self d)"
  unfolding unpark_other_def by (rule calm_steps(3) [of M wl _ "other self"]) (simp_all add: calm_refl)

lemma calm_read: "flash_ctl M wl \<Longrightarrow> calm M wl d d1 \<Longrightarrow> calm M wl d (snd (flash_read M a n d1))"
  by (induction n arbitrary: a d1) (simp_all add: split_beta calm_steps(1) calm_refl)

text \<open>A parked stretch of work: unlock, the loop, lock, unpark.\<close>

definition told :: "'d machine \<Rightarrow> ('d \<Rightarrow> (reg \<times> u32) list) \<Rightarrow> flash_cmd list \<Rightarrow> 'd \<Rightarrow> bool \<Rightarrow> 'd \<Rightarrow> bool" where
  "told M wl es d ok d' \<longleftrightarrow> (\<exists>xs. cmds wl d' = cmds wl d @ xs \<and> prefix xs es \<and> (ok \<longrightarrow> xs = es)) \<and>
     disarmed M d' \<and> w_buf (watch wl d') = [] \<and> (ok \<longrightarrow> flash_idle M wl d')"

lemma parked_work_told:
  assumes F: "flash_ctl M wl" and i: "flash_idle M wl d" and p: "park_other M self t d = Some (True, d1)"
    and e: "emits M wl es (flash_ll_unlock M d1) (ok, d2)"
  shows "told M wl es d ok (unpark_other M self (flash_ll_lock M d2))"
proof -
  have c: "flash_idle M wl d1" "cmds wl d1 = cmds wl d" using calm_park [OF F p] i by (simp_all add: calm_def)
  have h: "flash_halted M wl d2" using e by (simp add: emits_def)
  note l = lock_halted [OF F h] and u = calm_unpark [OF F, of "flash_ll_lock M d2" self]
  show ?thesis using e c(2) unlock_ready(2) [OF F c(1)] l u
    by (auto simp: told_def emits_def calm_def flash_halted_def)
qed

lemma told_unparked:
  "flash_ctl M wl \<Longrightarrow> flash_idle M wl d \<Longrightarrow> park_other M self t d = Some (False, d1) \<Longrightarrow> told M wl es d False d1"
  using calm_park [of M wl self t d False d1] by (auto simp: told_def calm_def flash_idle_def)

section \<open>Whole operations\<close>

lemma flash_erase_told:
  assumes F: "flash_ctl M wl" and i: "flash_idle M wl d" and run: "flash_erase M self addr len d = Some (ok, d')"
    and pg: "flash_page_size M d = (page, d1)" and go: "\<not> (len = 0 \<or> addr mod page \<noteq> 0 \<or> len mod page \<noteq> 0)"
  shows "told M wl (erases addr page (unat len div unat page)) d ok d' \<and>
    (prompt M \<and> (\<exists>d2. park_other M self PARK_TIMEOUT_MS d1 = Some (True, d2)) \<longrightarrow> ok)"
proof -
  have c1: "calm M wl d d1"
    using calm_steps(1) [OF F calm_refl, of d FLASH_CFGR0] pg by (auto simp: flash_page_size_def split_beta)
  then have i1: "flash_idle M wl d1" "cmds wl d1 = cmds wl d" using i by (simp_all add: calm_def)
  obtain parked d2 where p: "park_other M self PARK_TIMEOUT_MS d1 = Some (parked, d2)"
    using run pg go by (auto simp: flash_erase_def split: Option.bind_splits)
  have "told M wl (erases addr page (unat len div unat page)) d1 ok d' \<and> (prompt M \<and> parked \<longrightarrow> ok)"
  proof (cases parked)
    case False
    then have "ok = False" "d' = d2" using run pg p go by (auto simp: flash_erase_def)
    then show ?thesis using told_unparked [OF F i1(1)] p False by simp
  next
    case True
    let ?n = "unat len div unat page" and ?b = "\<lambda>off. flash_ll_erase_page M (addr + off)"
    have "unat len = ?n * unat page" using go by (intro mod_0_times) simp
    note l = for_step_list [OF flash_page_size_pos [OF pg] this, of ?b "flash_ll_unlock M d2"]
    obtain ok4 d4 where r: "run_while ?b (offsets page ?n) (flash_ll_unlock M d2) = (ok4, d4)"
      by (cases "run_while ?b (offsets page ?n) (flash_ll_unlock M d2)")
    have "flash_idle M wl d2" using calm_park [OF F p] i1(1) by (simp add: calm_def)
    then have "emits M wl (erases addr page ?n) (flash_ll_unlock M d2) (ok4, d4)"
      using erase_loop_emits [OF F unlock_ready(1) [OF F]] r by metis
    moreover have "ok4" if "prompt M" by (rule prompt_erases [OF r that])
    ultimately show ?thesis
      using parked_work_told [OF F i1(1)] p True run pg go l r by (auto simp: flash_erase_def)
  qed
  then show ?thesis using i1(2) p by (auto simp: told_def)
qed

text \<open>
  C28.  \<open>ch32h4_flash_erase\<close>, called on an idle controller, makes it start an erase of the
  pages of the requested range and of no others, once each and in ascending order, with the
  locks open: all of them when it reports success, the first few when it reports failure.
  It starts nothing else, and after a success the controller is idle again.  A length of
  zero, an address or a length that is not a whole number of pages is refused before
  anything is written; any other request succeeds, when the other core can be parked and
  the controller does not stay busy.
\<close>

theorem flash_erase_exact:
  assumes "flash_ctl M wl" "flash_idle M wl d"
    and "flash_erase M self addr len d = Some (ok, d')" "flash_page_size M d = (page, d1)"
  shows "\<exists>es. cmds wl d' = cmds wl d @ es \<and>
      prefix es (map (\<lambda>i. Erase (addr + word_of_nat i * page)) [0..<unat len div unat page]) \<and>
      (ok \<longrightarrow> length es = unat len div unat page \<and> 0 < len \<and> addr mod page = 0 \<and> len mod page = 0 \<and>
         flash_idle M wl d') \<and>
      (if len = 0 \<or> addr mod page \<noteq> 0 \<or> len mod page \<noteq> 0 then \<not> ok \<and> wl d' = wl d
       else prompt M \<and> (\<exists>d2. park_other M self PARK_TIMEOUT_MS d1 = Some (True, d2)) \<longrightarrow> ok)"
proof (cases "len = 0 \<or> addr mod page \<noteq> 0 \<or> len mod page \<noteq> 0")
  case True
  have "\<not> ok \<and> d' = d1" using assms(3,4) True by (auto simp: flash_erase_def)
  moreover have "wl d1 = wl d"
    using logs_simps(2) [OF flash_ctl_ok(2) [OF assms(1)]] assms(4) by (auto simp: flash_page_size_def split_beta)
  ultimately show ?thesis using True by (simp add: watch_def)
next
  case False
  have "0 < len" using False by (simp add: word_neq_0_conv)
  then show ?thesis using flash_erase_told [OF assms False] False by (auto simp: told_def erases_def)
qed

text \<open>The simulated machine is such a controller; locked and idle to begin with.\<close>

lemma flash_sim_ctl: "flash_ctl flash_sim wlog"
proof -
  have "start_ok flash_sim n" if "start_bit n" for n
    using that by (auto simp: start_ok_def start_bit_def flash_sim_rd flash_sim_wr flash_sim_millis val_def
        bit_and_iff bit_not_u32 bit_or_iff flash_bits)
  moreover have "\<not> bit (val flash_sim FLASH_CTLR (m_wr flash_sim FLASH_MODEKEYR FLASH_KEY2
        (m_wr flash_sim FLASH_MODEKEYR FLASH_KEY1 (m_wr flash_sim FLASH_KEYR FLASH_KEY2 (m_wr flash_sim FLASH_KEYR FLASH_KEY1 d))))) n"
    if "n = 7 \<or> n = 15" for n d
    using that by (auto simp: val_def flash_sim_rd flash_sim_wr sim_open_def FLASH_KEY1_def FLASH_KEY2_def
        bit_and_iff bit_not_u32 flash_bits)
  ultimately show ?thesis using flash_sim_logs flash_sim_ctlr by (auto simp: flash_ctl_def)
qed

definition sim_locked :: sim where
  "sim_locked = sim_init\<lparr>regs := (\<lambda>_. 0)(FLASH_CTLR := 0x8080)\<rparr>"

lemma sim_locked_idle: "flash_idle flash_sim wlog sim_locked" "cmds wlog sim_locked = []" "regs sim_locked (PARK_LIVE c) = 0"
proof -
  have b: "bit (0x8080 :: u32) n \<longleftrightarrow> n = 7 \<or> n = 15" for n
    using flash_bits(5,6) [of n] by (simp add: CR_LOCK_Set_def CR_FLOCK_Set_def bit_or_iff [of "0x80 :: u32" "0x8000" n, simplified])
  show "flash_idle flash_sim wlog sim_locked"
    by (simp add: flash_idle_def disarmed_def val_def flash_sim_rd sim_locked_def bit_and_iff b watch_def sim_init_def watch_off_def)
  show "cmds wlog sim_locked = []" by (simp add: watch_def sim_locked_def sim_init_def watch_off_def)
  show "regs sim_locked (PARK_LIVE c) = 0" by (simp add: sim_locked_def)
qed

theorem flash_erase_exact_witness:
  "\<exists>d'. flash_erase flash_sim V5F 0x080E0000 0x4000 sim_locked = Some (True, d') \<and>
    cmds wlog d' = [Erase 0x080E0000, Erase 0x080E2000]"
proof -
  let ?b = "\<lambda>off. flash_ll_erase_page flash_sim (0x080E0000 + off)"
  let ?d = "flash_ll_unlock flash_sim sim_locked"
  have f: "for_step ?b 8192 0x4000 0 ?d = Some (run_while ?b (offsets 8192 2) ?d)"
    by (rule for_step_list) simp_all
  have "fst (run_while ?b (offsets 8192 2) ?d)" by (rule run_while_true) (rule prompt_erase [OF flash_sim_prompt])
  then obtain d' where d': "flash_erase flash_sim V5F 0x080E0000 0x4000 sim_locked = Some (True, d')"
    using f by (simp add: flash_erase_def flash_sim_page flash_sim_park sim_locked_idle split_beta)
  obtain es where "cmds wlog d' = cmds wlog sim_locked @ es" "length es = 2"
      "prefix es (map (\<lambda>i. Erase (0x080E0000 + word_of_nat i * 8192)) [0..<2])"
    using flash_erase_exact [OF flash_sim_ctl sim_locked_idle(1) d' flash_sim_page] by auto
  moreover have "[0..<2] = [0, 1 :: nat]" by code_simp
  ultimately have "cmds wlog d' = [Erase 0x080E0000, Erase 0x080E2000]"
    using sim_locked_idle(2) by (auto simp: prefix_Cons length_Suc_conv numeral_2_eq_2)
  then show ?thesis using d' by blast
qed

lemma flash_write_told:
  assumes F: "flash_ctl M wl" and i: "flash_idle M wl d" and run: "flash_write M self addr src len d = Some (ok, d')"
    and go: "len \<noteq> 0" "addr mod word_of_nat LL_PROG_PAGE = 0" "len mod word_of_nat LL_PROG_PAGE = 0"
  shows "told M wl (programs addr src (unat len div LL_PROG_PAGE)) d ok d' \<and>
    (ok \<longrightarrow> (\<exists>d0. flash_read M addr (unat len) d0 = (take (unat len) src, d'))) \<and>
    (prompt M \<and> (\<exists>d2. park_other M self PARK_TIMEOUT_MS d = Some (True, d2)) \<longrightarrow>
       cmds wl d' = cmds wl d @ programs addr src (unat len div LL_PROG_PAGE) \<and>
       (\<exists>bs d0. flash_read M addr (unat len) d0 = (bs, d') \<and> (ok \<longleftrightarrow> bs = take (unat len) src)))"
proof -
  obtain parked d2 where p: "park_other M self PARK_TIMEOUT_MS d = Some (parked, d2)"
    using run go by (auto simp: flash_write_def split: Option.bind_splits)
  show ?thesis
  proof (cases parked)
    case False
    then have "ok = False" "d' = d2" using run p go by (auto simp: flash_write_def)
    then show ?thesis using told_unparked [OF F i] p False by simp
  next
    case True
    let ?n = "unat len div LL_PROG_PAGE" and ?s = "word_of_nat LL_PROG_PAGE :: u32"
    let ?b = "\<lambda>off. flash_ll_program_page M (addr + off) (page_at src off)"
    have u: "unat ?s = LL_PROG_PAGE" "0 < unat ?s" by (simp_all add: LL_PROG_PAGE_def)
    have "unat len = ?n * unat ?s" using mod_0_times [OF go(3)] u(1) by simp
    note l = for_step_list [OF u(2) this, of ?b "flash_ll_unlock M d2"]
    obtain ok4 d4 where r: "run_while ?b (offsets ?s ?n) (flash_ll_unlock M d2) = (ok4, d4)"
      by (cases "run_while ?b (offsets ?s ?n) (flash_ll_unlock M d2)")
    let ?d5 = "unpark_other M self (flash_ll_lock M d4)"
    obtain bs d6 where fr: "flash_read M addr (unat len) ?d5 = (bs, d6)" by (cases "flash_read M addr (unat len) ?d5")
    have e: "ok \<longleftrightarrow> ok4 \<and> bs = take (unat len) src" "d' = (if ok4 then d6 else ?d5)"
      using run go p True l r fr by (auto simp: flash_write_def Let_def split: if_splits)
    have "flash_idle M wl d2" using calm_park [OF F p] i by (simp add: calm_def)
    then have "emits M wl (programs addr src ?n) (flash_ll_unlock M d2) (ok4, d4)"
      using program_loop_emits [OF F unlock_ready(1) [OF F]] r by metis
    then have t: "told M wl (programs addr src ?n) d ok4 ?d5" using parked_work_told [OF F i] p True by simp
    have c: "calm M wl ?d5 d6" using calm_read [OF F calm_refl, of ?d5 addr "unat len"] fr by simp
    then have "told M wl (programs addr src ?n) d ok d'" using t e by (auto simp: told_def calm_def)
    moreover have "cmds wl d' = cmds wl d @ programs addr src ?n \<and>
        (\<exists>bs d0. flash_read M addr (unat len) d0 = (bs, d') \<and> (ok \<longleftrightarrow> bs = take (unat len) src))" if "prompt M"
    proof -
      have "ok4" by (rule prompt_programs [OF r that])
      then show ?thesis using t c e fr by (auto simp: told_def calm_def)
    qed
    moreover have "ok \<longrightarrow> (\<exists>d0. flash_read M addr (unat len) d0 = (take (unat len) src, d'))"
      using e fr by auto
    ultimately show ?thesis by blast
  qed
qed

text \<open>
  C27.  \<open>ch32h4_flash_write\<close>, called on an idle controller, makes it program the pages of the
  range in order, each with the source's words at consecutive addresses and the locks open:
  all of them when it reports success, the first few when it reports failure.  It starts
  nothing else, no erase in particular.  Success also means that reading the range back
  afterwards gave the source's bytes, and that the controller is idle again.  When the other
  core can be parked and the controller does not stay busy, all pages are programmed and the
  read-back decides.  An unaligned address or length is refused without touching anything.
\<close>

theorem flash_write_verified:
  assumes "flash_ctl M wl" "flash_idle M wl d"
    and "flash_write M self addr src len d = Some (ok, d')" "len \<noteq> 0"
  shows "\<exists>ps. cmds wl d' = cmds wl d @ ps \<and> prefix ps (programs addr src (unat len div 256)) \<and>
    (ok \<longrightarrow> ps = programs addr src (unat len div 256) \<and> flash_idle M wl d' \<and>
       (\<exists>d0. flash_read M addr (unat len) d0 = (take (unat len) src, d'))) \<and>
    (if addr mod 256 \<noteq> 0 \<or> len mod 256 \<noteq> 0 then \<not> ok \<and> d' = d
     else prompt M \<and> (\<exists>d2. park_other M self PARK_TIMEOUT_MS d = Some (True, d2)) \<longrightarrow>
       ps = programs addr src (unat len div 256) \<and>
       (\<exists>bs d0. flash_read M addr (unat len) d0 = (bs, d') \<and> (ok \<longleftrightarrow> bs = take (unat len) src)))"
proof (cases "addr mod 256 = 0 \<and> len mod 256 = 0")
  case False
  then have "\<not> ok \<and> d' = d" using assms(3,4) by (auto simp: flash_write_def LL_PROG_PAGE_def)
  then show ?thesis using False by simp
next
  case True
  then have w: "told M wl (programs addr src (unat len div 256)) d ok d'"
    "ok \<longrightarrow> (\<exists>d0. flash_read M addr (unat len) d0 = (take (unat len) src, d'))"
    "prompt M \<and> (\<exists>d2. park_other M self PARK_TIMEOUT_MS d = Some (True, d2)) \<longrightarrow>
       cmds wl d' = cmds wl d @ programs addr src (unat len div 256) \<and>
       (\<exists>bs d0. flash_read M addr (unat len) d0 = (bs, d') \<and> (ok \<longleftrightarrow> bs = take (unat len) src))"
    using flash_write_told [OF assms] by (simp_all add: LL_PROG_PAGE_def)
  obtain ps where ps: "cmds wl d' = cmds wl d @ ps" "prefix ps (programs addr src (unat len div 256))"
    "ok \<longrightarrow> ps = programs addr src (unat len div 256) \<and> flash_idle M wl d'"
    using w(1) by (auto simp: told_def)
  show ?thesis using True w(2,3) ps by (intro exI [of _ ps]) auto
qed

text \<open>
  On the simulated machine stores to \<open>MEM32\<close> do not reach \<open>MEM8\<close>: it verifies a page of
  zeroes.
\<close>

lemma flash_sim_mem8_wr: "r \<noteq> MEM8 b \<Longrightarrow> regs (m_wr flash_sim r v d) (MEM8 b) = regs d (MEM8 b)"
  by (simp add: flash_sim_wr sim_open_def)

lemma flash_sim_mem8_rd [simp]: "snd (m_rd flash_sim r d) = d"
  by (simp add: flash_sim_rd)

lemma flash_sim_mem8_words: "regs (snd (prog_words flash_sim a i ws d)) (MEM8 b) = regs d (MEM8 b)"
  by (induction ws arbitrary: i d) (simp_all add: flash_sim_mem8_wr)

lemma flash_sim_mem8:
  "regs (snd (flash_ll_program_page flash_sim a ws d)) (MEM8 b) = regs d (MEM8 b)"
  "regs (flash_ll_unlock flash_sim d) (MEM8 b) = regs d (MEM8 b)"
  "regs (flash_ll_lock flash_sim d) (MEM8 b) = regs d (MEM8 b)"
  "regs (unpark_other flash_sim self d) (MEM8 b) = regs d (MEM8 b)"
  by (simp_all add: flash_ll_program_page_def irq_mask_def irq_restore_def m_or_eq m_and_eq
      flash_sim_mem8_wr flash_sim_mem8_words prompt_words [OF flash_sim_prompt] flash_ll_unlock_def flash_ll_lock_def
      unpark_other_def split_beta)

lemma flash_sim_read:
  "(\<And>b. regs d (MEM8 b) = 0) \<Longrightarrow> flash_read flash_sim a n d = (replicate n 0, d)"
  by (induction n arbitrary: a) (simp_all add: flash_sim_rd)

theorem flash_write_verified_witness:
  "\<exists>d'. flash_write flash_sim V5F 0x080E0000 (replicate 256 0) 256 sim_locked = Some (True, d') \<and>
    cmds wlog d' = [Program (page_words 0x080E0000 0 (replicate 64 0))]"
proof -
  let ?b = "\<lambda>off. flash_ll_program_page flash_sim (0x080E0000 + off) (page_at (replicate 256 0) off)"
  let ?d = "flash_ll_unlock flash_sim sim_locked"
  let ?r = "run_while ?b (offsets 256 1) ?d"
  have f: "for_step ?b 256 256 0 ?d = Some ?r" by (rule for_step_list) simp_all
  have t: "fst ?r" by (rule run_while_true) (rule prompt_program [OF flash_sim_prompt])
  have "\<forall>b. regs (snd ?r) (MEM8 b) = 0"
    by (rule run_while_inv) (simp_all add: flash_sim_mem8 sim_locked_def)
  then have "flash_read flash_sim 0x080E0000 256 (unpark_other flash_sim V5F (flash_ll_lock flash_sim (snd ?r)))
      = (replicate 256 0, unpark_other flash_sim V5F (flash_ll_lock flash_sim (snd ?r)))"
    by (intro flash_sim_read) (simp add: flash_sim_mem8)
  moreover obtain d4 where "?r = (True, d4)" using t by (cases ?r) simp
  ultimately obtain d' where d': "flash_write flash_sim V5F 0x080E0000 (replicate 256 0) 256 sim_locked = Some (True, d')"
    using f by (simp add: flash_write_def LL_PROG_PAGE_def flash_sim_park sim_locked_idle Let_def)
  have "words_of (replicate (4 * n) 0) = replicate n 0" for n
  proof (induction n)
    case (Suc n)
    have "replicate (4 * Suc n) (0 :: u8) = 0 # 0 # 0 # 0 # replicate (4 * n) 0" by (simp add: numeral_eq_Suc)
    then show ?case using Suc by simp
  qed simp
  from this [of 64] have "page_at (replicate 256 0) 0 = replicate 64 0" by (simp add: page_at_def LL_PROG_PAGE_def)
  moreover have "offsets (word_of_nat LL_PROG_PAGE) 1 = [0]" by (simp add: offsets_def)
  ultimately have "programs 0x080E0000 (replicate 256 0) 1 = [Program (page_words 0x080E0000 0 (replicate 64 0))]"
    by (simp add: programs_def LL_PROG_PAGE_def)
  then show ?thesis
    using flash_write_verified [OF flash_sim_ctl sim_locked_idle(1) d'] d' sim_locked_idle(2) by auto
qed

section \<open>The image commit\<close>

lemma reset_cmds: "flash_ctl M wl \<Longrightarrow> cmds wl (reset_now M d) = cmds wl d @ [Reset 0xBEEF0080]"
  by (simp add: reset_now_def watch_simps [OF flash_ctl_ok(2)])

text \<open>
  C29.  Whenever the loops of \<open>ch32h4_ota_commit\<close> end, it ends in the reset, on every path.
  Everything is erased before anything is programmed: what it tells an idle controller is
  erases of the image's pages in order, then, only if all of them succeeded, the image's
  pages to program in order, then the reset; nothing is started that the image does not
  cover.  When the controller never stays busy, all of both are there.
\<close>

theorem ota_erases_then_programs:
  assumes "flash_ctl M wl" "flash_idle M wl d" "0 < unat page" "unat len = n * unat page" "unat len = m * 256"
  shows "\<exists>d' es ps. ota_commit M dest img len page d = Some d' \<and>
    cmds wl d' = cmds wl d @ es @ ps @ [Reset 0xBEEF0080] \<and>
    prefix es (map (\<lambda>i. Erase (dest + word_of_nat i * page)) [0..<n]) \<and>
    prefix ps (programs dest img m) \<and> (ps \<noteq> [] \<longrightarrow> length es = n) \<and>
    (prompt M \<longrightarrow> length es = n \<and> ps = programs dest img m)"
proof -
  note F = assms(1)
  let ?d0 = "flash_ll_unlock M (snd (irq_mask M d))"
  let ?be = "\<lambda>off. flash_ll_erase_page M (dest + off)"
  let ?bp = "\<lambda>off. flash_ll_program_page M (dest + off) (page_at img off)"
  have i: "flash_idle M wl (snd (irq_mask M d))" "cmds wl (snd (irq_mask M d)) = cmds wl d"
    using irq_mask_idle [OF F] assms(2) by simp_all
  note u = unlock_ready [OF F i(1)]
  have le: "for_step ?be page len 0 ?d0 = Some (run_while ?be (offsets page n) ?d0)"
    by (rule for_step_list [OF assms(3,4)])
  have lp: "for_step ?bp OTA_PROG_PAGE len 0 x = Some (run_while ?bp (offsets (word_of_nat LL_PROG_PAGE) m) x)" for x
    using for_step_list [of OTA_PROG_PAGE len m ?bp x] assms(5) by (simp add: OTA_PROG_PAGE_def LL_PROG_PAGE_def)
  obtain ok d1 where r1: "run_while ?be (offsets page n) ?d0 = (ok, d1)" by (cases "run_while ?be (offsets page n) ?d0")
  obtain es where es: "cmds wl d1 = cmds wl d @ es" "prefix es (erases dest page n)"
      "ok \<longrightarrow> es = erases dest page n \<and> flash_ready M wl d1"
    using erase_loop_emits [OF F u(1), of dest page n] r1 u(2) i(2) by (auto simp: emits_def)
  show ?thesis
  proof (cases ok)
    case False
    then have "ota_commit M dest img len page d = Some (reset_now M d1)" using le r1 by (simp add: ota_commit_def)
    moreover have "ok" if "prompt M" by (rule prompt_erases [OF r1 that])
    with False have "\<not> prompt M" by blast
    ultimately show ?thesis using es reset_cmds [OF F]
      by (intro exI [of _ "reset_now M d1"] exI [of _ es] exI [of _ "[]"]) (simp add: erases_def)
  next
    case True
    obtain ok2 d2 where r2: "run_while ?bp (offsets (word_of_nat LL_PROG_PAGE) m) d1 = (ok2, d2)"
      by (cases "run_while ?bp (offsets (word_of_nat LL_PROG_PAGE) m) d1")
    obtain ps where ps: "cmds wl d2 = cmds wl d1 @ ps" "prefix ps (programs dest img m)" "flash_halted M wl d2"
      "ok2 \<longrightarrow> ps = programs dest img m"
      using program_loop_emits [OF F, of d1 dest img m] es(3) True r2 by (auto simp: emits_def)
    let ?d = "if ok2 then reset_now M (flash_ll_lock M d2) else reset_now M d2"
    have "ota_commit M dest img len page d = Some ?d" using le lp r1 r2 True by (simp add: ota_commit_def)
    moreover have "cmds wl ?d = cmds wl d @ es @ ps @ [Reset 0xBEEF0080]"
      using es(1) ps(1) lock_halted(2) [OF F ps(3)] by (simp add: reset_cmds [OF F])
    moreover have "ok2" if "prompt M" by (rule prompt_programs [OF r2 that])
    ultimately show ?thesis using es ps True
      by (intro exI [of _ ?d] exI [of _ es] exI [of _ ps]) (auto simp: erases_def)
  qed
qed

theorem ota_erases_then_programs_witness:
  "\<exists>d'. ota_commit flash_sim 0x08000000 (replicate 8192 7) 8192 8192 sim_locked = Some d' \<and>
    cmds wlog d' = Erase 0x08000000 # programs 0x08000000 (replicate 8192 7) 32 @ [Reset 0xBEEF0080]"
proof -
  obtain d' es where "ota_commit flash_sim 0x08000000 (replicate 8192 7) 8192 8192 sim_locked = Some d'"
    "cmds wlog d' = es @ programs 0x08000000 (replicate 8192 7) 32 @ [Reset 0xBEEF0080]"
    "prefix es (map (\<lambda>i. Erase (0x08000000 + word_of_nat i * 8192)) [0..<1])" "length es = 1"
    using ota_erases_then_programs [OF flash_sim_ctl sim_locked_idle(1), of 8192 8192 1 32 "0x08000000" "replicate 8192 7"]
      sim_locked_idle(2) flash_sim_prompt by auto
  moreover have "[0..<1] = [0 :: nat]" by simp
  ultimately show ?thesis by (auto simp: length_Suc_conv)
qed

end
