(* ===== verification/Rcc.thy ===== *)
theory Rcc
  imports Machine
begin

text \<open>
  Clock enables, block resets and pin configuration (\<^verbatim>\<open>ch32h4_rcc.c\<close>).  The bit positions
  of the vendor's \<^verbatim>\<open>RCC_*Periph_*\<close> constants are not in the repository: \<open>K\<close> maps the
  constant's name to its value.
\<close>

section \<open>Buses and ports\<close>

datatype bus = HB | HB1 | HB2

datatype port = GPIOA | GPIOB | GPIOC | GPIOD | GPIOE | GPIOF

definition port_name :: "port \<Rightarrow> string" where
  "port_name p = (case p of GPIOA \<Rightarrow> ''GPIOA'' | GPIOB \<Rightarrow> ''GPIOB'' | GPIOC \<Rightarrow> ''GPIOC''
     | GPIOD \<Rightarrow> ''GPIOD'' | GPIOE \<Rightarrow> ''GPIOE'' | GPIOF \<Rightarrow> ''GPIOF'')"

definition port_reg :: "port \<Rightarrow> string \<Rightarrow> reg" where
  "port_reg p f = REG (port_name p @ f)"

definition clk_reg :: "bus \<Rightarrow> reg" where
  "clk_reg b = (case b of HB \<Rightarrow> REG ''RCC.HBPCENR'' | HB1 \<Rightarrow> REG ''RCC.HB1PCENR''
     | HB2 \<Rightarrow> REG ''RCC.HB2PCENR'')"

definition rst_reg :: "bus \<Rightarrow> reg" where
  "rst_reg b = (case b of HB \<Rightarrow> REG ''RCC.HBRSTR'' | HB1 \<Rightarrow> REG ''RCC.HB1PRSTR''
     | HB2 \<Rightarrow> REG ''RCC.HB2PRSTR'')"

section \<open>Clock enable and block reset\<close>

text \<open>The read-back is part of the operation: without it the next access is dropped.\<close>

definition clock_enable :: "'d machine \<Rightarrow> bus \<Rightarrow> u32 \<Rightarrow> 'd \<Rightarrow> 'd" where
  "clock_enable M b x d = m_touch M (clk_reg b) (m_or M (clk_reg b) x d)"

definition hb2_forbidden :: "(string \<Rightarrow> u32) \<Rightarrow> u32" where
  "hb2_forbidden K = K ''RCC_HB2Periph_GPIOA'' OR K ''RCC_HB2Periph_GPIOB''
     OR K ''RCC_HB2Periph_GPIOC'' OR K ''RCC_HB2Periph_GPIOD'' OR K ''RCC_HB2Periph_GPIOE''
     OR K ''RCC_HB2Periph_GPIOF'' OR K ''RCC_HB2Periph_AFIO''"

definition reset_forbidden :: "(string \<Rightarrow> u32) \<Rightarrow> bus \<Rightarrow> u32" where
  "reset_forbidden K b = (case b of
       HB2 \<Rightarrow> hb2_forbidden K
     | HB1 \<Rightarrow> K ''RCC_HB1Periph_PWR'' OR K ''RCC_HB1Periph_BKP''
     | HB \<Rightarrow> K ''RCC_HBPeriph_DMA1'' OR K ''RCC_HBPeriph_ETH'')"

text \<open>\<open>n\<close> is \<^verbatim>\<open>ch32h4_reset_refused_count\<close>.\<close>

definition block_reset ::
  "'d machine \<Rightarrow> (string \<Rightarrow> u32) \<Rightarrow> bus \<Rightarrow> u32 \<Rightarrow> u32 \<times> 'd \<Rightarrow> int \<times> u32 \<times> 'd" where
  "block_reset M K b x s = (case s of (n, d) \<Rightarrow>
     if x AND reset_forbidden K b \<noteq> 0 then (-1, n + 1, d)
     else (0, n, do_all [m_or M (rst_reg b) x, m_touch M (rst_reg b),
                         m_and M (rst_reg b) (NOT x), m_touch M (rst_reg b)] d))"

section \<open>Pin configuration\<close>

text \<open>
  The port argument is a pointer; a pointer that is none of the first five ports gets
  port F's bit, which \<open>port option\<close> with \<open>None\<close> for a null pointer keeps.
\<close>

definition gpio_clock_bit :: "(string \<Rightarrow> u32) \<Rightarrow> port option \<Rightarrow> u32" where
  "gpio_clock_bit K p = (
     if p = Some GPIOA then K ''RCC_HB2Periph_GPIOA'' else
     if p = Some GPIOB then K ''RCC_HB2Periph_GPIOB'' else
     if p = Some GPIOC then K ''RCC_HB2Periph_GPIOC'' else
     if p = Some GPIOD then K ''RCC_HB2Periph_GPIOD'' else
     if p = Some GPIOE then K ''RCC_HB2Periph_GPIOE'' else K ''RCC_HB2Periph_GPIOF'')"

definition AF_NONE :: u8 where "AF_NONE = 0xFF"

definition CFG_IN_ANALOG :: u8 where "CFG_IN_ANALOG = 0x0"
definition CFG_IN_FLOATING :: u8 where "CFG_IN_FLOATING = 0x4"
definition CFG_IN_PUPD :: u8 where "CFG_IN_PUPD = 0x8"
definition CFG_OUT_PP_50 :: u8 where "CFG_OUT_PP_50 = 0x3"
definition CFG_OUT_OD_50 :: u8 where "CFG_OUT_OD_50 = 0x7"
definition CFG_AF_PP_50 :: u8 where "CFG_AF_PP_50 = 0xB"
definition CFG_AF_OD_50 :: u8 where "CFG_AF_OD_50 = 0xF"

definition cfg_reg :: "port \<Rightarrow> u8 \<Rightarrow> reg" where
  "cfg_reg p pin = port_reg p (if pin < 8 then ''.CFGLR'' else ''.CFGHR'')"

definition cfg_shift :: "u8 \<Rightarrow> nat" where
  "cfg_shift pin = (unat pin mod 8) * 4"

text \<open>The new value of the configuration register; its old value is read first.\<close>

definition set_nibble :: "nat \<Rightarrow> u8 \<Rightarrow> u32 \<Rightarrow> u32" where
  "set_nibble sh mode v = (v AND NOT (push_bit sh 0xF)) OR push_bit sh (ucast mode)"

definition pin_af :: "'d machine \<Rightarrow> (string \<Rightarrow> u32) \<Rightarrow> port \<Rightarrow> u8 \<Rightarrow> u8 \<Rightarrow> u8 \<Rightarrow> 'd \<Rightarrow> 'd" where
  "pin_af M K p pin af mode d =
     (let d1 = clock_enable M HB2 (gpio_clock_bit K (Some p) OR K ''RCC_HB2Periph_AFIO'') d;
          d2 = (if af \<noteq> AF_NONE
                then m_call M (Call ''GPIO_PinAFConfig''
                       [Sym (port_name p), Num (ucast pin), Num (ucast af)]) d1
                else d1)
      in case m_rd M (cfg_reg p pin) d2 of (v, d3) \<Rightarrow>
           m_wr M (cfg_reg p pin) (set_nibble (cfg_shift pin) mode v) d3)"

section \<open>Facts\<close>

lemma port_name_inject [simp]: "port_name p = port_name q \<longleftrightarrow> p = q"
  by (cases p; cases q) (simp_all add: port_name_def)

lemma port_reg_inject: "port_reg p f = port_reg q g \<longleftrightarrow> p = q \<and> f = g"
proof -
  have l: "size (port_name x) = 5" for x by (cases x) (simp_all add: port_name_def)
  show ?thesis by (simp add: port_reg_def append_eq_append_conv l)
qed

lemma cfg_reg_eq_iff: "cfg_reg p a = cfg_reg q b \<longleftrightarrow> p = q \<and> (a < 8 \<longleftrightarrow> b < 8)"
  by (simp add: cfg_reg_def port_reg_inject)

lemma cfg_not_clk [simp]: "cfg_reg p a \<noteq> clk_reg b" "clk_reg b \<noteq> cfg_reg p a"
  by (cases p; cases b; simp add: cfg_reg_def port_reg_def port_name_def clk_reg_def)+

text \<open>The nibble written is the mode, and no bit outside it changes, for a four-bit mode.\<close>

lemma bit_15 [simp]: "bit (15 :: u32) k \<longleftrightarrow> k < 4"
proof -
  have "(15 :: u32) = mask 4" by (simp add: mask_eq_exp_minus_1)
  then show ?thesis by (simp only: bit_mask_iff) (auto simp: min_def)
qed

lemma bit_nat_le: "bit (n :: nat) i \<Longrightarrow> 2 ^ i \<le> n"
  by (rule ccontr) (simp add: not_le bit_iff_odd)

lemma mode_bit: "unat (mode :: u8) < 16 \<Longrightarrow> bit mode i \<Longrightarrow> i < 4"
proof (rule ccontr)
  assume m: "unat mode < 16" "bit mode i" "\<not> i < 4"
  have "bit (unat mode) i" using m(2) by (simp add: bit_unsigned_iff bit_imp_le_length)
  then have "2 ^ i \<le> unat mode" by (rule bit_nat_le)
  moreover have "(2 :: nat) ^ 4 \<le> 2 ^ i" using m(3) by (intro power_increasing) auto
  ultimately show False using m(1) by simp
qed

lemma set_nibble_bits:
  assumes "unat mode < 16" "i < 32" "sh + 4 \<le> 32"
  shows "bit (set_nibble sh mode v) i \<longleftrightarrow>
           (if sh \<le> i \<and> i < sh + 4 then bit mode (i - sh) else bit v i)"
proof -
  have f: "bit (push_bit sh (15 :: u32)) i \<longleftrightarrow> sh \<le> i \<and> i < sh + 4"
    using assms(2) by (simp only: bit_push_bit_iff bit_15) auto
  have g: "bit (push_bit sh (ucast mode :: u32)) i \<longleftrightarrow> sh \<le> i \<and> bit mode (i - sh)"
    using assms(2) by (simp only: bit_push_bit_iff bit_unsigned_iff) (auto dest: bit_imp_le_length)
  show ?thesis
    using assms mode_bit [OF assms(1), of "i - sh"]
    by (auto simp: set_nibble_def bit_or_iff bit_and_iff bit_not_u32 f g)
qed

lemma cfg_shift_small [simp]: "cfg_shift pin + 4 \<le> 32"
  by (simp add: cfg_shift_def)

lemma clock_enable_stable:
  "stable M r \<Longrightarrow> val M r (clock_enable M b x d) = (if r = clk_reg b then val M r d OR x else val M r d)"
  by (auto simp: clock_enable_def m_touch_def stable_simps)

section \<open>What a pin configuration does\<close>

text \<open>The four-bit mode field of one pin, as the hardware reads it.\<close>

definition pin_mode :: "'d machine \<Rightarrow> port \<Rightarrow> u8 \<Rightarrow> 'd \<Rightarrow> u32" where
  "pin_mode M p pin d = drop_bit (cfg_shift pin) (val M (cfg_reg p pin) d) AND 0xF"

text \<open>
  \<open>mux_gated M K mux\<close>: \<open>mux d (p, pin)\<close> is the alternate function the pad is switched to.
  The SDK call changes it when AFIO's clock is on; register accesses do not.
\<close>

definition mux_gated :: "'d machine \<Rightarrow> (string \<Rightarrow> u32) \<Rightarrow> ('d \<Rightarrow> port \<times> u8 \<Rightarrow> u8) \<Rightarrow> bool" where
  "mux_gated M K mux \<longleftrightarrow>
     (\<forall>p pin af d. val M (clk_reg HB2) d AND K ''RCC_HB2Periph_AFIO'' \<noteq> 0 \<longrightarrow>
        mux (m_call M (Call ''GPIO_PinAFConfig'' [Sym (port_name p), Num (ucast pin), Num (ucast af)]) d)
          = (mux d)((p, pin) := af)) \<and>
     (\<forall>r v d. mux (m_wr M r v d) = mux d) \<and> (\<forall>r d. mux (snd (m_rd M r d)) = mux d)"

lemma mux_clock_enable: "mux_gated M K mux \<Longrightarrow> mux (clock_enable M b x d) = mux d"
  by (simp add: mux_gated_def clock_enable_def m_touch_def m_or_eq)

lemma afio_on:
  assumes "stable M (clk_reg HB2)" "a \<noteq> 0"
  shows "val M (clk_reg HB2) (clock_enable M HB2 (x OR a) d) AND a \<noteq> 0"
proof -
  have "(v OR (x OR a)) AND a = a" for v by (rule bit_word_eqI) (auto simp: bit_simps)
  then show ?thesis using assms by (simp add: clock_enable_stable)
qed

lemma field_bits:
  assumes "sh + 4 \<le> 32" "i < 32"
  shows "bit (drop_bit sh (v :: u32) AND 15) i \<longleftrightarrow> i < 4 \<and> bit v (sh + i)"
  using assms by (auto simp only: bit_and_iff bit_drop_bit_eq comp_def bit_15 add.commute)

lemma set_nibble_field:
  assumes "unat mode < 16" "sh + 4 \<le> 32" "sh' + 4 \<le> 32" "sh = sh' \<or> sh + 4 \<le> sh' \<or> sh' + 4 \<le> sh"
  shows "drop_bit sh' (set_nibble sh mode v) AND 15 = (if sh' = sh then ucast mode else drop_bit sh' v AND 15)"
proof (rule bit_word_eqI)
  fix i assume "i < LENGTH(32)"
  then have i: "i < 32" by simp
  show "bit (drop_bit sh' (set_nibble sh mode v) AND 15) i =
      bit (if sh' = sh then ucast mode else drop_bit sh' v AND 15) i"
  proof (cases "i < 4")
    case True
    have "sh' + i < 32" using assms(3) True by simp
    note b = set_nibble_bits [OF assms(1) this assms(2), of v]
    have f: "bit (drop_bit sh' w AND 15) i \<longleftrightarrow> bit w (sh' + i)" for w :: u32
      using field_bits [OF assms(3) i, of w] True by simp
    have u: "bit (ucast mode :: u32) i \<longleftrightarrow> bit mode i"
      using i by (auto simp only: bit_unsigned_iff possible_bit_word len_of_numeral_defs)
    show ?thesis
    proof (cases "sh' = sh")
      case eq: True
      show ?thesis unfolding f b using True eq u by simp
    next
      case False
      then have "(sh \<le> sh' + i \<and> sh' + i < sh + 4) = False" using assms(4) \<open>i < 4\<close> by auto
      then show ?thesis using False by (simp only: f b if_False)
    qed
  next
    case False
    have "\<not> bit (ucast mode :: u32) i"
      using mode_bit [OF assms(1), of i] False by (auto simp only: bit_unsigned_iff)
    then show ?thesis using False field_bits [OF assms(3) i] by simp
  qed
qed

lemma cfg_shift_apart:
  assumes "unat a < 16" "unat b < 16" "a < 8 \<longleftrightarrow> b < 8"
  shows "a = b \<and> cfg_shift a = cfg_shift b \<or> cfg_shift a + 4 \<le> cfg_shift b \<or> cfg_shift b + 4 \<le> cfg_shift a"
proof -
  have lt: "x < 8 \<longleftrightarrow> unat x < 8" for x :: u8 by (simp add: word_less_nat_alt)
  have r: "unat x mod 8 = (if unat x < 8 then unat x else unat x - 8)" if "unat x < 16" for x :: u8
    using that by (cases "unat x < 8") (simp_all add: le_mod_geq not_less)
  consider "unat a mod 8 < unat b mod 8" | "unat b mod 8 < unat a mod 8" | "unat a mod 8 = unat b mod 8"
    by linarith
  then show ?thesis
  proof cases
    case 3
    then have "unat a = unat b" using r assms lt by (auto split: if_splits)
    then show ?thesis by (simp add: word_unat_eq_iff cfg_shift_def)
  qed (simp_all add: cfg_shift_def)
qed

lemma pin_mode_after:
  assumes st: "\<forall>q j. stable M (cfg_reg q j)"
    and w: "unat pin < 16" "unat mode < 16" "unat j < 16"
  shows "pin_mode M q j (pin_af M K p pin af mode d) =
    (if (q, j) = (p, pin) then ucast mode else pin_mode M q j d)"
proof -
  define d1 where "d1 = clock_enable M HB2 (gpio_clock_bit K (Some p) OR K ''RCC_HB2Periph_AFIO'') d"
  define d2 where "d2 = (if af \<noteq> AF_NONE then m_call M (Call ''GPIO_PinAFConfig''
      [Sym (port_name p), Num (ucast pin), Num (ucast af)]) d1 else d1)"
  have s: "stable M (cfg_reg a b)" for a b using st by blast
  have v2: "val M (cfg_reg a b) d2 = val M (cfg_reg a b) d" for a b
    using clock_enable_stable [OF s, of a b HB2] stable_call [OF s, of a b]
    by (simp add: d2_def d1_def)
  have e: "pin_af M K p pin af mode d = m_wr M (cfg_reg p pin)
      (set_nibble (cfg_shift pin) mode (val M (cfg_reg p pin) d2)) (snd (m_rd M (cfg_reg p pin) d2))"
    by (simp add: pin_af_def Let_def d2_def d1_def val_def split_beta)
  show ?thesis
  proof (cases "cfg_reg q j = cfg_reg p pin")
    case True
    then have pq: "q = p" "j < 8 \<longleftrightarrow> pin < 8" by (simp_all add: cfg_reg_eq_iff)
    have "pin_mode M q j (pin_af M K p pin af mode d) =
        drop_bit (cfg_shift j) (set_nibble (cfg_shift pin) mode (val M (cfg_reg q j) d)) AND 15"
      unfolding pin_mode_def e True v2 stable_wr_same [OF s] ..
    also have "\<dots> = (if cfg_shift j = cfg_shift pin then ucast mode
        else drop_bit (cfg_shift j) (val M (cfg_reg q j) d) AND 15)"
      using cfg_shift_apart [OF w(1,3)] pq(2)
      by (intro set_nibble_field w cfg_shift_small) auto
    finally show ?thesis
      using cfg_shift_apart [OF w(3,1) pq(2)] pq(1) by (auto simp: pin_mode_def)
  next
    case False
    then have ne: "(q, j) \<noteq> (p, pin)" by auto
    have "val M (cfg_reg q j) (pin_af M K p pin af mode d) = val M (cfg_reg q j) d"
      unfolding e stable_wr_other [OF s False [symmetric]] stable_rd_snd [OF s] v2 ..
    then show ?thesis using ne by (simp only: pin_mode_def if_False)
  qed
qed

lemma pin_af_mux:
  assumes "stable M (clk_reg HB2)" "mux_gated M K mux" "K ''RCC_HB2Periph_AFIO'' \<noteq> 0"
  shows "mux (pin_af M K p pin af mode d) = (if af = AF_NONE then mux d else (mux d)((p, pin) := af))"
  using assms(2) mux_clock_enable [OF assms(2)] afio_on [OF assms(1,3)]
  by (simp add: pin_af_def Let_def split_beta mux_gated_def)

lemma pin_af_clock:
  assumes "stable M (clk_reg HB2)"
  shows "val M (clk_reg HB2) (pin_af M K p pin af mode d) =
    val M (clk_reg HB2) d OR gpio_clock_bit K (Some p) OR K ''RCC_HB2Periph_AFIO''"
  using assms by (simp add: pin_af_def Let_def split_beta stable_simps clock_enable_stable or.assoc)

text \<open>
  C30. Configuring a pin sets the four-bit mode field of that pin and of no other pin of
  any port, routes the pad to the requested alternate function (AFIO's clock is on by the
  time the multiplexer is written, without which the write is lost) or leaves the
  multiplexer alone when none is asked for, and leaves the port's clock enabled.
\<close>

theorem pin_af_configures_one_pin:
  assumes "\<forall>q j. stable M (cfg_reg q j)" "stable M (clk_reg HB2)"
    and "mux_gated M K mux" "K ''RCC_HB2Periph_AFIO'' \<noteq> 0"
    and "unat pin < 16" "unat mode < 16"
  shows "(\<forall>q j. unat j < 16 \<longrightarrow> pin_mode M q j (pin_af M K p pin af mode d) =
            (if (q, j) = (p, pin) then ucast mode else pin_mode M q j d)) \<and>
         mux (pin_af M K p pin af mode d) =
           (if af = AF_NONE then mux d else (mux d)((p, pin) := af)) \<and>
         val M (clk_reg HB2) (pin_af M K p pin af mode d) =
           val M (clk_reg HB2) d OR gpio_clock_bit K (Some p) OR K ''RCC_HB2Periph_AFIO''"
  using pin_mode_after [OF assms(1,5,6)] pin_af_mux [OF assms(2-4)] pin_af_clock [OF assms(2)]
  by (intro conjI allI impI)

text \<open>The simulated multiplexer: what the logged SDK calls switched each pad to.\<close>

fun mux_step :: "(port \<times> u8 \<Rightarrow> u8) \<Rightarrow> sdk \<Rightarrow> port \<times> u8 \<Rightarrow> u8" where
  "mux_step m (Call f [Sym n, Num i, Num a]) =
     (\<lambda>(p, pin). if f = ''GPIO_PinAFConfig'' \<and> n = port_name p \<and> i = ucast pin
                 then ucast a else m (p, pin))"
| "mux_step m _ = m"

definition sim_mux :: "sim \<Rightarrow> port \<times> u8 \<Rightarrow> u8" where
  "sim_mux d = foldl mux_step (\<lambda>_. 0) (calls d)"

definition sim_bits :: "string \<Rightarrow> u32" where
  "sim_bits c = (if c = ''RCC_HB2Periph_AFIO'' then 1 else if c = ''RCC_HB2Periph_GPIOB'' then 8 else 64)"

lemma sim_mux_gated: "mux_gated (sim_machine ov) K sim_mux"
  by (auto simp: mux_gated_def sim_machine_def sim_mux_def fun_eq_iff)

theorem pin_af_configures_one_pin_witness:
  "pin_mode (sim_machine (\<lambda>_. None)) GPIOB 9
     (pin_af (sim_machine (\<lambda>_. None)) sim_bits GPIOB 9 7 CFG_AF_PP_50 sim_init) = 0xB \<and>
   sim_mux (pin_af (sim_machine (\<lambda>_. None)) sim_bits GPIOB 9 7 CFG_AF_PP_50 sim_init) (GPIOB, 9) = 7"
proof -
  have s: "\<forall>q j. stable (sim_machine (\<lambda>_. None)) (cfg_reg q j)" "stable (sim_machine (\<lambda>_. None)) (clk_reg HB2)"
    "sim_bits ''RCC_HB2Periph_AFIO'' \<noteq> 0" by (simp_all add: sim_stable sim_bits_def)
  have "unat (9 :: u8) < 16" "unat CFG_AF_PP_50 < 16" by (simp_all add: CFG_AF_PP_50_def)
  note t = pin_af_configures_one_pin [where M = "sim_machine (\<lambda>_. None)" and K = sim_bits and mux = sim_mux,
      OF s(1,2) sim_mux_gated s(3) this, of GPIOB 7 sim_init]
  have "pin_mode (sim_machine (\<lambda>_. None)) GPIOB 9
      (pin_af (sim_machine (\<lambda>_. None)) sim_bits GPIOB 9 7 CFG_AF_PP_50 sim_init) = ucast CFG_AF_PP_50"
    using t by simp
  moreover have "sim_mux (pin_af (sim_machine (\<lambda>_. None)) sim_bits GPIOB 9 7 CFG_AF_PP_50 sim_init) (GPIOB, 9) = 7"
    using t by (simp add: AF_NONE_def)
  ultimately show ?thesis by (simp add: CFG_AF_PP_50_def)
qed

section \<open>What a reset does\<close>

lemma block_reset_log:
  assumes "logs M wl" "stable M (rst_reg b)"
  shows "wl (snd (snd (block_reset M K b x (n, d)))) = wl d @
    (if x AND reset_forbidden K b \<noteq> 0 then []
     else [(rst_reg b, val M (rst_reg b) d OR x), (rst_reg b, val M (rst_reg b) d AND NOT x)])"
proof -
  have "(v OR x) AND NOT x = v AND NOT x" for v :: u32 by (rule bit_word_eqI) (auto simp: bit_simps)
  then show ?thesis
    using assms by (simp add: block_reset_def m_touch_def logs_simps stable_simps)
qed

lemma block_reset_val:
  assumes "stable M (rst_reg c)" "stable M (rst_reg b)"
  shows "val M (rst_reg c) (snd (snd (block_reset M K b x (n, d)))) =
    (if x AND reset_forbidden K b = 0 \<and> c = b then val M (rst_reg b) d AND NOT x else val M (rst_reg c) d)"
proof -
  have "(v OR x) AND NOT x = v AND NOT x" for v :: u32 by (rule bit_word_eqI) (auto simp: bit_simps)
  moreover have "c \<noteq> b \<Longrightarrow> rst_reg b \<noteq> rst_reg c" by (cases c; cases b) (simp_all add: rst_reg_def)
  ultimately show ?thesis
    using assms by (auto simp: block_reset_def m_touch_def stable_simps)
qed

fun resets :: "'d machine \<Rightarrow> (string \<Rightarrow> u32) \<Rightarrow> (bus \<times> u32) list \<Rightarrow> u32 \<times> 'd \<Rightarrow> u32 \<times> 'd" where
  "resets M K [] s = s"
| "resets M K ((b, x) # qs) s = resets M K qs (snd (block_reset M K b x s))"

lemma resets_clear:
  assumes "\<forall>b. stable M (rst_reg b)" "\<forall>b. val M (rst_reg b) d AND reset_forbidden K b = 0"
  shows "val M (rst_reg c) (snd (resets M K qs (n, d))) AND reset_forbidden K c = 0"
  using assms(2)
proof (induction qs arbitrary: n d)
  case (Cons q qs)
  obtain b x where q: "q = (b, x)" by (cases q)
  obtain r n1 d1 where e: "block_reset M K b x (n, d) = (r, n1, d1)" by (cases "block_reset M K b x (n, d)")
  have "val M (rst_reg c) d1 = val M (rst_reg c) d \<or> val M (rst_reg c) d1 = val M (rst_reg c) d AND NOT x" for c
    using block_reset_val [of M c b K x n d] assms(1) e by auto
  then have "\<forall>c. val M (rst_reg c) d1 AND reset_forbidden K c = 0"
    using Cons.prems and_not_disjoint by metis
  then show ?case using Cons.IH [of d1 n1] q e by simp
qed simp

text \<open>
  C15. Whatever resets the drivers ask for, in whatever order, a reset register is never
  written with the bit of a block that must not be reset (the ports and AFIO, the power
  and backup domains, DMA1, the Ethernet block) if none was set to begin with; a refused
  request writes no reset register at all, answers -1 and is counted, and an accepted one
  writes the pulse and then releases it.
\<close>

theorem protected_blocks_never_reset:
  assumes "logs M wl" "\<forall>b. stable M (rst_reg b)"
    and "\<forall>b. val M (rst_reg b) d AND reset_forbidden K b = 0"
  shows "\<exists>n1 d1. resets M K qs (n, d) = (n1, d1) \<and>
    block_reset M K b x (n1, d1) =
      (if x AND reset_forbidden K b \<noteq> 0 then (-1, n1 + 1, d1)
       else (0, n1, snd (snd (block_reset M K b x (n1, d1))))) \<and>
    (\<exists>ws. wl (snd (snd (block_reset M K b x (n1, d1)))) = wl d1 @ ws \<and>
       ws = (if x AND reset_forbidden K b \<noteq> 0 then []
             else [(rst_reg b, val M (rst_reg b) d1 OR x), (rst_reg b, val M (rst_reg b) d1 AND NOT x)]) \<and>
       (\<forall>(r, v) \<in> set ws. r = rst_reg b \<and> v AND reset_forbidden K b = 0))"
proof -
  obtain n1 d1 where e: "resets M K qs (n, d) = (n1, d1)" by (cases "resets M K qs (n, d)")
  have c: "val M (rst_reg b) d1 AND reset_forbidden K b = 0"
    using resets_clear [OF assms(2,3), of b qs n] e by simp
  have l: "wl (snd (snd (block_reset M K b x (n1, d1)))) = wl d1 @
    (if x AND reset_forbidden K b \<noteq> 0 then []
     else [(rst_reg b, val M (rst_reg b) d1 OR x), (rst_reg b, val M (rst_reg b) d1 AND NOT x)])"
    using assms(1,2) by (intro block_reset_log) auto
  show ?thesis
    by (rule exI [of _ n1], rule exI [of _ d1]) (use e c l in \<open>auto simp: block_reset_def and_not_disjoint or_disjoint\<close>)
qed

theorem protected_blocks_never_reset_witness:
  "\<exists>n1 d1. resets (sim_machine (\<lambda>_. None)) sim_bits [(HB2, 8), (HB1, 4)] (0, sim_init) = (n1, d1) \<and>
    fst (block_reset (sim_machine (\<lambda>_. None)) sim_bits HB2 9 (n1, d1)) = - 1 \<and>
    fst (snd (block_reset (sim_machine (\<lambda>_. None)) sim_bits HB2 9 (n1, d1))) = n1 + 1"
proof -
  have s: "\<forall>b. stable (sim_machine (\<lambda>_. None)) (rst_reg b)"
    "\<forall>b. val (sim_machine (\<lambda>_. None)) (rst_reg b) sim_init AND reset_forbidden sim_bits b = 0"
    by (simp add: sim_stable) (simp add: val_def sim_machine_def sim_init_def)
  have f: "9 AND reset_forbidden sim_bits HB2 \<noteq> 0"
    by (simp add: reset_forbidden_def hb2_forbidden_def sim_bits_def)
  from protected_blocks_never_reset [OF sim_logs s, of "[(HB2, 8), (HB1, 4)]" 0 HB2 9]
  obtain n1 d1 where "resets (sim_machine (\<lambda>_. None)) sim_bits [(HB2, 8), (HB1, 4)] (0, sim_init) = (n1, d1)"
    "block_reset (sim_machine (\<lambda>_. None)) sim_bits HB2 9 (n1, d1) = (-1, n1 + 1, d1)"
    using f by auto
  then show ?thesis by auto
qed

end
