(* ===== verification/Owners.thy ===== *)
theory Owners
  imports Prelude
begin

text \<open>
  The interface of a table of claimable resources.  Timers and external-interrupt lines
  are handed out the same way: a slot is free or held by one owner, a claim by anyone else
  is refused, only the holder gives the slot back.  The laws are stated over the map from
  slots to holders; what follows from them for any sequence of requests is proved here
  once.
\<close>

section \<open>Requests, and the map they should act on\<close>

datatype ('k, 'o) request = Claim 'k 'o | Release 'k 'o

type_synonym ('k, 'o) holding = "'k \<Rightarrow> 'o option"

fun spec_serve :: "('k \<Rightarrow> 'o \<Rightarrow> bool) \<Rightarrow> ('k, 'o) request \<Rightarrow> ('k, 'o) holding \<Rightarrow> bool \<times> ('k, 'o) holding"
where
  "spec_serve ok (Claim k ow) h =
     (if ok k ow \<and> (h k = None \<or> h k = Some ow) then (True, h(k \<mapsto> ow)) else (False, h))"
| "spec_serve ok (Release k ow) h = (True, if h k = Some ow then h(k := None) else h)"

fun spec_serve_all ::
  "('k \<Rightarrow> 'o \<Rightarrow> bool) \<Rightarrow> ('k, 'o) request list \<Rightarrow> ('k, 'o) holding \<Rightarrow> bool list \<times> ('k, 'o) holding"
where
  "spec_serve_all ok [] h = ([], h)"
| "spec_serve_all ok (q # qs) h =
     (case spec_serve ok q h of (a, h1) \<Rightarrow>
        case spec_serve_all ok qs h1 of (as, h2) \<Rightarrow> (a # as, h2))"

lemma spec_holder_stays:
  assumes "h k = Some ow" "Release k ow \<notin> set qs"
  shows "snd (spec_serve_all ok qs h) k = Some ow"
  using assms
proof (induction qs arbitrary: h)
  case (Cons q qs)
  have "snd (spec_serve ok q h) k = Some ow"
    using Cons.prems by (cases q) auto
  then show ?case using Cons by (simp add: split_beta)
qed simp

lemma spec_claim_denied:
  assumes "h k = Some ow" "Release k ow \<notin> set qs" "i < size qs" "qs ! i = Claim k ow'" "ow' \<noteq> ow"
  shows "\<not> fst (spec_serve_all ok qs h) ! i"
  using assms
proof (induction qs arbitrary: h i)
  case (Cons q qs)
  have s: "snd (spec_serve ok q h) k = Some ow"
    using Cons.prems by (cases q) auto
  show ?case
  proof (cases i)
    case 0
    then show ?thesis using Cons.prems by (simp add: split_beta)
  next
    case (Suc j)
    then show ?thesis using Cons.IH [of "snd (spec_serve ok q h)" j, OF s] Cons.prems by (simp add: split_beta)
  qed
qed simp

section \<open>The interface\<close>

locale owner_table =
  fixes holder :: "'s \<Rightarrow> ('k, 'o) holding"
    and claim :: "'k \<Rightarrow> 'o \<Rightarrow> 's \<Rightarrow> bool \<times> 's"
    and release :: "'k \<Rightarrow> 'o \<Rightarrow> 's \<Rightarrow> 's"
    and ok :: "'k \<Rightarrow> 'o \<Rightarrow> bool"
    and inv :: "'s \<Rightarrow> bool"
  assumes claim_answer: "inv s \<Longrightarrow> fst (claim k ow s) = (ok k ow \<and> (holder s k = None \<or> holder s k = Some ow))"
    and claim_holder: "inv s \<Longrightarrow>
      holder (snd (claim k ow s)) = (if fst (claim k ow s) then (holder s)(k \<mapsto> ow) else holder s)"
    and claim_inv: "inv s \<Longrightarrow> inv (snd (claim k ow s))"
    and release_holder: "inv s \<Longrightarrow>
      holder (release k ow s) = (if holder s k = Some ow then (holder s)(k := None) else holder s)"
    and release_inv: "inv s \<Longrightarrow> inv (release k ow s)"
begin

fun serve :: "('k, 'o) request \<Rightarrow> 's \<Rightarrow> bool \<times> 's" where
  "serve (Claim k ow) s = claim k ow s"
| "serve (Release k ow) s = (True, release k ow s)"

fun serve_all :: "('k, 'o) request list \<Rightarrow> 's \<Rightarrow> bool list \<times> 's" where
  "serve_all [] s = ([], s)"
| "serve_all (q # qs) s =
     (case serve q s of (a, s1) \<Rightarrow> case serve_all qs s1 of (as, s2) \<Rightarrow> (a # as, s2))"

lemma serve_refines:
  "inv s \<Longrightarrow> inv (snd (serve q s)) \<and>
     spec_serve ok q (holder s) = (fst (serve q s), holder (snd (serve q s)))"
  by (cases q) (auto simp: claim_answer claim_holder claim_inv release_holder release_inv)

lemma serve_all_refines:
  "inv s \<Longrightarrow> inv (snd (serve_all qs s)) \<and>
     spec_serve_all ok qs (holder s) = (fst (serve_all qs s), holder (snd (serve_all qs s)))"
proof (induction qs arbitrary: s)
  case (Cons q qs)
  then show ?case using serve_refines [of s q]
    by (auto simp: split_beta)
qed simp

text \<open>No request of anyone else takes a held slot away.\<close>

lemma holder_stays:
  assumes "inv s" "holder s k = Some ow" "Release k ow \<notin> set qs"
  shows "holder (snd (serve_all qs s)) k = Some ow"
  using spec_holder_stays [of "holder s", OF assms(2,3), of ok] serve_all_refines [OF assms(1), of qs] by simp

lemma claim_denied:
  assumes "inv s" "holder s k = Some ow" "Release k ow \<notin> set qs"
    and "i < size qs" "qs ! i = Claim k ow'" "ow' \<noteq> ow"
  shows "\<not> fst (serve_all qs s) ! i"
  using spec_claim_denied [of "holder s", OF assms(2-6), of ok] serve_all_refines [OF assms(1), of qs] by simp

end

end
