(* ===== verification/Timers.thy ===== *)
theory Timers
  imports Rcc Owners
begin

text \<open>
  The hardware timers: who holds each of the twelve, their clocks and resets, and the
  update interrupt (\<^verbatim>\<open>ch32h4_timer.c\<close>).  Handlers are values of a type \<open>'h\<close>; what
  calling one does is the argument \<open>run\<close> of the dispatcher.
\<close>

section \<open>The tables\<close>

definition TIMER_FREE :: u8 where "TIMER_FREE = 0"
definition TIMER_PWM :: u8 where "TIMER_PWM = 1"
definition TIMER_TONE :: u8 where "TIMER_TONE = 2"
definition TIMER_SERVO :: u8 where "TIMER_SERVO = 3"
definition TIMER_I2S :: u8 where "TIMER_I2S = 4"
definition TIMER_ADC :: u8 where "TIMER_ADC = 5"
definition TIMER_USER :: u8 where "TIMER_USER = 6"
definition TIMER_TICKER :: u8 where "TIMER_TICKER = 7"
definition TIMER_AUDIO :: u8 where "TIMER_AUDIO = 8"

definition TIMER_COUNT :: u8 where "TIMER_COUNT = 12"

text \<open>Slot 0 is unused, so that the id and the index are the same number.\<close>

record 'h timers =
  t_owner :: "u8 list"
  t_fn :: "'h option list"
  t_ctx :: "u32 list"

definition timers_init :: "'h timers" where
  "timers_init = \<lparr>t_owner = replicate 13 0, t_fn = replicate 13 None, t_ctx = replicate 13 0\<rparr>"

text \<open>The peripheral, the bus it is clocked from and its bit there.\<close>

definition s_hw :: "(string \<Rightarrow> u32) \<Rightarrow> (string option \<times> bus \<times> u32) list" where
  "s_hw K =
     [(None, HB1, 0),
      (Some ''TIM1'', HB2, K ''RCC_HB2Periph_TIM1''),
      (Some ''TIM2'', HB1, K ''RCC_HB1Periph_TIM2''),
      (Some ''TIM3'', HB1, K ''RCC_HB1Periph_TIM3''),
      (Some ''TIM4'', HB1, K ''RCC_HB1Periph_TIM4''),
      (Some ''TIM5'', HB1, K ''RCC_HB1Periph_TIM5''),
      (Some ''TIM6'', HB1, K ''RCC_HB1Periph_TIM6''),
      (Some ''TIM7'', HB1, K ''RCC_HB1Periph_TIM7''),
      (Some ''TIM8'', HB2, K ''RCC_HB2Periph_TIM8''),
      (Some ''TIM9'', HB2, K ''RCC_HB2Periph_TIM9''),
      (Some ''TIM10'', HB2, K ''RCC_HB2Periph_TIM10''),
      (Some ''TIM11'', HB2, K ''RCC_HB2Periph_TIM11''),
      (Some ''TIM12'', HB2, K ''RCC_HB2Periph_TIM12'')]"

definition timer_valid :: "u8 \<Rightarrow> bool" where
  "timer_valid i \<longleftrightarrow> i \<ge> 1 \<and> i \<le> TIMER_COUNT"

section \<open>Ownership\<close>

definition timer_claim :: "u8 \<Rightarrow> u8 \<Rightarrow> 'h timers \<Rightarrow> bool \<times> 'h timers" where
  "timer_claim i ow t =
     (if \<not> timer_valid i \<or> ow = TIMER_FREE then (False, t)
      else if t_owner t ! unat i = TIMER_FREE \<or> t_owner t ! unat i = ow
      then (True, t\<lparr>t_owner := (t_owner t)[unat i := ow]\<rparr>)
      else (False, t))"

definition timer_release :: "u8 \<Rightarrow> u8 \<Rightarrow> 'h timers \<Rightarrow> 'h timers" where
  "timer_release i ow t =
     (if timer_valid i \<and> t_owner t ! unat i = ow
      then t\<lparr>t_owner := (t_owner t)[unat i := TIMER_FREE]\<rparr> else t)"

definition timer_owner :: "u8 \<Rightarrow> 'h timers \<Rightarrow> u8" where
  "timer_owner i t = (if timer_valid i then t_owner t ! unat i else TIMER_FREE)"

definition timer_owner_name :: "u8 \<Rightarrow> string" where
  "timer_owner_name ow =
     (if ow = TIMER_PWM then ''PWM'' else if ow = TIMER_TONE then ''tone''
      else if ow = TIMER_SERVO then ''Servo'' else if ow = TIMER_I2S then ''I2S''
      else if ow = TIMER_ADC then ''ADC'' else if ow = TIMER_USER then ''user''
      else if ow = TIMER_TICKER then ''Ticker'' else if ow = TIMER_AUDIO then ''audio''
      else ''free'')"

section \<open>The peripheral\<close>

definition timer_dev :: "(string \<Rightarrow> u32) \<Rightarrow> u8 \<Rightarrow> string option" where
  "timer_dev K i = (if timer_valid i then fst (s_hw K ! unat i) else None)"

definition timer_clock_enable :: "'d machine \<Rightarrow> (string \<Rightarrow> u32) \<Rightarrow> u8 \<Rightarrow> 'd \<Rightarrow> 'd" where
  "timer_clock_enable M K i d =
     (if timer_valid i then case s_hw K ! unat i of (_, b, x) \<Rightarrow> clock_enable M b x d else d)"

definition timer_reset :: "'d machine \<Rightarrow> (string \<Rightarrow> u32) \<Rightarrow> u8 \<Rightarrow> u32 \<times> 'd \<Rightarrow> u32 \<times> 'd" where
  "timer_reset M K i s =
     (if timer_valid i then case s_hw K ! unat i of (_, b, x) \<Rightarrow> snd (block_reset M K b x s) else s)"

text \<open>The interrupt numbers are vendor constants too, named by \<open>I\<close>; -1 is not routed.\<close>

definition timer_irqn :: "(string \<Rightarrow> int) \<Rightarrow> u8 \<Rightarrow> int" where
  "timer_irqn I i = (if i = 2 then I ''TIM2_IRQn'' else if i = 3 then I ''TIM3_IRQn''
     else if i = 4 then I ''TIM4_IRQn'' else if i = 5 then I ''TIM5_IRQn'' else -1)"

section \<open>The update interrupt\<close>

text \<open>
  Registration is two stores with a compiler barrier between them; an interrupt may arrive
  between the two.
\<close>

definition store_ctx :: "u8 \<Rightarrow> u32 \<Rightarrow> 'h timers \<Rightarrow> 'h timers" where
  "store_ctx i ctx t = t\<lparr>t_ctx := (t_ctx t)[unat i := ctx]\<rparr>"

definition store_fn :: "u8 \<Rightarrow> 'h option \<Rightarrow> 'h timers \<Rightarrow> 'h timers" where
  "store_fn i fn t = t\<lparr>t_fn := (t_fn t)[unat i := fn]\<rparr>"

definition attach_stores :: "u8 \<Rightarrow> 'h \<Rightarrow> u32 \<Rightarrow> ('h timers \<Rightarrow> 'h timers) list" where
  "attach_stores i fn ctx = (if \<not> timer_valid i then [] else [store_ctx i ctx, store_fn i (Some fn)])"

definition timer_attach_irq :: "u8 \<Rightarrow> 'h \<Rightarrow> u32 \<Rightarrow> 'h timers \<Rightarrow> 'h timers" where
  "timer_attach_irq i fn ctx t = do_all (attach_stores i fn ctx) t"

definition timer_detach_irq ::
  "'d machine \<Rightarrow> (string \<Rightarrow> u32) \<Rightarrow> u8 \<Rightarrow> 'h timers \<times> 'd \<Rightarrow> 'h timers \<times> 'd" where
  "timer_detach_irq M K i s = (case s of (t, d) \<Rightarrow>
     if \<not> timer_valid i then (t, d)
     else (store_fn i None t,
           case fst (s_hw K ! unat i) of
             Some dev \<Rightarrow> m_call M (Call ''TIM_ITConfig'' [Sym dev, Sym ''TIM_IT_Update'', Sym ''DISABLE'']) d
           | None \<Rightarrow> d))"

definition timer_dispatch ::
  "'d machine \<Rightarrow> (string \<Rightarrow> u32) \<Rightarrow> ('h \<Rightarrow> u8 \<Rightarrow> u32 \<Rightarrow> 'h timers \<times> 'd \<Rightarrow> 'h timers \<times> 'd) \<Rightarrow>
   u8 \<Rightarrow> 'h timers \<times> 'd \<Rightarrow> 'h timers \<times> 'd" where
  "timer_dispatch M K run i s = (case s of (t, d) \<Rightarrow>
     case fst (s_hw K ! unat i) of
       None \<Rightarrow> (t, d)
     | Some dev \<Rightarrow>
         (case m_ask M (Call ''TIM_GetITStatus'' [Sym dev, Sym ''TIM_IT_Update'']) d of (st, d1) \<Rightarrow>
            if st = 0 then (t, d1)
            else (let d2 = m_call M (Call ''TIM_ClearITPendingBit'' [Sym dev, Sym ''TIM_IT_Update'']) d1
                  in case t_fn t ! unat i of
                       None \<Rightarrow> (t, d2)
                     | Some fn \<Rightarrow> run fn i (t_ctx t ! unat i) (t, d2))))"

definition TIM2_IRQHandler where "TIM2_IRQHandler M K run = timer_dispatch M K run 2"
definition TIM3_IRQHandler where "TIM3_IRQHandler M K run = timer_dispatch M K run 3"
definition TIM4_IRQHandler where "TIM4_IRQHandler M K run = timer_dispatch M K run 4"
definition TIM5_IRQHandler where "TIM5_IRQHandler M K run = timer_dispatch M K run 5"

section \<open>The owner table\<close>

definition timers_wf :: "'h timers \<Rightarrow> bool" where
  "timers_wf t \<longleftrightarrow> size (t_owner t) = 13 \<and> size (t_fn t) = 13 \<and> size (t_ctx t) = 13"

definition timer_holder :: "'h timers \<Rightarrow> (u8, u8) holding" where
  "timer_holder t i = (if timer_owner i t = TIMER_FREE then None else Some (timer_owner i t))"

lemma timer_valid_iff: "timer_valid i \<longleftrightarrow> 1 \<le> unat i \<and> unat i \<le> 12"
  by (simp add: timer_valid_def TIMER_COUNT_def word_le_nat_alt)

lemma timers_init_wf: "timers_wf timers_init"
  by (simp add: timers_wf_def timers_init_def)

lemma timer_owner_update:
  assumes "timers_wf t" "timer_valid i"
  shows "timer_owner j (t\<lparr>t_owner := (t_owner t)[unat i := ow]\<rparr>) = (if j = i then ow else timer_owner j t)"
  using assms by (auto simp: timer_owner_def timers_wf_def timer_valid_iff word_unat_eq_iff nth_list_update)

interpretation timers: owner_table timer_holder timer_claim timer_release
  "\<lambda>i ow. timer_valid i \<and> ow \<noteq> TIMER_FREE" timers_wf
proof (unfold_locales, goal_cases)
  case (1 t i ow)
  then show ?case by (auto simp: timer_claim_def timer_holder_def timer_owner_def)
next
  case (2 t i ow)
  then show ?case
    by (auto simp: timer_claim_def timer_holder_def timer_owner_update fun_eq_iff)
next
  case (3 t i ow)
  then show ?case by (auto simp: timer_claim_def timers_wf_def)
next
  case (4 t i ow)
  show ?case
  proof (cases "timer_valid i \<and> t_owner t ! unat i = ow")
    case True
    then show ?thesis using 4
      by (auto simp: timer_release_def timer_holder_def timer_owner_update fun_eq_iff)
         (simp_all add: timer_owner_def)
  next
    case False
    then show ?thesis by (auto simp: timer_release_def timer_holder_def timer_owner_def split: if_splits)
  qed
next
  case (5 t i ow)
  then show ?case by (auto simp: timer_release_def timers_wf_def)
qed

text \<open>
  C12. Timers are handed out like slots of a map.  For any sequence of claims and releases
  the answers are those of the map from timers to holders: a claim succeeds exactly when
  the id is 1 to 12, the owner is not the free marker and the timer is free or already the
  owner's; a release by anyone but the holder changes nothing.  So once a subsystem holds a
  timer it keeps it until its own release, and every claim by another is refused.
\<close>

theorem timers_granted_exclusively:
  assumes "timers_wf t"
  shows "spec_serve_all (\<lambda>i ow. timer_valid i \<and> ow \<noteq> TIMER_FREE) qs (timer_holder t) =
      (fst (timers.serve_all qs t), timer_holder (snd (timers.serve_all qs t))) \<and>
    (\<forall>i ow. timer_owner i t = ow \<and> ow \<noteq> TIMER_FREE \<and> Release i ow \<notin> set qs \<longrightarrow>
      timer_owner i (snd (timers.serve_all qs t)) = ow \<and>
      (\<forall>n ow'. n < size qs \<longrightarrow> qs ! n = Claim i ow' \<longrightarrow> ow' \<noteq> ow \<longrightarrow> \<not> fst (timers.serve_all qs t) ! n))"
proof (intro conjI allI impI)
  show "spec_serve_all (\<lambda>i ow. timer_valid i \<and> ow \<noteq> TIMER_FREE) qs (timer_holder t) =
      (fst (timers.serve_all qs t), timer_holder (snd (timers.serve_all qs t)))"
    using timers.serve_all_refines [OF assms] by blast
next
  fix i ow assume h: "timer_owner i t = ow \<and> ow \<noteq> TIMER_FREE \<and> Release i ow \<notin> set qs"
  then have k: "timer_holder t i = Some ow" "Release i ow \<notin> set qs" by (auto simp: timer_holder_def)
  have "timer_holder (snd (timers.serve_all qs t)) i = Some ow"
    by (rule timers.holder_stays [OF assms k])
  then show "timer_owner i (snd (timers.serve_all qs t)) = ow"
    by (auto simp: timer_holder_def split: if_splits)
  show "\<not> fst (timers.serve_all qs t) ! n" if "n < size qs" "qs ! n = Claim i ow'" "ow' \<noteq> ow" for n ow'
    by (rule timers.claim_denied [OF assms k that])
qed

theorem timers_granted_exclusively_witness:
  "fst (timers.serve_all [Claim 4 TIMER_TONE, Claim 4 TIMER_SERVO, Claim 13 TIMER_PWM]
     (timers_init :: unit timers)) = [True, False, False] \<and>
   timer_owner 4 (snd (timers.serve_all [Claim 4 TIMER_SERVO, Release 4 TIMER_PWM]
     (snd (timer_claim 4 TIMER_TONE (timers_init :: unit timers))))) = TIMER_TONE"
proof -
  let ?t = "timers_init :: unit timers"
  have "fst (timers.serve_all [Claim 4 TIMER_TONE, Claim 4 TIMER_SERVO, Claim 13 TIMER_PWM] ?t) =
      fst (spec_serve_all (\<lambda>i ow. timer_valid i \<and> ow \<noteq> TIMER_FREE)
        [Claim 4 TIMER_TONE, Claim 4 TIMER_SERVO, Claim 13 TIMER_PWM] (timer_holder ?t))"
    using timers_granted_exclusively [OF timers_init_wf, THEN conjunct1] by (metis fst_conv)
  also have "\<dots> = [True, False, False]"
    by (simp add: timer_holder_def timer_owner_def timers_init_def timer_valid_def TIMER_COUNT_def
        TIMER_FREE_def TIMER_TONE_def TIMER_SERVO_def TIMER_PWM_def)
  finally have a: "fst (timers.serve_all [Claim 4 TIMER_TONE, Claim 4 TIMER_SERVO, Claim 13 TIMER_PWM] ?t) =
      [True, False, False]" .
  have w: "timers_wf (snd (timer_claim 4 TIMER_TONE ?t))"
    by (rule timers.claim_inv [OF timers_init_wf])
  have o: "timer_owner 4 (snd (timer_claim 4 TIMER_TONE ?t)) = TIMER_TONE"
    by (simp add: timer_claim_def timer_owner_def timers_init_def timer_valid_def TIMER_COUNT_def
        TIMER_FREE_def TIMER_TONE_def)
  have "timer_owner 4 (snd (timers.serve_all [Claim 4 TIMER_SERVO, Release 4 TIMER_PWM]
      (snd (timer_claim 4 TIMER_TONE ?t)))) = TIMER_TONE"
    using timers_granted_exclusively [OF w, of "[Claim 4 TIMER_SERVO, Release 4 TIMER_PWM]", THEN conjunct2,
        rule_format, of 4 TIMER_TONE] o
    by (simp add: TIMER_FREE_def TIMER_TONE_def TIMER_PWM_def)
  with a show ?thesis by blast
qed

section \<open>Registering and delivering the update interrupt\<close>

text \<open>
  \<open>timer_flag M dev p\<close>: \<open>p\<close> is the timer's update flag; the SDK's two calls read it and
  clear it.
\<close>

definition timer_flag :: "'d machine \<Rightarrow> string \<Rightarrow> ('d \<Rightarrow> bool) \<Rightarrow> bool" where
  "timer_flag M dev p \<longleftrightarrow>
     (\<forall>d. (fst (m_ask M (Call ''TIM_GetITStatus'' [Sym dev, Sym ''TIM_IT_Update'']) d) \<noteq> 0 \<longleftrightarrow> p d)) \<and>
     (\<forall>d. \<not> p (m_call M (Call ''TIM_ClearITPendingBit'' [Sym dev, Sym ''TIM_IT_Update'']) d))"

text \<open>What the two stores leave in the slot, whenever the interrupt arrives.\<close>

lemma attach_prefix:
  assumes "timers_wf t" "timer_valid i" "n \<le> 2"
  shows "t_fn (do_all (take n (attach_stores i fn ctx)) t) ! unat i = (if n = 2 then Some fn else t_fn t ! unat i)"
    "t_ctx (do_all (take n (attach_stores i fn ctx)) t) ! unat i = (if n = 0 then t_ctx t ! unat i else ctx)"
proof -
  let ?t = "do_all (take n (attach_stores i fn ctx)) t"
  consider "n = 0" | "n = 1" | "n = 2" using assms(3) by linarith
  then have "t_fn ?t ! unat i = (if n = 2 then Some fn else t_fn t ! unat i) \<and>
      t_ctx ?t ! unat i = (if n = 0 then t_ctx t ! unat i else ctx)"
    using assms(1,2)
    by cases (auto simp: attach_stores_def store_ctx_def store_fn_def timers_wf_def timer_valid_iff)
  then show "t_fn ?t ! unat i = (if n = 2 then Some fn else t_fn t ! unat i)"
    "t_ctx ?t ! unat i = (if n = 0 then t_ctx t ! unat i else ctx)" by blast+
qed

text \<open>
  Delivery of the update interrupt.  The flag is cleared before the handler runs, so a
  period that ends during the handler is not lost; without the flag nothing is called.  On a
  slot with no handler, whenever the interrupt arrives during a registration, the handler
  runs with its own context or not at all; after it, it runs.
\<close>

theorem timer_interrupt_delivery:
  assumes "timers_wf t" "timer_valid i" "t_fn t ! unat i = None"
    and "fst (s_hw K ! unat i) = Some dev" "timer_flag M dev p" "n \<le> 2"
    and "t' = do_all (take n (attach_stores i fn ctx)) t"
  shows "\<exists>d'. timer_dispatch M K run i (t', d) =
      (if p d \<and> n = 2 then run fn i ctx (t', d') else (t', d')) \<and> (p d \<longrightarrow> \<not> p d')"
proof -
  obtain st d1 where a: "m_ask M (Call ''TIM_GetITStatus'' [Sym dev, Sym ''TIM_IT_Update'']) d = (st, d1)"
    by (cases "m_ask M (Call ''TIM_GetITStatus'' [Sym dev, Sym ''TIM_IT_Update'']) d")
  have st: "st \<noteq> 0 \<longleftrightarrow> p d" using assms(5) a unfolding timer_flag_def by (metis fst_conv)
  have cl: "\<not> p (m_call M (Call ''TIM_ClearITPendingBit'' [Sym dev, Sym ''TIM_IT_Update'']) d1)"
    using assms(5) unfolding timer_flag_def by blast
  note s = attach_prefix [OF assms(1,2,6), of fn ctx, folded assms(7)]
  show ?thesis
  proof (cases "p d")
    case True
    then show ?thesis using st cl assms(3,4) a s
      by (intro exI [of _ "m_call M (Call ''TIM_ClearITPendingBit'' [Sym dev, Sym ''TIM_IT_Update'']) d1"])
         (simp add: timer_dispatch_def Let_def)
  next
    case False
    then show ?thesis using st assms(4) a
      by (intro exI [of _ d1]) (simp add: timer_dispatch_def Let_def)
  qed
qed

text \<open>
  Over a slot that already has a handler the two stores are not atomic: between them an
  interrupt runs the old handler with the new context.
\<close>

lemma timer_replacement_window:
  assumes "timers_wf t" "timer_valid i" "t_fn t ! unat i = Some old"
    and "fst (s_hw K ! unat i) = Some dev" "timer_flag M dev p" "p d"
    and "t' = do_all (take 1 (attach_stores i fn ctx)) t"
  shows "\<exists>d'. timer_dispatch M K run i (t', d) = run old i ctx (t', d')"
proof -
  obtain st d1 where a: "m_ask M (Call ''TIM_GetITStatus'' [Sym dev, Sym ''TIM_IT_Update'']) d = (st, d1)"
    by (cases "m_ask M (Call ''TIM_GetITStatus'' [Sym dev, Sym ''TIM_IT_Update'']) d")
  have "st \<noteq> 0" using assms(5,6) a unfolding timer_flag_def by (metis fst_conv)
  then show ?thesis using attach_prefix [OF assms(1,2), of 1 fn ctx, folded assms(7)] assms(3,4) a
    by (intro exI [of _ "m_call M (Call ''TIM_ClearITPendingBit'' [Sym dev, Sym ''TIM_IT_Update'']) d1"])
       (simp add: timer_dispatch_def Let_def)
qed

text \<open>A machine with one update flag.\<close>

definition flag_machine :: "bool machine" where
  "flag_machine =
     \<lparr>m_rd = (\<lambda>r d. (0, d)), m_wr = (\<lambda>r v d. d), m_millis = (\<lambda>d. (0, d)),
      m_call = (\<lambda>c d. if c = Call ''TIM_ClearITPendingBit'' [Sym ''TIM2'', Sym ''TIM_IT_Update'']
                       then False else d),
      m_ask = (\<lambda>c d. (if d then 1 else 0, d))\<rparr>"

theorem timer_interrupt_delivery_witness:
  "\<exists>d'. timer_dispatch flag_machine (\<lambda>_. 0) (\<lambda>fn i ctx (t, d). (t, \<not> d)) 2
      (timer_attach_irq 2 ''tick'' 7 timers_init, True) =
    (timer_attach_irq 2 ''tick'' 7 timers_init, \<not> d') \<and> \<not> d'"
proof -
  have "timer_valid 2" "timers_wf (timers_init :: char list timers)"
    "t_fn (timers_init :: char list timers) ! unat (2 :: u8) = None" "fst (s_hw (\<lambda>_. 0) ! unat (2 :: u8)) = Some ''TIM2''"
    "timer_flag flag_machine ''TIM2'' (\<lambda>d. d)"
    by (simp_all add: timers_init_wf) (simp_all add: timer_valid_iff timers_init_def s_hw_def timer_flag_def flag_machine_def)
  note t = timer_interrupt_delivery [OF this(2,1,3,4,5) order_refl refl,
      where fn = "''tick''" and ctx = 7 and run = "\<lambda>fn i ctx (t, d). (t, \<not> d)" and d = True]
  have "timer_attach_irq 2 ''tick'' 7 timers_init = do_all (take 2 (attach_stores 2 ''tick'' 7)) timers_init"
    by (simp add: timer_attach_irq_def attach_stores_def)
  then show ?thesis using t by simp
qed

end
