(* ===== verification/Pinmap.thy ===== *)
theory Pinmap
  imports Timers "HOL-Library.Sublist"
begin

text \<open>
  Pins, and which peripheral each can carry (\<^verbatim>\<open>ch32h4_gpio.h\<close>, \<^verbatim>\<open>ch32h4_pinmap.h\<close> and
  \<^verbatim>\<open>ch32h4_pinmap.c\<close>).  The tables belong to the package and are an argument of the
  lookups; an output parameter that may be null is the value of an option.
\<close>

section \<open>The rows\<close>

text \<open>\<open>pin_size_t\<close> is \<open>u8\<close>; an unused pin is \<open>(pin_size_t)-1\<close>.\<close>

definition PIN_NONE :: u8 where "PIN_NONE = 255"
definition ADC_NONE :: u8 where "ADC_NONE = 0xFF"

record pin_desc =
  p_port :: port
  p_bit :: u8
  p_adc :: u8

record pwm_af =
  w_pin :: u8
  w_timer :: u8
  w_channel :: u8
  w_negated :: bool
  w_af :: u8

record periph_pin =
  pp_id :: u8
  pp_pin :: u8
  pp_af :: u8

record i2c_pin =
  i_id :: u8
  i_scl :: u8
  i_sda :: u8
  i_af :: u8

text \<open>The rows as the tables write them.\<close>

definition prow :: "port \<Rightarrow> u8 \<Rightarrow> u8 \<Rightarrow> pin_desc" where
  "prow p b a = \<lparr>p_port = p, p_bit = b, p_adc = a\<rparr>"

definition wrow :: "u8 \<Rightarrow> u8 \<Rightarrow> u8 \<Rightarrow> bool \<Rightarrow> u8 \<Rightarrow> pwm_af" where
  "wrow p t c n a = \<lparr>w_pin = p, w_timer = t, w_channel = c, w_negated = n, w_af = a\<rparr>"

definition row3 :: "u8 \<Rightarrow> u8 \<Rightarrow> u8 \<Rightarrow> periph_pin" where
  "row3 i p a = \<lparr>pp_id = i, pp_pin = p, pp_af = a\<rparr>"

definition row4 :: "u8 \<Rightarrow> u8 \<Rightarrow> u8 \<Rightarrow> u8 \<Rightarrow> i2c_pin" where
  "row4 i c d a = \<lparr>i_id = i, i_scl = c, i_sda = d, i_af = a\<rparr>"

lemmas row_defs = prow_def wrow_def row3_def row4_def

abbreviation (input) PA :: "u8 \<Rightarrow> u8" where "PA n \<equiv> n"
abbreviation (input) PB :: "u8 \<Rightarrow> u8" where "PB n \<equiv> 16 + n"
abbreviation (input) PC :: "u8 \<Rightarrow> u8" where "PC n \<equiv> 32 + n"
abbreviation (input) PD :: "u8 \<Rightarrow> u8" where "PD n \<equiv> 48 + n"
abbreviation (input) PE :: "u8 \<Rightarrow> u8" where "PE n \<equiv> 64 + n"
abbreviation (input) PF :: "u8 \<Rightarrow> u8" where "PF n \<equiv> 80 + n"

record package =
  g_pins :: "pin_desc list"
  g_pin_bonded :: "u32 list"
  g_pwm_af_map :: "pwm_af list"
  g_spi_sck_map :: "periph_pin list"
  g_spi_miso_map :: "periph_pin list"
  g_spi_mosi_map :: "periph_pin list"
  g_spi_nss_map :: "periph_pin list"
  g_i2c_map :: "i2c_pin list"
  g_uart_tx_map :: "periph_pin list"
  g_uart_rx_map :: "periph_pin list"

text \<open>The pins a package's header gives the default instances; I2S pins with their function.\<close>

record default_pins =
  serial1_tx :: u8
  serial1_rx :: u8
  wire_scl :: u8
  wire_sda :: u8
  spi_sck :: u8
  spi_miso :: u8
  spi_mosi :: u8

record i2s_pins =
  i2s_ws :: "u8 \<times> u8"
  i2s_ck :: "u8 \<times> u8"
  i2s_sd :: "u8 \<times> u8"

text \<open>\<open>PinStatus\<close> and \<open>PinMode\<close>, the values of the Arduino API the core names.\<close>

datatype pin_status = LOW | HIGH | CHANGE | FALLING | RISING
datatype pin_mode = INPUT | OUTPUT | INPUT_PULLUP | INPUT_PULLDOWN | OUTPUT_OPENDRAIN

section \<open>Timer channels\<close>

fun pin_has_pwm :: "pwm_af list \<Rightarrow> u8 \<Rightarrow> bool" where
  "pin_has_pwm [] pin = False"
| "pin_has_pwm (e # es) pin = (if w_pin e = pin then True else pin_has_pwm es pin)"

fun pwm_find_on_timer :: "pwm_af list \<Rightarrow> u8 \<Rightarrow> u8 \<Rightarrow> u8 \<Rightarrow> pwm_af option" where
  "pwm_find_on_timer [] pin timer channel = None"
| "pwm_find_on_timer (e # es) pin timer channel =
     (if w_pin e = pin \<and> w_timer e = timer \<and> w_channel e = channel then Some e
      else pwm_find_on_timer es pin timer channel)"

fun pwm_find_from :: "'h timers \<Rightarrow> u8 \<Rightarrow> pwm_af option \<Rightarrow> pwm_af list \<Rightarrow> pwm_af option" where
  "pwm_find_from t pin first_free [] = first_free"
| "pwm_find_from t pin first_free (e # es) =
     (if w_pin e \<noteq> pin then pwm_find_from t pin first_free es
      else if w_negated e then pwm_find_from t pin first_free es
      else (let ow = timer_owner (w_timer e) t
            in if ow = TIMER_PWM then Some e
               else if ow = TIMER_FREE \<and> first_free = None then pwm_find_from t pin (Some e) es
               else pwm_find_from t pin first_free es))"

definition pwm_find :: "pwm_af list \<Rightarrow> 'h timers \<Rightarrow> u8 \<Rightarrow> pwm_af option" where
  "pwm_find tab t pin = pwm_find_from t pin None tab"

fun pwm_find_active :: "pwm_af list \<Rightarrow> 'h timers \<Rightarrow> u8 \<Rightarrow> pwm_af option" where
  "pwm_find_active [] t pin = None"
| "pwm_find_active (e # es) t pin =
     (if w_pin e = pin \<and> timer_owner (w_timer e) t = TIMER_PWM then Some e
      else pwm_find_active es t pin)"

section \<open>SPI, I2C and USART pins\<close>

fun find_periph_af :: "periph_pin list \<Rightarrow> u8 \<Rightarrow> u8 \<Rightarrow> u8 option" where
  "find_periph_af [] i pin = None"
| "find_periph_af (r # rs) i pin =
     (if pp_id r = i \<and> pp_pin r = pin then Some (pp_af r) else find_periph_af rs i pin)"

definition spi_sck_af :: "package \<Rightarrow> u8 \<Rightarrow> u8 \<Rightarrow> u8 option" where
  "spi_sck_af P = find_periph_af (g_spi_sck_map P)"
definition spi_miso_af :: "package \<Rightarrow> u8 \<Rightarrow> u8 \<Rightarrow> u8 option" where
  "spi_miso_af P = find_periph_af (g_spi_miso_map P)"
definition spi_mosi_af :: "package \<Rightarrow> u8 \<Rightarrow> u8 \<Rightarrow> u8 option" where
  "spi_mosi_af P = find_periph_af (g_spi_mosi_map P)"
definition spi_nss_af :: "package \<Rightarrow> u8 \<Rightarrow> u8 \<Rightarrow> u8 option" where
  "spi_nss_af P = find_periph_af (g_spi_nss_map P)"

text \<open>\<open>for (id = 1; id <= 4; id++)\<close>: the ids still to try.\<close>

fun spi_find_from :: "package \<Rightarrow> u8 list \<Rightarrow> u8 \<Rightarrow> u8 \<Rightarrow> u8 \<Rightarrow> u8" where
  "spi_find_from P [] sck miso mosi = 0"
| "spi_find_from P (i # is) sck miso mosi =
     (if spi_sck_af P i sck = None then spi_find_from P is sck miso mosi
      else if spi_mosi_af P i mosi = None then spi_find_from P is sck miso mosi
      else if miso \<noteq> PIN_NONE \<and> spi_miso_af P i miso = None then spi_find_from P is sck miso mosi
      else i)"

definition spi_find :: "package \<Rightarrow> u8 \<Rightarrow> u8 \<Rightarrow> u8 \<Rightarrow> u8" where
  "spi_find P = spi_find_from P [1, 2, 3, 4]"

text \<open>The peripheral, 0 when there is none, and the alternate function.\<close>

fun i2c_find_in :: "i2c_pin list \<Rightarrow> u8 \<Rightarrow> u8 \<Rightarrow> u8 \<times> u8 option" where
  "i2c_find_in [] scl sda = (0, None)"
| "i2c_find_in (r # rs) scl sda =
     (if i_scl r = scl \<and> i_sda r = sda then (i_id r, Some (i_af r)) else i2c_find_in rs scl sda)"

definition i2c_find :: "package \<Rightarrow> u8 \<Rightarrow> u8 \<Rightarrow> u8 \<times> u8 option" where
  "i2c_find P = i2c_find_in (g_i2c_map P)"

fun periph_af :: "periph_pin list \<Rightarrow> u8 \<Rightarrow> u8 \<Rightarrow> u8 option" where
  "periph_af [] i pin = None"
| "periph_af (r # rs) i pin =
     (if pp_id r = i \<and> pp_pin r = pin then Some (pp_af r) else periph_af rs i pin)"

definition uart_tx_af :: "package \<Rightarrow> u8 \<Rightarrow> u8 \<Rightarrow> u8 option" where
  "uart_tx_af P = periph_af (g_uart_tx_map P)"
definition uart_rx_af :: "package \<Rightarrow> u8 \<Rightarrow> u8 \<Rightarrow> u8 option" where
  "uart_rx_af P = periph_af (g_uart_rx_map P)"

section \<open>The USART blocks\<close>

definition s_uart :: "(string \<Rightarrow> u32) \<Rightarrow> (string \<Rightarrow> int) \<Rightarrow> (string option \<times> bus \<times> u32 \<times> int) list" where
  "s_uart K I =
     [(None, HB1, 0, -1),
      (Some ''USART1'', HB2, K ''RCC_HB2Periph_USART1'', I ''USART1_IRQn''),
      (Some ''USART2'', HB1, K ''RCC_HB1Periph_USART2'', I ''USART2_IRQn''),
      (Some ''USART3'', HB1, K ''RCC_HB1Periph_USART3'', I ''USART3_IRQn''),
      (Some ''USART4'', HB1, K ''RCC_HB1Periph_USART4'', I ''USART4_IRQn''),
      (Some ''USART5'', HB1, K ''RCC_HB1Periph_USART5'', I ''USART5_IRQn''),
      (Some ''USART6'', HB1, K ''RCC_HB1Periph_USART6'', I ''USART6_IRQn''),
      (Some ''USART7'', HB1, K ''RCC_HB1Periph_USART7'', I ''USART7_IRQn''),
      (Some ''USART8'', HB1, K ''RCC_HB1Periph_USART8'', I ''USART8_IRQn'')]"

definition uart_valid :: "u8 \<Rightarrow> bool" where
  "uart_valid i \<longleftrightarrow> i \<ge> 1 \<and> i \<le> 8"

definition uart_dev :: "(string \<Rightarrow> u32) \<Rightarrow> (string \<Rightarrow> int) \<Rightarrow> u8 \<Rightarrow> string option" where
  "uart_dev K I i = (if uart_valid i then fst (s_uart K I ! unat i) else None)"

definition uart_irqn :: "(string \<Rightarrow> u32) \<Rightarrow> (string \<Rightarrow> int) \<Rightarrow> u8 \<Rightarrow> int" where
  "uart_irqn K I i = (if uart_valid i then snd (snd (snd (s_uart K I ! unat i))) else -1)"

definition uart_clock_enable :: "'d machine \<Rightarrow> (string \<Rightarrow> u32) \<Rightarrow> (string \<Rightarrow> int) \<Rightarrow> u8 \<Rightarrow> 'd \<Rightarrow> 'd" where
  "uart_clock_enable M K I i d =
     (if uart_valid i then case s_uart K I ! unat i of (_, b, x, _) \<Rightarrow> clock_enable M b x d else d)"

definition uart_reset ::
  "'d machine \<Rightarrow> (string \<Rightarrow> u32) \<Rightarrow> (string \<Rightarrow> int) \<Rightarrow> u8 \<Rightarrow> u32 \<times> 'd \<Rightarrow> u32 \<times> 'd" where
  "uart_reset M K I i s =
     (if uart_valid i then case s_uart K I ! unat i of (_, b, x, _) \<Rightarrow> snd (block_reset M K b x s) else s)"

section \<open>Looking a key up in a table\<close>

text \<open>
  What the lookups have in common: the first row with the key answers.  In a table with no
  repeated key the answer does not depend on the order, and a table that is part of a
  larger one agrees with it.
\<close>

locale lookup_table =
  fixes key :: "'r \<Rightarrow> 'k" and answer :: "'r \<Rightarrow> 'v" and look :: "'r list \<Rightarrow> 'k \<Rightarrow> 'v option"
  assumes look_Nil: "look [] k = None"
    and look_Cons: "look (r # rs) k = (if key r = k then Some (answer r) else look rs k)"
begin

lemma look_None: "look rs k = None \<longleftrightarrow> k \<notin> key ` set rs"
  by (induction rs) (auto simp: look_Nil look_Cons)

lemma look_Some: "look rs k = Some v \<Longrightarrow> \<exists>r \<in> set rs. key r = k \<and> answer r = v"
  by (induction rs) (auto simp: look_Nil look_Cons split: if_splits)

lemma look_row:
  "distinct (map key rs) \<Longrightarrow> r \<in> set rs \<Longrightarrow> look rs (key r) = Some (answer r)"
  by (induction rs) (auto simp: look_Nil look_Cons)

lemma look_subset:
  assumes "set rs \<subseteq> set rs'" "distinct (map key rs')" "look rs k = Some v"
  shows "look rs' k = Some v"
  using look_Some [OF assms(3)] look_row [OF assms(2)] assms(1) by auto

end

interpretation on_timer: lookup_table "\<lambda>e. (w_pin e, w_timer e, w_channel e)" "\<lambda>e. e"
  "\<lambda>es (p, t, c). pwm_find_on_timer es p t c"
  by unfold_locales (simp_all split: prod.split)

interpretation periph: lookup_table "\<lambda>r. (pp_id r, pp_pin r)" pp_af "\<lambda>rs (i, p). find_periph_af rs i p"
  by unfold_locales (simp_all split: prod.split)

interpretation uart: lookup_table "\<lambda>r. (pp_id r, pp_pin r)" pp_af "\<lambda>rs (i, p). periph_af rs i p"
  by unfold_locales (simp_all split: prod.split)

interpretation i2c: lookup_table "\<lambda>r. (i_scl r, i_sda r)" "\<lambda>r. (i_id r, i_af r)"
  "\<lambda>rs (c, d). map_option (Pair (fst (i2c_find_in rs c d))) (snd (i2c_find_in rs c d))"
  by unfold_locales (simp_all split: prod.split)

section \<open>Choosing a timer for a pin\<close>

definition pwm_candidate :: "u8 \<Rightarrow> pwm_af \<Rightarrow> bool" where
  "pwm_candidate pin e \<longleftrightarrow> w_pin e = pin \<and> \<not> w_negated e"

lemma pwm_find_from_eq:
  "pwm_find_from t pin ff tab =
     (case find (\<lambda>e. pwm_candidate pin e \<and> timer_owner (w_timer e) t = TIMER_PWM) tab of
        Some e \<Rightarrow> Some e
      | None \<Rightarrow> (case ff of Some e \<Rightarrow> Some e
           | None \<Rightarrow> find (\<lambda>e. pwm_candidate pin e \<and> timer_owner (w_timer e) t = TIMER_FREE) tab))"
proof (induction tab arbitrary: ff)
  case Nil
  then show ?case by (cases ff) auto
next
  case (Cons e es)
  have "TIMER_PWM \<noteq> TIMER_FREE" by (simp add: TIMER_PWM_def TIMER_FREE_def)
  then show ?case
    by (cases ff) (auto simp: Cons.IH pwm_candidate_def Let_def split: option.splits)
qed

lemma find_SomeD: "find P xs = Some x \<Longrightarrow> x \<in> set xs \<and> P x"
  by (induction xs) (auto split: if_splits)

lemma find_NoneD: "find P xs = None \<Longrightarrow> x \<in> set xs \<Longrightarrow> \<not> P x"
  by (auto simp: find_None_iff)

lemma pwm_find_Some:
  assumes "pwm_find tab t pin = Some e"
  shows "e \<in> set tab" "w_pin e = pin" "\<not> w_negated e"
    "timer_owner (w_timer e) t = TIMER_PWM \<or>
       timer_owner (w_timer e) t = TIMER_FREE \<and>
       (\<forall>e' \<in> set tab. pwm_candidate pin e' \<longrightarrow> timer_owner (w_timer e') t \<noteq> TIMER_PWM)"
  using assms unfolding pwm_find_def pwm_find_from_eq
  by (auto split: option.splits simp: pwm_candidate_def dest!: find_SomeD dest: find_NoneD)

lemma pwm_find_None:
  "pwm_find tab t pin = None \<longleftrightarrow>
     (\<forall>e \<in> set tab. pwm_candidate pin e \<longrightarrow> timer_owner (w_timer e) t \<notin> {TIMER_PWM, TIMER_FREE})"
  unfolding pwm_find_def pwm_find_from_eq
  by (auto split: option.splits simp: find_None_iff dest!: find_SomeD)

text \<open>
  C31. Choosing a timer for \<open>analogWrite\<close>.  A row is found exactly when the pin has a plain
  (not complementary) channel on a timer that is free or already driving PWM; the row found
  is such a row of that pin, a free timer is taken only when no timer the pin could join is
  running, and the claim of the timer that follows succeeds and takes nothing from another
  owner.
\<close>

theorem pwm_find_best:
  assumes "timers_wf t" "\<forall>e \<in> set tab. timer_valid (w_timer e)"
  shows "case pwm_find tab t pin of
      None \<Rightarrow> \<forall>e \<in> set tab. w_pin e = pin \<and> \<not> w_negated e \<longrightarrow>
                timer_owner (w_timer e) t \<noteq> TIMER_PWM \<and> timer_owner (w_timer e) t \<noteq> TIMER_FREE
    | Some e \<Rightarrow> e \<in> set tab \<and> w_pin e = pin \<and> \<not> w_negated e \<and>
        (timer_owner (w_timer e) t = TIMER_FREE \<longrightarrow>
           (\<forall>e' \<in> set tab. w_pin e' = pin \<and> \<not> w_negated e' \<longrightarrow> timer_owner (w_timer e') t \<noteq> TIMER_PWM)) \<and>
        fst (timer_claim (w_timer e) TIMER_PWM t) \<and>
        (\<forall>i. timer_owner i (snd (timer_claim (w_timer e) TIMER_PWM t)) =
               (if i = w_timer e then TIMER_PWM else timer_owner i t))"
proof (cases "pwm_find tab t pin")
  case None
  then show ?thesis using pwm_find_None [of tab t pin] by (simp add: pwm_candidate_def)
next
  case (Some e)
  note f = pwm_find_Some [OF Some]
  have ne: "TIMER_PWM \<noteq> TIMER_FREE" by (simp add: TIMER_PWM_def TIMER_FREE_def)
  have v: "timer_valid (w_timer e)" using assms(2) f(1) by blast
  have "fst (timer_claim (w_timer e) TIMER_PWM t)"
    using f(4) v ne by (auto simp: timers.claim_answer [OF assms(1)] timer_holder_def)
  moreover from this have "timer_owner i (snd (timer_claim (w_timer e) TIMER_PWM t)) =
      (if i = w_timer e then TIMER_PWM else timer_owner i t)" for i
    using v ne by (auto simp: timer_claim_def timer_owner_update [OF assms(1)] split: if_splits)
  moreover have "timer_owner (w_timer e) t = TIMER_FREE \<Longrightarrow>
      \<forall>e' \<in> set tab. w_pin e' = pin \<and> \<not> w_negated e' \<longrightarrow> timer_owner (w_timer e') t \<noteq> TIMER_PWM"
    using f(4) ne by (auto simp: pwm_candidate_def)
  ultimately show ?thesis using Some f(1-3) by auto
qed

text \<open>A small instance: the two timers PA0 can use.\<close>

theorem pwm_find_best_witness:
  "pwm_find [wrow (PA 0) 2 1 False 1, wrow (PA 0) 5 1 False 2] (timers_init :: unit timers) (PA 0)
     = Some (wrow (PA 0) 2 1 False 1) \<and>
   timer_owner 2 (snd (timer_claim 2 TIMER_PWM (timers_init :: unit timers))) = TIMER_PWM"
proof -
  let ?tab = "[wrow (PA 0) 2 1 False 1, wrow (PA 0) 5 1 False 2]" and ?t = "timers_init :: unit timers"
  have e: "pwm_find ?tab ?t (PA 0) = Some (wrow (PA 0) 2 1 False 1)"
    by (simp add: pwm_find_def wrow_def timer_owner_def timers_init_def timer_valid_def TIMER_COUNT_def
        TIMER_FREE_def TIMER_PWM_def)
  have "\<forall>e \<in> set ?tab. timer_valid (w_timer e)"
    by (simp add: wrow_def timer_valid_def TIMER_COUNT_def)
  note f = pwm_find_best [of ?t ?tab "PA 0", OF timers_init_wf this]
  show ?thesis using f unfolding e by (simp add: wrow_def)
qed

section \<open>What a package's tables should satisfy\<close>

definition PINS_COUNT :: nat where "PINS_COUNT = 96"

definition pin_bonded :: "package \<Rightarrow> u8 \<Rightarrow> bool" where
  "pin_bonded P pin \<longleftrightarrow> bit (g_pin_bonded P ! (unat pin div 32)) (unat pin mod 32)"

text \<open>
  Pin \<open>16 * k + b\<close> is bit \<open>b\<close> of the k-th port; the die gives ADC channels 0 to 7 to
  PA0-PA7, 8 and 9 to PB0 and PB1, 10 to 15 to PC0-PC5.
\<close>

definition port_of :: "nat \<Rightarrow> port" where
  "port_of k = (if k = 0 then GPIOA else if k = 1 then GPIOB else if k = 2 then GPIOC
     else if k = 3 then GPIOD else if k = 4 then GPIOE else GPIOF)"

definition die_adc :: "nat \<Rightarrow> u8" where
  "die_adc i = (if i < 8 then of_nat i else if i = 16 \<or> i = 17 then of_nat (i - 8)
     else if 32 \<le> i \<and> i < 38 then of_nat (i - 22) else ADC_NONE)"

definition pins_expected :: "package \<Rightarrow> pin_desc list" where
  "pins_expected P = map (\<lambda>i. prow (port_of (i div 16)) (of_nat (i mod 16))
     (if pin_bonded P (of_nat i) then die_adc i else ADC_NONE)) [0..<PINS_COUNT]"

text \<open>Every row names pins the package bonds, an existing peripheral and a 4-bit function.\<close>

definition pwm_row_ok :: "package \<Rightarrow> pwm_af \<Rightarrow> bool" where
  "pwm_row_ok P e \<longleftrightarrow> unat (w_pin e) < PINS_COUNT \<and> pin_bonded P (w_pin e) \<and> timer_valid (w_timer e) \<and>
     1 \<le> w_channel e \<and> w_channel e \<le> 4 \<and> w_af e < 16"

definition periph_row_ok :: "package \<Rightarrow> u8 \<Rightarrow> periph_pin \<Rightarrow> bool" where
  "periph_row_ok P n r \<longleftrightarrow> unat (pp_pin r) < PINS_COUNT \<and> pin_bonded P (pp_pin r) \<and>
     1 \<le> pp_id r \<and> pp_id r \<le> n \<and> pp_af r < 16"

definition i2c_row_ok :: "package \<Rightarrow> i2c_pin \<Rightarrow> bool" where
  "i2c_row_ok P r \<longleftrightarrow> unat (i_scl r) < PINS_COUNT \<and> unat (i_sda r) < PINS_COUNT \<and> i_scl r \<noteq> i_sda r \<and>
     pin_bonded P (i_scl r) \<and> pin_bonded P (i_sda r) \<and> 1 \<le> i_id r \<and> i_id r \<le> 4 \<and> i_af r < 16"

definition package_rows_ok :: "package \<Rightarrow> bool" where
  "package_rows_ok P \<longleftrightarrow>
     list_all (pwm_row_ok P) (g_pwm_af_map P) \<and>
     list_all (periph_row_ok P 4) (g_spi_sck_map P) \<and> list_all (periph_row_ok P 4) (g_spi_miso_map P) \<and>
     list_all (periph_row_ok P 4) (g_spi_mosi_map P) \<and> list_all (periph_row_ok P 4) (g_spi_nss_map P) \<and>
     list_all (i2c_row_ok P) (g_i2c_map P) \<and>
     list_all (periph_row_ok P 8) (g_uart_tx_map P) \<and> list_all (periph_row_ok P 8) (g_uart_rx_map P)"

text \<open>\<open>P\<close>'s tables are parts of \<open>Q\<close>'s, in the same order.\<close>

definition sub_package :: "package \<Rightarrow> package \<Rightarrow> bool" where
  "sub_package P Q \<longleftrightarrow>
     subseq (g_pwm_af_map P) (g_pwm_af_map Q) \<and> subseq (g_spi_sck_map P) (g_spi_sck_map Q) \<and>
     subseq (g_spi_miso_map P) (g_spi_miso_map Q) \<and> subseq (g_spi_mosi_map P) (g_spi_mosi_map Q) \<and>
     subseq (g_spi_nss_map P) (g_spi_nss_map Q) \<and> subseq (g_i2c_map P) (g_i2c_map Q) \<and>
     subseq (g_uart_tx_map P) (g_uart_tx_map Q) \<and> subseq (g_uart_rx_map P) (g_uart_rx_map Q)"

end
