(* ===== verification/Pkg_MEU6.thy ===== *)
theory Pkg_MEU6
  imports Pinmap
begin

text \<open>
  The tables of the CH32H417MEU6: \<^verbatim>\<open>variants/CH32H417MEU6/pins_table_package.c\<close>,
  \<^verbatim>\<open>pin_map_package.c\<close> and the default pins of \<^verbatim>\<open>peripherals_package.h\<close>.
\<close>

definition MEU6_pins :: "pin_desc list" where
  "MEU6_pins =
    [prow GPIOA 0 0, prow GPIOA 1 0xFF, prow GPIOA 2 0xFF, prow GPIOA 3 0xFF,
     prow GPIOA 4 4, prow GPIOA 5 5, prow GPIOA 6 0xFF, prow GPIOA 7 0xFF,
     prow GPIOA 8 0xFF, prow GPIOA 9 0xFF, prow GPIOA 10 0xFF, prow GPIOA 11 0xFF,
     prow GPIOA 12 0xFF, prow GPIOA 13 0xFF, prow GPIOA 14 0xFF, prow GPIOA 15 0xFF,
     prow GPIOB 0 8, prow GPIOB 1 9, prow GPIOB 2 0xFF, prow GPIOB 3 0xFF,
     prow GPIOB 4 0xFF, prow GPIOB 5 0xFF, prow GPIOB 6 0xFF, prow GPIOB 7 0xFF,
     prow GPIOB 8 0xFF, prow GPIOB 9 0xFF, prow GPIOB 10 0xFF, prow GPIOB 11 0xFF,
     prow GPIOB 12 0xFF, prow GPIOB 13 0xFF, prow GPIOB 14 0xFF, prow GPIOB 15 0xFF,
     prow GPIOC 0 10, prow GPIOC 1 11, prow GPIOC 2 12, prow GPIOC 3 13,
     prow GPIOC 4 0xFF, prow GPIOC 5 0xFF, prow GPIOC 6 0xFF, prow GPIOC 7 0xFF,
     prow GPIOC 8 0xFF, prow GPIOC 9 0xFF, prow GPIOC 10 0xFF, prow GPIOC 11 0xFF,
     prow GPIOC 12 0xFF, prow GPIOC 13 0xFF, prow GPIOC 14 0xFF, prow GPIOC 15 0xFF,
     prow GPIOD 0 0xFF, prow GPIOD 1 0xFF, prow GPIOD 2 0xFF, prow GPIOD 3 0xFF,
     prow GPIOD 4 0xFF, prow GPIOD 5 0xFF, prow GPIOD 6 0xFF, prow GPIOD 7 0xFF,
     prow GPIOD 8 0xFF, prow GPIOD 9 0xFF, prow GPIOD 10 0xFF, prow GPIOD 11 0xFF,
     prow GPIOD 12 0xFF, prow GPIOD 13 0xFF, prow GPIOD 14 0xFF, prow GPIOD 15 0xFF,
     prow GPIOE 0 0xFF, prow GPIOE 1 0xFF, prow GPIOE 2 0xFF, prow GPIOE 3 0xFF,
     prow GPIOE 4 0xFF, prow GPIOE 5 0xFF, prow GPIOE 6 0xFF, prow GPIOE 7 0xFF,
     prow GPIOE 8 0xFF, prow GPIOE 9 0xFF, prow GPIOE 10 0xFF, prow GPIOE 11 0xFF,
     prow GPIOE 12 0xFF, prow GPIOE 13 0xFF, prow GPIOE 14 0xFF, prow GPIOE 15 0xFF,
     prow GPIOF 0 0xFF, prow GPIOF 1 0xFF, prow GPIOF 2 0xFF, prow GPIOF 3 0xFF,
     prow GPIOF 4 0xFF, prow GPIOF 5 0xFF, prow GPIOF 6 0xFF, prow GPIOF 7 0xFF,
     prow GPIOF 8 0xFF, prow GPIOF 9 0xFF, prow GPIOF 10 0xFF, prow GPIOF 11 0xFF,
     prow GPIOF 12 0xFF, prow GPIOF 13 0xFF, prow GPIOF 14 0xFF, prow GPIOF 15 0xFF]"

definition MEU6_bonded :: "u32 list" where
  "MEU6_bonded = [0x7F1BFE31, 0xFCFF1FCF, 0x403FFC7B]"

definition MEU6_pwm_af_map :: "pwm_af list" where
  "MEU6_pwm_af_map =
    [wrow (PA 0) 2 1 False 1, wrow (PA 0) 5 1 False 2,
     wrow (PA 0) 9 1 False 6, wrow (PA 4) 10 4 False 9,
     wrow (PA 5) 2 1 False 1, wrow (PA 5) 8 1 True 3,
     wrow (PA 9) 1 2 False 1, wrow (PA 10) 1 3 False 1,
     wrow (PA 11) 1 4 False 1, wrow (PA 15) 2 1 False 1,
     wrow (PB 0) 3 3 False 2, wrow (PB 0) 5 4 False 4,
     wrow (PB 0) 1 2 True 1, wrow (PB 0) 8 2 True 3,
     wrow (PB 1) 3 4 False 2, wrow (PB 1) 12 1 False 5,
     wrow (PB 1) 1 3 True 1, wrow (PB 1) 8 3 True 3,
     wrow (PB 3) 2 2 False 1, wrow (PB 4) 3 1 False 2,
     wrow (PB 8) 4 3 False 2, wrow (PB 8) 10 3 False 1,
     wrow (PB 9) 4 4 False 2, wrow (PB 9) 10 4 False 1,
     wrow (PB 10) 2 3 False 1, wrow (PB 10) 9 2 False 2,
     wrow (PB 11) 2 4 False 1, wrow (PB 11) 9 4 False 9,
     wrow (PB 12) 9 3 False 8, wrow (PB 13) 1 1 True 1,
     wrow (PB 14) 9 1 False 2, wrow (PB 14) 1 2 True 1,
     wrow (PB 14) 8 2 True 3, wrow (PC 1) 5 1 False 2,
     wrow (PC 1) 8 1 True 0, wrow (PC 2) 5 2 False 2,
     wrow (PC 2) 8 2 True 0, wrow (PC 3) 5 3 False 2,
     wrow (PC 3) 8 3 True 0, wrow (PC 6) 3 1 False 2,
     wrow (PC 6) 8 1 False 3, wrow (PC 7) 3 2 False 2,
     wrow (PC 7) 8 2 False 3, wrow (PC 8) 3 3 False 2,
     wrow (PC 8) 8 3 False 3, wrow (PC 9) 3 4 False 2,
     wrow (PC 9) 8 4 False 3, wrow (PC 9) 9 1 False 6,
     wrow (PC 11) 9 4 False 2, wrow (PC 12) 9 3 False 2,
     wrow (PD 3) 11 1 False 2, wrow (PD 4) 3 2 False 9,
     wrow (PD 4) 11 2 False 2, wrow (PD 5) 3 3 False 9,
     wrow (PD 5) 11 3 False 2, wrow (PD 6) 3 4 False 9,
     wrow (PD 6) 11 4 False 2, wrow (PD 7) 11 3 False 13,
     wrow (PD 12) 4 1 False 2, wrow (PD 12) 5 1 False 6,
     wrow (PD 13) 4 2 False 2, wrow (PD 13) 5 2 False 6,
     wrow (PD 14) 4 3 False 2, wrow (PD 14) 5 3 False 6,
     wrow (PD 15) 4 4 False 2, wrow (PD 15) 5 4 False 6,
     wrow (PE 0) 11 1 False 13, wrow (PE 1) 11 2 False 13,
     wrow (PE 3) 4 1 False 2, wrow (PE 3) 8 1 False 0,
     wrow (PE 3) 12 1 False 3, wrow (PE 4) 4 2 False 2,
     wrow (PE 4) 8 2 False 0, wrow (PE 4) 12 2 False 3,
     wrow (PE 5) 4 3 False 2, wrow (PE 5) 8 3 False 0,
     wrow (PE 5) 9 3 False 4, wrow (PE 5) 12 3 False 3,
     wrow (PE 6) 4 4 False 2, wrow (PE 6) 8 4 False 0,
     wrow (PE 6) 9 4 False 4, wrow (PE 6) 12 4 False 3,
     wrow (PE 10) 1 2 True 1, wrow (PE 11) 1 2 False 1,
     wrow (PE 12) 1 3 True 1, wrow (PE 13) 1 3 False 1,
     wrow (PE 13) 12 2 False 2, wrow (PE 14) 1 4 False 1,
     wrow (PE 14) 12 3 False 2, wrow (PE 15) 12 4 False 2]"

definition MEU6_spi_sck_map :: "periph_pin list" where
  "MEU6_spi_sck_map =
    [row3 1 (PA 5) 5, row3 1 (PB 3) 5, row3 1 (PF 5) 5,
     row3 2 (PB 13) 5, row3 2 (PB 10) 5, row3 2 (PA 9) 5,
     row3 2 (PA 12) 5, row3 3 (PB 3) 6, row3 3 (PA 14) 1,
     row3 4 (PE 12) 5]"

definition MEU6_spi_miso_map :: "periph_pin list" where
  "MEU6_spi_miso_map =
    [row3 1 (PB 4) 5, row3 1 (PF 3) 5, row3 2 (PB 14) 5,
     row3 2 (PC 2) 5, row3 3 (PC 11) 6, row3 3 (PB 4) 6,
     row3 3 (PC 9) 5, row3 4 (PE 5) 5, row3 4 (PE 13) 5]"

definition MEU6_spi_mosi_map :: "periph_pin list" where
  "MEU6_spi_mosi_map =
    [row3 1 (PD 7) 5, row3 2 (PC 3) 5, row3 2 (PC 1) 5,
     row3 3 (PC 12) 6, row3 3 (PD 6) 5, row3 3 (PA 13) 1,
     row3 4 (PE 6) 5, row3 4 (PE 14) 5]"

definition MEU6_spi_nss_map :: "periph_pin list" where
  "MEU6_spi_nss_map =
    [row3 4 (PE 4) 5]"

definition MEU6_i2c_map :: "i2c_pin list" where
  "MEU6_i2c_map =
    [row4 1 (PB 8) (PB 9) 4, row4 2 (PB 10) (PB 11) 4, row4 2 (PC 0) (PC 1) 9,
     row4 3 (PA 14) (PA 13) 7, row4 4 (PD 12) (PD 13) 4]"

definition MEU6_uart_tx_map :: "periph_pin list" where
  "MEU6_uart_tx_map =
    [row3 1 (PA 9) 7, row3 1 (PB 14) 4, row3 1 (PD 13) 14,
     row3 2 (PD 5) 7, row3 3 (PA 13) 4, row3 3 (PB 10) 7,
     row3 4 (PC 6) 7, row3 5 (PE 0) 4, row3 5 (PE 3) 11,
     row3 6 (PA 0) 8, row3 6 (PA 12) 6, row3 6 (PB 9) 8,
     row3 6 (PD 1) 8, row3 7 (PB 13) 14, row3 7 (PC 12) 8,
     row3 8 (PA 15) 11, row3 8 (PB 4) 11]"

definition MEU6_uart_rx_map :: "periph_pin list" where
  "MEU6_uart_rx_map =
    [row3 1 (PA 10) 7, row3 1 (PD 12) 14, row3 2 (PD 6) 7,
     row3 3 (PA 14) 4, row3 3 (PB 11) 7, row3 3 (PC 11) 7,
     row3 4 (PC 7) 7, row3 4 (PF 3) 7, row3 5 (PF 5) 4,
     row3 6 (PB 8) 8, row3 6 (PC 11) 8, row3 6 (PD 0) 8,
     row3 7 (PB 12) 14, row3 7 (PD 2) 8, row3 8 (PB 3) 11]"

definition MEU6 :: package where
  "MEU6 = \<lparr>g_pins = MEU6_pins, g_pin_bonded = MEU6_bonded, g_pwm_af_map = MEU6_pwm_af_map,
     g_spi_sck_map = MEU6_spi_sck_map,
     g_spi_miso_map = MEU6_spi_miso_map,
     g_spi_mosi_map = MEU6_spi_mosi_map,
     g_spi_nss_map = MEU6_spi_nss_map,
     g_i2c_map = MEU6_i2c_map,
     g_uart_tx_map = MEU6_uart_tx_map,
     g_uart_rx_map = MEU6_uart_rx_map\<rparr>"

text \<open>The default pins; for I2S with their alternate functions.\<close>

definition MEU6_defaults :: default_pins where
  "MEU6_defaults = \<lparr>serial1_tx = PA 9, serial1_rx = PA 10, wire_scl = PB 8, wire_sda = PB 9,
     spi_sck = PA 5, spi_miso = PB 4, spi_mosi = PD 7\<rparr>"

definition MEU6_i2s :: "i2s_pins list" where
  "MEU6_i2s =
    [\<lparr>i2s_ws = (PB 12, 5), i2s_ck = (PB 13, 5), i2s_sd = (PC 1, 5)\<rparr>,
     \<lparr>i2s_ws = (PA 15, 6), i2s_ck = (PB 3, 6), i2s_sd = (PA 13, 1)\<rparr>]"

lemmas MEU6_tables = MEU6_pins_def MEU6_bonded_def
  MEU6_pwm_af_map_def
  MEU6_spi_sck_map_def
  MEU6_spi_miso_map_def
  MEU6_spi_mosi_map_def
  MEU6_spi_nss_map_def
  MEU6_i2c_map_def
  MEU6_uart_tx_map_def
  MEU6_uart_rx_map_def

end
