(* ===== verification/Packages.thy ===== *)
theory Packages
  imports Pkg_QEU6 Pkg_REU6 Pkg_RDU6 Pkg_MEU6 Pkg_WEU6
begin

text \<open>
  The five packages together: that every table is well formed, that a smaller package's
  tables are parts of the largest one's and so answer alike, that the default pins are
  served, and that a pad's alternate function selects one signal.  The tables are evaluated
  once each, by the simplifier; what follows uses only the facts that leaves.
\<close>

section \<open>Evaluating the tables\<close>

definition packages :: "package list" where
  "packages = [QEU6, REU6, RDU6, MEU6, WEU6]"

lemma pins_QEU6: "g_pins QEU6 = pins_expected QEU6" by code_simp
lemma pins_REU6: "g_pins REU6 = pins_expected REU6" by code_simp
lemma pins_RDU6: "g_pins RDU6 = pins_expected RDU6" by code_simp
lemma pins_MEU6: "g_pins MEU6 = pins_expected MEU6" by code_simp
lemma pins_WEU6: "g_pins WEU6 = pins_expected WEU6" by code_simp

lemma rows_QEU6: "package_rows_ok QEU6" by code_simp
lemma rows_REU6: "package_rows_ok REU6" by code_simp
lemma rows_RDU6: "package_rows_ok RDU6" by code_simp
lemma rows_MEU6: "package_rows_ok MEU6" by code_simp
lemma rows_WEU6: "package_rows_ok WEU6" by code_simp

lemma sub_QEU6: "sub_package QEU6 QEU6" by (simp add: sub_package_def)
lemma sub_REU6: "sub_package REU6 QEU6" by code_simp
lemma sub_RDU6: "sub_package RDU6 QEU6" by code_simp
lemma sub_MEU6: "sub_package MEU6 QEU6" by code_simp
lemma sub_WEU6: "sub_package WEU6 QEU6" by code_simp

text \<open>No key twice; encoded as numbers, which compare faster.\<close>

definition keys_once :: "package \<Rightarrow> bool" where
  "keys_once P \<longleftrightarrow>
     distinct (map (\<lambda>e. (w_pin e, w_timer e, w_channel e)) (g_pwm_af_map P)) \<and>
     distinct (map (\<lambda>r. (pp_id r, pp_pin r)) (g_spi_sck_map P)) \<and>
     distinct (map (\<lambda>r. (pp_id r, pp_pin r)) (g_spi_miso_map P)) \<and>
     distinct (map (\<lambda>r. (pp_id r, pp_pin r)) (g_spi_mosi_map P)) \<and>
     distinct (map (\<lambda>r. (pp_id r, pp_pin r)) (g_spi_nss_map P)) \<and>
     distinct (map (\<lambda>r. (i_scl r, i_sda r)) (g_i2c_map P)) \<and>
     distinct (map (\<lambda>r. (pp_id r, pp_pin r)) (g_uart_tx_map P)) \<and>
     distinct (map (\<lambda>r. (pp_id r, pp_pin r)) (g_uart_rx_map P))"

lemma keys_QEU6: "keys_once QEU6" by code_simp

lemma subseq_distinct_map: "subseq xs ys \<Longrightarrow> distinct (map f ys) \<Longrightarrow> distinct (map f xs)"
  unfolding subseq_conv_nths by (auto simp: nths_map [symmetric] intro: distinct_nthsI)

lemma keys_sub: "sub_package P Q \<Longrightarrow> keys_once Q \<Longrightarrow> keys_once P"
  unfolding sub_package_def keys_once_def by (blast intro: subseq_distinct_map)

lemma packages_cases:
  assumes "P \<in> set packages"
  shows "g_pins P = pins_expected P" "package_rows_ok P" "sub_package P QEU6" "keys_once P"
proof -
  have c: "P = QEU6 \<or> P = REU6 \<or> P = RDU6 \<or> P = MEU6 \<or> P = WEU6"
    using assms by (simp add: packages_def)
  show "g_pins P = pins_expected P"
    using c pins_QEU6 pins_REU6 pins_RDU6 pins_MEU6 pins_WEU6 by blast
  show "package_rows_ok P"
    using c rows_QEU6 rows_REU6 rows_RDU6 rows_MEU6 rows_WEU6 by blast
  show s: "sub_package P QEU6"
    using c sub_QEU6 sub_REU6 sub_RDU6 sub_MEU6 sub_WEU6 by blast
  show "keys_once P" by (rule keys_sub [OF s keys_QEU6])
qed

section \<open>Well-formed tables\<close>

text \<open>
  C32. The tables of all five packages are well formed.  Pin \<open>n\<close> is bit \<open>n mod 16\<close> of the
  port of index \<open>n div 16\<close>, with the ADC channel the die gives it exactly when the package
  bonds it out; every row of every alternate-function table names pins that exist and are
  bonded, an existing timer and channel (or peripheral number) and a 4-bit function; and no
  table has two rows for one key.
\<close>

theorem package_tables_wf:
  "\<forall>P \<in> set packages. g_pins P = pins_expected P \<and> package_rows_ok P \<and> keys_once P"
  using packages_cases by blast

theorem package_tables_wf_witness:
  "g_pins WEU6 ! 0 = prow GPIOA 0 ADC_NONE \<and> pin_bonded WEU6 0 = False \<and> keys_once WEU6"
proof -
  have "WEU6 \<in> set packages" by (simp add: packages_def)
  with package_tables_wf have t: "g_pins WEU6 = pins_expected WEU6" "keys_once WEU6" by blast+
  have "pins_expected WEU6 ! 0 = prow GPIOA 0 ADC_NONE" by code_simp
  moreover have "pin_bonded WEU6 0 = False" by code_simp
  ultimately show ?thesis using t by simp
qed

section \<open>Lookups on a smaller package\<close>

lemma subseq_set: "subseq xs ys \<Longrightarrow> set xs \<subseteq> set ys"
  by (auto elim: list_emb_set)

lemma sub_package_sets:
  assumes "sub_package P Q"
  shows "set (g_pwm_af_map P) \<subseteq> set (g_pwm_af_map Q)" "set (g_spi_sck_map P) \<subseteq> set (g_spi_sck_map Q)"
    "set (g_spi_miso_map P) \<subseteq> set (g_spi_miso_map Q)" "set (g_spi_mosi_map P) \<subseteq> set (g_spi_mosi_map Q)"
    "set (g_spi_nss_map P) \<subseteq> set (g_spi_nss_map Q)" "set (g_i2c_map P) \<subseteq> set (g_i2c_map Q)"
    "set (g_uart_tx_map P) \<subseteq> set (g_uart_tx_map Q)" "set (g_uart_rx_map P) \<subseteq> set (g_uart_rx_map Q)"
  using assms unfolding sub_package_def by (auto dest: subseq_set)

lemma periph_portable:
  assumes "set rs \<subseteq> set rs'" "distinct (map (\<lambda>r. (pp_id r, pp_pin r)) rs')" "list_all (periph_row_ok P n) rs"
    and "find_periph_af rs i pin = Some a"
  shows "find_periph_af rs' i pin = Some a \<and> pin_bonded P pin"
proof
  show "find_periph_af rs' i pin = Some a"
    using periph.look_subset [OF assms(1,2), of "(i, pin)" a] assms(4) by simp
  show "pin_bonded P pin"
    using periph.look_Some [of rs "(i, pin)" a] assms(3,4) by (auto simp: list_all_iff periph_row_ok_def)
qed

lemma periph_af_eq: "periph_af rs i pin = find_periph_af rs i pin"
  by (induction rs) auto

definition lookups_agree :: "package \<Rightarrow> package \<Rightarrow> u8 \<Rightarrow> u8 \<Rightarrow> bool" where
  "lookups_agree P Q i pin \<longleftrightarrow>
     (\<forall>f \<in> {uart_tx_af, uart_rx_af, spi_sck_af, spi_miso_af, spi_mosi_af, spi_nss_af}. \<forall>a.
        f P i pin = Some a \<longrightarrow> f Q i pin = Some a \<and> pin_bonded P pin) \<and>
     (\<forall>ch e. pwm_find_on_timer (g_pwm_af_map P) pin i ch = Some e \<longrightarrow>
        pwm_find_on_timer (g_pwm_af_map Q) pin i ch = Some e \<and> pin_bonded P pin) \<and>
     (\<forall>sda n a. i2c_find P pin sda = (n, Some a) \<longrightarrow>
        i2c_find Q pin sda = (n, Some a) \<and> pin_bonded P pin \<and> pin_bonded P sda)"

lemma periphs_agree:
  assumes "P \<in> set packages"
    and "f \<in> {uart_tx_af, uart_rx_af, spi_sck_af, spi_miso_af, spi_mosi_af, spi_nss_af}" "f P i pin = Some a"
  shows "f QEU6 i pin = Some a \<and> pin_bonded P pin"
proof -
  note p = packages_cases [OF assms(1)]
  note s = sub_package_sets [OF p(3)]
  note k = keys_QEU6 [unfolded keys_once_def] and r = p(2) [unfolded package_rows_ok_def]
  have one: "find_periph_af (tab P) i pin = Some a \<longrightarrow> find_periph_af (tab QEU6) i pin = Some a \<and> pin_bonded P pin"
    if "set (tab P) \<subseteq> set (tab QEU6)" "distinct (map (\<lambda>r. (pp_id r, pp_pin r)) (tab QEU6))"
      "list_all (periph_row_ok P n) (tab P)" for tab n
    using periph_portable [OF that, of i pin a] by blast
  have "uart_tx_af P i pin = Some a \<longrightarrow> uart_tx_af QEU6 i pin = Some a \<and> pin_bonded P pin"
    unfolding uart_tx_af_def periph_af_eq by (rule one [of _ 8]) (use s(7) k r in simp_all)
  moreover
  have "uart_rx_af P i pin = Some a \<longrightarrow> uart_rx_af QEU6 i pin = Some a \<and> pin_bonded P pin"
    unfolding uart_rx_af_def periph_af_eq by (rule one [of _ 8]) (use s(8) k r in simp_all)
  moreover
  have "spi_sck_af P i pin = Some a \<longrightarrow> spi_sck_af QEU6 i pin = Some a \<and> pin_bonded P pin"
    unfolding spi_sck_af_def by (rule one [of _ 4]) (use s(2) k r in simp_all)
  moreover
  have "spi_miso_af P i pin = Some a \<longrightarrow> spi_miso_af QEU6 i pin = Some a \<and> pin_bonded P pin"
    unfolding spi_miso_af_def by (rule one [of _ 4]) (use s(3) k r in simp_all)
  moreover
  have "spi_mosi_af P i pin = Some a \<longrightarrow> spi_mosi_af QEU6 i pin = Some a \<and> pin_bonded P pin"
    unfolding spi_mosi_af_def by (rule one [of _ 4]) (use s(4) k r in simp_all)
  moreover
  have "spi_nss_af P i pin = Some a \<longrightarrow> spi_nss_af QEU6 i pin = Some a \<and> pin_bonded P pin"
    unfolding spi_nss_af_def by (rule one [of _ 4]) (use s(5) k r in simp_all)
  ultimately show ?thesis using assms(2,3) by (elim insertE emptyE) simp_all
qed

lemma pwm_agrees:
  assumes "P \<in> set packages" "pwm_find_on_timer (g_pwm_af_map P) pin i ch = Some e"
  shows "pwm_find_on_timer (g_pwm_af_map QEU6) pin i ch = Some e \<and> pin_bonded P pin"
proof
  note p = packages_cases [OF assms(1)]
  have k: "distinct (map (\<lambda>e. (w_pin e, w_timer e, w_channel e)) (g_pwm_af_map QEU6))"
    using keys_QEU6 unfolding keys_once_def by blast
  have r: "list_all (pwm_row_ok P) (g_pwm_af_map P)" using p(2) unfolding package_rows_ok_def by blast
  show "pwm_find_on_timer (g_pwm_af_map QEU6) pin i ch = Some e"
    using on_timer.look_subset [OF sub_package_sets(1) [OF p(3)] k, of "(pin, i, ch)" e] assms(2) by simp
  show "pin_bonded P pin"
    using on_timer.look_Some [of "g_pwm_af_map P" "(pin, i, ch)" e] assms(2) r
    by (auto simp: list_all_iff pwm_row_ok_def)
qed

lemma i2c_agrees:
  assumes "P \<in> set packages" "i2c_find P scl sda = (n, Some a)"
  shows "i2c_find QEU6 scl sda = (n, Some a) \<and> pin_bonded P scl \<and> pin_bonded P sda"
proof -
  note p = packages_cases [OF assms(1)]
  have k: "distinct (map (\<lambda>r. (i_scl r, i_sda r)) (g_i2c_map QEU6))"
    using keys_QEU6 unfolding keys_once_def by blast
  have r: "list_all (i2c_row_ok P) (g_i2c_map P)" using p(2) unfolding package_rows_ok_def by blast
  have "snd (i2c_find_in (g_i2c_map QEU6) scl sda) = Some a \<and> fst (i2c_find_in (g_i2c_map QEU6) scl sda) = n"
    using i2c.look_subset [OF sub_package_sets(6) [OF p(3)] k, of "(scl, sda)" "(n, a)"] assms(2)
    by (auto simp: i2c_find_def)
  moreover have "pin_bonded P scl \<and> pin_bonded P sda"
    using i2c.look_Some [of "g_i2c_map P" "(scl, sda)" "(n, a)"] assms(2) r
    by (auto simp: i2c_find_def list_all_iff i2c_row_ok_def)
  ultimately show ?thesis by (auto simp: i2c_find_def prod_eq_iff)
qed

text \<open>
  C33. Lookups agree across packages.  Whatever a lookup finds on any package (an alternate
  function for a USART or SPI signal, a timer channel, an I2C pair) the QFN128 finds with
  the same answer, and on the package itself the pins it names are bonded out; so a program
  built on a package's names behaves alike on the larger part.
\<close>

theorem lookups_portable:
  assumes "P \<in> set packages"
  shows "lookups_agree P QEU6 i pin"
  unfolding lookups_agree_def
  by (rule conjI, intro ballI allI impI, erule (1) periphs_agree [OF assms])
     (rule conjI; intro allI impI; erule pwm_agrees [OF assms] i2c_agrees [OF assms])

theorem lookups_portable_witness:
  "uart_tx_af WEU6 1 (PB 14) = Some 4 \<and> uart_tx_af QEU6 1 (PB 14) = Some 4 \<and> pin_bonded WEU6 (PB 14)"
proof -
  have w: "WEU6 \<in> set packages" by (simp add: packages_def)
  have a: "uart_tx_af WEU6 1 (PB 14) = Some 4" by code_simp
  with lookups_portable [OF w, of 1 "PB 14", unfolded lookups_agree_def] show ?thesis by auto
qed

section \<open>The default pins\<close>

text \<open>
  I2S1 is the audio half of SPI2 and I2S2 of SPI3: their clock and data pads are those of
  SCK and MOSI.
\<close>

definition defaults_served :: "package \<Rightarrow> default_pins \<Rightarrow> i2s_pins list \<Rightarrow> bool" where
  "defaults_served P D S \<longleftrightarrow>
     uart_tx_af P 1 (serial1_tx D) \<noteq> None \<and> uart_rx_af P 1 (serial1_rx D) \<noteq> None \<and>
     i2c_find P (wire_scl D) (wire_sda D) = (1, Some 4) \<and>
     spi_find P (spi_sck D) (spi_miso D) (spi_mosi D) = 1 \<and>
     list_all2 (\<lambda>n S. pin_bonded P (fst (i2s_ws S)) \<and>
         spi_sck_af P n (fst (i2s_ck S)) = Some (snd (i2s_ck S)) \<and>
         spi_mosi_af P n (fst (i2s_sd S)) = Some (snd (i2s_sd S))) [2, 3] S"

text \<open>
  The default pins work on every package: Serial1's pins carry USART1, Wire's pins are a
  pair of I2C1 on function 4, SPI's three pins all belong to SPI1, and the I2S clock and
  data pins carry the SPI2 and SPI3 signals with the functions the headers state.
\<close>

theorem default_pins_served:
  "defaults_served QEU6 QEU6_defaults QEU6_i2s \<and> defaults_served REU6 REU6_defaults REU6_i2s \<and>
   defaults_served RDU6 RDU6_defaults RDU6_i2s \<and> defaults_served MEU6 MEU6_defaults MEU6_i2s \<and>
   defaults_served WEU6 WEU6_defaults WEU6_i2s"
  by code_simp

text \<open>On the QFN60 two defaults name the same pads: Serial1 and Wire cannot both be used.\<close>

lemma RDU6_serial_is_wire:
  "serial1_tx RDU6_defaults = wire_scl RDU6_defaults \<and> serial1_rx RDU6_defaults = wire_sda RDU6_defaults"
  by code_simp

section \<open>What a pad's alternate function selects\<close>

text \<open>
  A pad's multiplexer takes one number and routes one signal.  \<open>pads P\<close> is what the
  tables say: the pad, the number and the signal.
\<close>

datatype signal =
  Timer_Channel u8 u8 bool | Spi_Sck u8 | Spi_Miso u8 | Spi_Mosi u8 | Spi_Nss u8
  | I2c_Scl u8 | I2c_Sda u8 | Uart_Tx u8 | Uart_Rx u8

definition pads :: "package \<Rightarrow> (u8 \<times> u8 \<times> signal) list" where
  "pads P =
     map (\<lambda>e. (w_pin e, w_af e, Timer_Channel (w_timer e) (w_channel e) (w_negated e))) (g_pwm_af_map P) @
     map (\<lambda>r. (pp_pin r, pp_af r, Spi_Sck (pp_id r))) (g_spi_sck_map P) @
     map (\<lambda>r. (pp_pin r, pp_af r, Spi_Miso (pp_id r))) (g_spi_miso_map P) @
     map (\<lambda>r. (pp_pin r, pp_af r, Spi_Mosi (pp_id r))) (g_spi_mosi_map P) @
     map (\<lambda>r. (pp_pin r, pp_af r, Spi_Nss (pp_id r))) (g_spi_nss_map P) @
     map (\<lambda>r. (i_scl r, i_af r, I2c_Scl (i_id r))) (g_i2c_map P) @
     map (\<lambda>r. (i_sda r, i_af r, I2c_Sda (i_id r))) (g_i2c_map P) @
     map (\<lambda>r. (pp_pin r, pp_af r, Uart_Tx (pp_id r))) (g_uart_tx_map P) @
     map (\<lambda>r. (pp_pin r, pp_af r, Uart_Rx (pp_id r))) (g_uart_rx_map P)"

definition pad_code :: "u8 \<times> u8 \<times> signal \<Rightarrow> nat" where
  "pad_code x = unat (fst x) * 256 + unat (fst (snd x))"

text \<open>SPI2's clock on PC2 and PE14: the two rows that repeat another signal's number.\<close>

definition doubtful :: "(u8 \<times> u8 \<times> signal) list" where
  "doubtful = [(PC 2, 5, Spi_Sck 2), (PE 14, 5, Spi_Sck 2)]"

lemma pads_QEU6: "distinct (map pad_code (filter (\<lambda>x. \<not> List.member doubtful x) (pads QEU6)))"
  by (simp add: pads_def QEU6_def QEU6_tables row_defs pad_code_def doubtful_def)
lemma pads_REU6: "distinct (map pad_code (pads REU6))"
  by (simp add: pads_def REU6_def REU6_tables row_defs pad_code_def)
lemma pads_RDU6: "distinct (map pad_code (pads RDU6))"
  by (simp add: pads_def RDU6_def RDU6_tables row_defs pad_code_def)
lemma pads_MEU6: "distinct (map pad_code (pads MEU6))"
  by (simp add: pads_def MEU6_def MEU6_tables row_defs pad_code_def)
lemma pads_WEU6: "distinct (map pad_code (pads WEU6))"
  by (simp add: pads_def WEU6_def WEU6_tables row_defs pad_code_def)

lemma pads_once:
  assumes "distinct (map pad_code xs)" "(p, a, s) \<in> set xs" "(p, a, s') \<in> set xs"
  shows "s = s'"
proof -
  have "inj_on pad_code (set xs)" using assms(1) by (simp add: distinct_map)
  moreover have "pad_code (p, a, s) = pad_code (p, a, s')" by (simp add: pad_code_def)
  ultimately have "(p, a, s) = (p, a, s')" using assms(2,3) by (rule inj_onD)
  then show ?thesis by simp
qed

text \<open>
  C34. On every package a pad and a function number select at most one of the signals the
  tables list, with two exceptions on the QFN128: function 5 of PC2 (SPI2's clock and its
  MISO) and of PE14 (SPI2's clock and SPI4's MOSI).
\<close>

theorem pad_function_selects_one_signal:
  assumes "P \<in> set packages" "(p, a, s) \<in> set (pads P)" "(p, a, s') \<in> set (pads P)"
  shows "s = s' \<or> P = QEU6 \<and> a = 5 \<and> (p = PC 2 \<or> p = PE 14)"
proof (cases "P = QEU6")
  case True
  show ?thesis
  proof (cases "List.member doubtful (p, a, s) \<or> List.member doubtful (p, a, s')")
    case m: True
    then show ?thesis using True by (auto simp: doubtful_def)
  next
    case False
    then show ?thesis using pads_once [OF pads_QEU6, of p a s s'] assms(2,3) True by simp
  qed
next
  case False
  then have "P = REU6 \<or> P = RDU6 \<or> P = MEU6 \<or> P = WEU6" using assms(1) by (simp add: packages_def)
  then have "distinct (map pad_code (pads P))" using pads_REU6 pads_RDU6 pads_MEU6 pads_WEU6 by blast
  then show ?thesis using pads_once assms(2,3) by blast
qed

theorem pad_function_selects_one_signal_witness:
  "{s. (PB 6, 4, s) \<in> set (pads QEU6)} = {I2c_Scl 1}"
proof -
  have q: "QEU6 \<in> set packages" by (simp add: packages_def)
  have "List.member (pads QEU6) (PB 6, 4, I2c_Scl 1)" by code_simp
  then have m: "(PB 6, 4, I2c_Scl 1) \<in> set (pads QEU6)" by simp
  have "s = I2c_Scl 1" if "(PB 6, 4, s) \<in> set (pads QEU6)" for s
    using pad_function_selects_one_signal [OF q that m] by simp
  with m show ?thesis by blast
qed

text \<open>The two exceptions are there: two signals, one function number.\<close>

lemma QEU6_doubtful_pads:
  "List.member (pads QEU6) (PC 2, 5, Spi_Sck 2) \<and> List.member (pads QEU6) (PC 2, 5, Spi_Miso 2) \<and>
   List.member (pads QEU6) (PE 14, 5, Spi_Sck 2) \<and> List.member (pads QEU6) (PE 14, 5, Spi_Mosi 4)"
  by code_simp

section \<open>The row \<open>analogWrite\<close> configured\<close>

text \<open>
  \<open>pwm_find_active\<close> answers with the first row whose timer drives PWM, which need not be
  the row that was configured.  PA0 is written while TIM2 is taken, so it gets TIM5; later
  another pin starts PWM on TIM2; then the active row of PA0 is TIM2's.
\<close>

lemma pwm_active_names_other_timer:
  "let t1 = snd (timer_claim 2 TIMER_TONE (timers_init :: unit timers));
       e = pwm_find (g_pwm_af_map QEU6) t1 (PA 0);
       t2 = snd (timer_claim 5 TIMER_PWM t1);
       t3 = snd (timer_claim 2 TIMER_PWM (timer_release 2 TIMER_TONE t2))
   in map_option w_timer e = Some 5 \<and>
      map_option w_timer (pwm_find_active (g_pwm_af_map QEU6) t3 (PA 0)) = Some 2"
  by code_simp

end
