(* ===== verification/Exti.thy ===== *)
theory Exti
  imports Pinmap
begin

text \<open>
  External interrupts (\<^verbatim>\<open>WInterrupts.c\<close>).  Sixteen lines are shared by pin number across
  the ports; a line has one owner, one handler (with or without a parameter) and is
  acknowledged before the handler runs.
\<close>

section \<open>State\<close>

text \<open>
  \<open>s_owner\<close> is \<open>int8_t\<close>, -1 for none; a handler is a value of type \<open>'h\<close> and a parameter
  a pointer value.
\<close>

record 'h exti =
  x_fn :: "'h option list"
  x_pfn :: "'h option list"
  x_param :: "u32 list"
  x_owner :: "8 word list"

definition exti_init :: "'h exti" where
  "exti_init = \<lparr>x_fn = replicate 16 None, x_pfn = replicate 16 None, x_param = replicate 16 0,
     x_owner = replicate 16 (-1)\<rparr>"

definition exti_owner :: "u8 \<Rightarrow> 'h exti \<Rightarrow> int" where
  "exti_owner line x = (if line < 16 then sint (x_owner x ! unat line) else -1)"

section \<open>Attaching and detaching\<close>

definition port_source :: "port \<Rightarrow> string" where
  "port_source p = (case p of GPIOA \<Rightarrow> ''GPIO_PortSourceGPIOA'' | GPIOB \<Rightarrow> ''GPIO_PortSourceGPIOB''
     | GPIOC \<Rightarrow> ''GPIO_PortSourceGPIOC'' | GPIOD \<Rightarrow> ''GPIO_PortSourceGPIOD''
     | GPIOE \<Rightarrow> ''GPIO_PortSourceGPIOE'' | GPIOF \<Rightarrow> ''GPIO_PortSourceGPIOF'')"

definition exti_configure ::
  "'d machine \<Rightarrow> (string \<Rightarrow> u32) \<Rightarrow> pin_desc list \<Rightarrow> u8 \<Rightarrow> pin_status \<Rightarrow> 'd \<Rightarrow> 'd" where
  "exti_configure M K pins pin mode d =
     (let p = pins ! unat pin; line = p_bit p in
      do_all
        [clock_enable M HB2 (K ''RCC_HB2Periph_AFIO''),
         m_call M (Call ''GPIO_EXTILineConfig'' [Sym (port_source (p_port p)), Num (ucast line)]),
         m_call M (Call ''EXTI_Init'' [Num (push_bit (unat line) 1), Sym ''EXTI_Mode_Interrupt'',
           Sym (case mode of RISING \<Rightarrow> ''EXTI_Trigger_Rising'' | FALLING \<Rightarrow> ''EXTI_Trigger_Falling''
                | _ \<Rightarrow> ''EXTI_Trigger_Rising_Falling''), Sym ''ENABLE'']),
         m_call M (Call ''NVIC_EnableIRQ'' [Sym (if line < 8 then ''EXTI7_0_IRQn'' else ''EXTI15_8_IRQn'')])] d)"

definition exti_refused :: "pin_desc list \<Rightarrow> u8 \<Rightarrow> 'h exti \<Rightarrow> bool" where
  "exti_refused pins pin x =
     (let ow = x_owner x ! unat (p_bit (pins ! unat pin)) in sint ow \<ge> 0 \<and> ow \<noteq> pin)"

text \<open>The callback may be null: \<open>None\<close>.\<close>

definition attachInterrupt ::
  "'d machine \<Rightarrow> (string \<Rightarrow> u32) \<Rightarrow> pin_desc list \<Rightarrow> u8 \<Rightarrow> 'h option \<Rightarrow> pin_status \<Rightarrow> 'h exti \<times> 'd \<Rightarrow> 'h exti \<times> 'd"
where
  "attachInterrupt M K pins pin callback mode s = (case s of (x, d) \<Rightarrow>
     if unat pin \<ge> PINS_COUNT \<or> callback = None then (x, d)
     else (let line = unat (p_bit (pins ! unat pin)) in
       if exti_refused pins pin x then (x, d)
       else (x\<lparr>x_fn := (x_fn x)[line := callback], x_pfn := (x_pfn x)[line := None],
               x_param := (x_param x)[line := 0], x_owner := (x_owner x)[line := pin]\<rparr>,
             exti_configure M K pins pin mode d)))"

definition attachInterruptParam ::
  "'d machine \<Rightarrow> (string \<Rightarrow> u32) \<Rightarrow> pin_desc list \<Rightarrow> u8 \<Rightarrow> 'h option \<Rightarrow> pin_status \<Rightarrow> u32 \<Rightarrow>
   'h exti \<times> 'd \<Rightarrow> 'h exti \<times> 'd"
where
  "attachInterruptParam M K pins pin callback mode param s = (case s of (x, d) \<Rightarrow>
     if unat pin \<ge> PINS_COUNT \<or> callback = None then (x, d)
     else (let line = unat (p_bit (pins ! unat pin)) in
       if exti_refused pins pin x then (x, d)
       else (x\<lparr>x_fn := (x_fn x)[line := None], x_pfn := (x_pfn x)[line := callback],
               x_param := (x_param x)[line := param], x_owner := (x_owner x)[line := pin]\<rparr>,
             exti_configure M K pins pin mode d)))"

definition detachInterrupt ::
  "'d machine \<Rightarrow> pin_desc list \<Rightarrow> u8 \<Rightarrow> 'h exti \<times> 'd \<Rightarrow> 'h exti \<times> 'd" where
  "detachInterrupt M pins pin s = (case s of (x, d) \<Rightarrow>
     if unat pin \<ge> PINS_COUNT then (x, d)
     else (let line = unat (p_bit (pins ! unat pin)) in
       if x_owner x ! line \<noteq> pin then (x, d)
       else (x\<lparr>x_fn := (x_fn x)[line := None], x_pfn := (x_pfn x)[line := None],
               x_param := (x_param x)[line := 0], x_owner := (x_owner x)[line := -1]\<rparr>,
             m_and M (REG ''EXTI.INTENR'') (NOT (push_bit line 1)) d)))"

section \<open>Dispatch\<close>

text \<open>
  \<open>run f param\<close> is a call of handler \<open>f\<close>, with its parameter if it takes one.
\<close>

definition INTFR :: reg where "INTFR = REG ''EXTI.INTFR''"

definition exti_line ::
  "'d machine \<Rightarrow> ('h \<Rightarrow> u32 option \<Rightarrow> 'h exti \<times> 'd \<Rightarrow> 'h exti \<times> 'd) \<Rightarrow> nat \<Rightarrow> 'h exti \<times> 'd \<Rightarrow> 'h exti \<times> 'd"
where
  "exti_line M run l s = (case s of (x, d) \<Rightarrow>
     case m_rd M INTFR d of (v, d1) \<Rightarrow>
       if v AND push_bit l 1 \<noteq> 0
       then (let d2 = m_wr M INTFR (push_bit l 1) d1 in
             case x_fn x ! l of
               Some f \<Rightarrow> run f None (x, d2)
             | None \<Rightarrow> (case x_pfn x ! l of
                   Some f \<Rightarrow> run f (Some (x_param x ! l)) (x, d2)
                 | None \<Rightarrow> (x, d2)))
       else (x, d1))"

definition exti_dispatch ::
  "'d machine \<Rightarrow> ('h \<Rightarrow> u32 option \<Rightarrow> 'h exti \<times> 'd \<Rightarrow> 'h exti \<times> 'd) \<Rightarrow> nat \<Rightarrow> nat \<Rightarrow> 'h exti \<times> 'd \<Rightarrow> 'h exti \<times> 'd"
where
  "exti_dispatch M run lo hi s = do_all (map (exti_line M run) [lo..<Suc hi]) s"

definition EXTI7_0_IRQHandler where "EXTI7_0_IRQHandler M run = exti_dispatch M run 0 7"
definition EXTI15_8_IRQHandler where "EXTI15_8_IRQHandler M run = exti_dispatch M run 8 15"

section \<open>The lines as an owner table\<close>

definition pins_wf :: "pin_desc list \<Rightarrow> bool" where
  "pins_wf pins \<longleftrightarrow> size pins = PINS_COUNT \<and> list_all (\<lambda>p. p_bit p < 16) pins"

definition exti_wf :: "'h exti \<Rightarrow> bool" where
  "exti_wf x \<longleftrightarrow> size (x_fn x) = 16 \<and> size (x_pfn x) = 16 \<and> size (x_param x) = 16 \<and> size (x_owner x) = 16"

definition exti_holder :: "'h exti \<times> 'd \<Rightarrow> (u8, u8) holding" where
  "exti_holder s line = (if line < 16 \<and> sint (x_owner (fst s) ! unat line) \<ge> 0
     then Some (x_owner (fst s) ! unat line) else None)"

text \<open>
  A request for a line comes from one of its pins; attaching answers through
  \<open>exti_owner\<close>.
\<close>

definition exti_on_line :: "pin_desc list \<Rightarrow> u8 \<Rightarrow> u8 \<Rightarrow> bool" where
  "exti_on_line pins line pin \<longleftrightarrow> unat pin < PINS_COUNT \<and> p_bit (pins ! unat pin) = line"

definition exti_claim ::
  "'d machine \<Rightarrow> (string \<Rightarrow> u32) \<Rightarrow> pin_desc list \<Rightarrow> 'h \<Rightarrow> pin_status \<Rightarrow> u8 \<Rightarrow> u8 \<Rightarrow> 'h exti \<times> 'd \<Rightarrow> bool \<times> 'h exti \<times> 'd"
where
  "exti_claim M K pins f mode line pin s =
     (if exti_on_line pins line pin
      then (let s1 = attachInterrupt M K pins pin (Some f) mode s
            in (exti_owner line (fst s1) = int (unat pin), s1))
      else (False, s))"

definition exti_release ::
  "'d machine \<Rightarrow> pin_desc list \<Rightarrow> u8 \<Rightarrow> u8 \<Rightarrow> 'h exti \<times> 'd \<Rightarrow> 'h exti \<times> 'd" where
  "exti_release M pins line pin s = (if exti_on_line pins line pin then detachInterrupt M pins pin s else s)"

text \<open>A held line is held by one of its pins.\<close>

definition exti_inv :: "pin_desc list \<Rightarrow> 'h exti \<Rightarrow> bool" where
  "exti_inv pins x \<longleftrightarrow> exti_wf x \<and>
     (\<forall>line. line < 16 \<longrightarrow> sint (x_owner x ! unat line) \<ge> 0 \<longrightarrow> exti_on_line pins line (x_owner x ! unat line))"

lemma sint_pin:
  assumes "unat (p :: u8) < PINS_COUNT"
  shows "sint p = int (unat p)"
proof -
  have "sint p = signed_take_bit 7 (int (unat p))" by (simp only: sint_uint uint_nat) simp
  also have "\<dots> = int (unat p)"
  proof (rule signed_take_bit_int_eq_self)
    have "int (unat p) < 96" using assms by (simp only: PINS_COUNT_def of_nat_less_numeral_iff)
    moreover have "0 \<le> int (unat p)" by (rule of_nat_0_le_iff)
    moreover have "(2 :: int) ^ 7 = 128" by simp
    ultimately show "- (2 ^ 7) \<le> int (unat p)" "int (unat p) < 2 ^ 7" by linarith+
  qed
  finally show ?thesis .
qed

lemma line_index: "(line :: u8) < 16 \<longleftrightarrow> unat line < 16"
  by (simp add: word_less_nat_alt)

lemma exti_init_inv: "exti_inv pins exti_init"
proof -
  have "\<not> 0 \<le> sint (x_owner (exti_init :: 'h exti) ! unat line)" if "line < 16" for line :: u8
    using that by (simp add: exti_init_def line_index)
  then show ?thesis by (auto simp: exti_inv_def exti_wf_def) (simp_all add: exti_init_def)
qed

lemma attach_unfold:
  assumes "unat pin < PINS_COUNT"
  shows "attachInterrupt M K pins pin (Some f) mode (x, d) =
    (if exti_refused pins pin x then (x, d)
     else (x\<lparr>x_fn := (x_fn x)[unat (p_bit (pins ! unat pin)) := Some f],
             x_pfn := (x_pfn x)[unat (p_bit (pins ! unat pin)) := None],
             x_param := (x_param x)[unat (p_bit (pins ! unat pin)) := 0],
             x_owner := (x_owner x)[unat (p_bit (pins ! unat pin)) := pin]\<rparr>,
           exti_configure M K pins pin mode d))"
  using assms by (simp add: attachInterrupt_def Let_def)

lemma exti_on_line_line: "pins_wf pins \<Longrightarrow> exti_on_line pins line pin \<Longrightarrow> unat line < 16"
  by (auto simp: pins_wf_def exti_on_line_def list_all_length word_less_nat_alt)

lemma exti_owner_update:
  assumes "exti_wf x" "unat line < 16" "unat k < 16"
  shows "(x_owner x)[unat line := ow] ! unat k = (if k = line then ow else x_owner x ! unat k)"
  using assms by (auto simp: exti_wf_def nth_list_update word_unat_eq_iff)

lemma exti_holder_update:
  assumes "exti_wf x" "unat line < 16"
  shows "exti_holder (x\<lparr>x_fn := a, x_pfn := b, x_param := c, x_owner := (x_owner x)[unat line := ow]\<rparr>, d)
    = (exti_holder (x, d'))(line := (if sint ow \<ge> 0 then Some ow else None))"
proof
  fix k
  show "exti_holder (x\<lparr>x_fn := a, x_pfn := b, x_param := c, x_owner := (x_owner x)[unat line := ow]\<rparr>, d) k
    = ((exti_holder (x, d'))(line := (if sint ow \<ge> 0 then Some ow else None))) k"
    using assms by (cases "k = line"; cases "unat k < 16") (simp_all add: exti_holder_def line_index exti_owner_update)
qed

lemma exti_inv_update:
  assumes "exti_inv pins x" "exti_on_line pins line pin" "pins_wf pins" "ow = pin \<or> ow = -1"
    and "size a = 16" "size b = 16" "size c = 16"
  shows "exti_inv pins (x\<lparr>x_fn := a, x_pfn := b, x_param := c, x_owner := (x_owner x)[unat line := ow]\<rparr>)"
proof -
  have l: "unat line < 16" by (rule exti_on_line_line [OF assms(3,2)])
  have wf: "exti_wf x" using assms(1) by (simp add: exti_inv_def)
  have "exti_on_line pins k ((x_owner x)[unat line := ow] ! unat k)"
    if "k < 16" "0 \<le> sint ((x_owner x)[unat line := ow] ! unat k)" for k
    using that assms(1,2,4) l wf
    by (cases "k = line") (auto simp: exti_owner_update line_index exti_inv_def)
  then show ?thesis using wf assms(5-7) by (simp add: exti_inv_def exti_wf_def)
qed

lemma exti_claim_cases:
  assumes "pins_wf pins" "exti_inv pins (fst s)"
  shows "exti_inv pins (fst (snd (exti_claim M K pins f mode line pin s)))"
    "fst (exti_claim M K pins f mode line pin s) \<longleftrightarrow>
       exti_on_line pins line pin \<and> (exti_holder s line = None \<or> exti_holder s line = Some pin)"
    "exti_holder (snd (exti_claim M K pins f mode line pin s)) =
       (if fst (exti_claim M K pins f mode line pin s) then (exti_holder s)(line \<mapsto> pin) else exti_holder s)"
proof -
  obtain x d where s: "s = (x, d)" by (cases s)
  let ?c = "exti_claim M K pins f mode line pin s"
  have "exti_inv pins (fst (snd ?c)) \<and>
    (fst ?c \<longleftrightarrow> exti_on_line pins line pin \<and> (exti_holder s line = None \<or> exti_holder s line = Some pin)) \<and>
    exti_holder (snd ?c) = (if fst ?c then (exti_holder s)(line \<mapsto> pin) else exti_holder s)"
  proof (cases "exti_on_line pins line pin")
    case on: True
    then have p: "unat pin < PINS_COUNT" "p_bit (pins ! unat pin) = line"
      by (simp_all add: exti_on_line_def)
    have l: "unat line < 16" by (rule exti_on_line_line [OF assms(1) on])
    have wf: "exti_wf x" using assms(2) by (simp add: exti_inv_def s)
    have sp: "sint pin = int (unat pin)" by (rule sint_pin [OF p(1)])
    have si: "sint (x_owner x ! unat line) = int (unat pin) \<longleftrightarrow> x_owner x ! unat line = pin"
      by (metis sp word_eq_iff_signed)
    show ?thesis
    proof (cases "exti_refused pins pin x")
      case True
      then have c: "?c = (False, s)"
        using on p si l by (auto simp: exti_claim_def s attach_unfold exti_owner_def line_index exti_refused_def Let_def)
      have "exti_holder s line \<noteq> None" "exti_holder s line \<noteq> Some pin"
        using True p l by (auto simp: s exti_refused_def Let_def exti_holder_def line_index)
      then show ?thesis unfolding c fst_conv snd_conv if_False using assms(2) by blast
    next
      case False
      then have a: "attachInterrupt M K pins pin (Some f) mode (x, d) =
          (x\<lparr>x_fn := (x_fn x)[unat line := Some f], x_pfn := (x_pfn x)[unat line := None],
             x_param := (x_param x)[unat line := 0], x_owner := (x_owner x)[unat line := pin]\<rparr>,
           exti_configure M K pins pin mode d)"
        using p by (simp add: attach_unfold)
      have c: "?c = (True, attachInterrupt M K pins pin (Some f) mode (x, d))"
        using on l sp wf unfolding exti_claim_def s a
        by (simp add: Let_def exti_owner_def line_index exti_owner_update)
      have h: "exti_holder s line = None \<or> exti_holder s line = Some pin"
        using False p by (auto simp: s exti_refused_def Let_def exti_holder_def)
      show ?thesis unfolding c fst_conv snd_conv if_True unfolding a
        using h on assms(2) l sp wf
        by (simp add: s exti_inv_update [OF _ on assms(1)] exti_holder_update [OF wf l, where d' = d] exti_wf_def)
    qed
  next
    case False
    then show ?thesis using assms(2) by (simp add: exti_claim_def)
  qed
  then show "exti_inv pins (fst (snd ?c))"
    "fst ?c \<longleftrightarrow> exti_on_line pins line pin \<and> (exti_holder s line = None \<or> exti_holder s line = Some pin)"
    "exti_holder (snd ?c) = (if fst ?c then (exti_holder s)(line \<mapsto> pin) else exti_holder s)"
    by blast+
qed

lemma exti_release_cases:
  assumes "pins_wf pins" "exti_inv pins (fst s)"
  shows "exti_inv pins (fst (exti_release M pins line pin s))"
    "exti_holder (exti_release M pins line pin s) =
       (if exti_holder s line = Some pin then (exti_holder s)(line := None) else exti_holder s)"
proof -
  obtain x d where s: "s = (x, d)" by (cases s)
  let ?r = "exti_release M pins line pin s"
  have wf: "exti_wf x" using assms(2) by (simp add: exti_inv_def s)
  have "exti_inv pins (fst ?r) \<and> exti_holder ?r =
      (if exti_holder s line = Some pin then (exti_holder s)(line := None) else exti_holder s)"
  proof (cases "exti_on_line pins line pin \<and> x_owner x ! unat line = pin")
    case True
    then have p: "unat pin < PINS_COUNT" "p_bit (pins ! unat pin) = line" and on: "exti_on_line pins line pin"
      by (simp_all add: exti_on_line_def)
    have l: "unat line < 16" by (rule exti_on_line_line [OF assms(1) on])
    have r: "?r = (x\<lparr>x_fn := (x_fn x)[unat line := None], x_pfn := (x_pfn x)[unat line := None],
        x_param := (x_param x)[unat line := 0], x_owner := (x_owner x)[unat line := -1]\<rparr>,
        m_and M (REG ''EXTI.INTENR'') (NOT (push_bit (unat line) 1)) d)"
      using True p by (simp add: exti_release_def s detachInterrupt_def Let_def)
    have "exti_holder s line = Some pin"
      using True l sint_pin [OF p(1)] by (simp add: s exti_holder_def line_index)
    then show ?thesis unfolding r
      using assms(2) wf by (simp add: s exti_inv_update [OF _ on assms(1)]
          exti_holder_update [OF wf l, where d' = d] exti_wf_def)
  next
    case False
    then have r: "?r = s"
      by (auto simp: exti_release_def exti_on_line_def s detachInterrupt_def Let_def)
    have "exti_holder s line \<noteq> Some pin"
      using False assms(2) by (auto simp: s exti_holder_def exti_inv_def split: if_splits)
    then show ?thesis using r assms(2) by simp
  qed
  then show "exti_inv pins (fst ?r)"
    "exti_holder ?r = (if exti_holder s line = Some pin then (exti_holder s)(line := None) else exti_holder s)"
    by blast+
qed

interpretation exti: owner_table exti_holder "exti_claim M K pins f mode" "exti_release M pins"
  "exti_on_line pins" "\<lambda>s. pins_wf pins \<and> exti_inv pins (fst s)" for M K pins f mode
  by unfold_locales (auto simp: exti_claim_cases exti_release_cases)

text \<open>
  C35. An interrupt line is never taken from its owner.  For any sequence of attach and
  detach requests, from any pins of any ports, the answers (read back through
  \<open>exti_owner\<close>) are those of a map from lines to pins: an attach succeeds exactly when
  the line of the pin is free or already that pin's, and detach by another pin changes
  nothing; so a pin that owns a line keeps it until its own detach.
\<close>

theorem exti_lines_never_stolen:
  assumes "pins_wf pins" "exti_inv pins x" "sint (x_owner x ! unat line) \<ge> 0" "line < 16"
    and "Release line (x_owner x ! unat line) \<notin> set qs"
  shows "spec_serve_all (exti_on_line pins) qs (exti_holder (x, d)) =
      (fst (exti.serve_all M K pins f mode qs (x, d)), exti_holder (snd (exti.serve_all M K pins f mode qs (x, d)))) \<and>
    exti_owner line (fst (snd (exti.serve_all M K pins f mode qs (x, d)))) = exti_owner line x"
proof -
  have i: "pins_wf pins \<and> exti_inv pins (fst (x, d))" using assms(1,2) by simp
  have one: "spec_serve_all (exti_on_line pins) qs (exti_holder (x, d)) =
      (fst (exti.serve_all M K pins f mode qs (x, d)), exti_holder (snd (exti.serve_all M K pins f mode qs (x, d))))"
    using exti.serve_all_refines [OF i] by blast
  have "exti_holder (x, d) line = Some (x_owner x ! unat line)"
    using assms(3,4) by (simp add: exti_holder_def)
  then have "exti_holder (snd (exti.serve_all M K pins f mode qs (x, d))) line = Some (x_owner x ! unat line)"
    using exti.holder_stays [OF i] assms(5) by blast
  then have "exti_owner line (fst (snd (exti.serve_all M K pins f mode qs (x, d)))) = exti_owner line x"
    using assms(4) by (auto simp: exti_holder_def exti_owner_def split: if_splits)
  with one show ?thesis by blast
qed

theorem exti_lines_never_stolen_witness:
  "exti_owner 3 (fst (snd (exti.serve_all (sim_machine (\<lambda>_. None)) sim_bits
     (replicate 96 (prow GPIOA 3 0xFF)) ''f'' RISING [Claim 3 19, Release 3 35]
     (exti_init\<lparr>x_owner := (replicate 16 (-1))[3 := 3]\<rparr>, sim_init)))) = 3"
proof -
  let ?pins = "replicate 96 (prow GPIOA 3 0xFF)"
  let ?x = "exti_init\<lparr>x_owner := (replicate 16 (-1))[3 := 3]\<rparr> :: string exti"
  have w: "pins_wf ?pins" by (simp add: pins_wf_def PINS_COUNT_def prow_def list_all_iff)
  have e: "?x = exti_init\<lparr>x_fn := x_fn exti_init, x_pfn := x_pfn exti_init, x_param := x_param exti_init,
      x_owner := (x_owner exti_init)[unat (3 :: u8) := 3]\<rparr>"
    by (simp add: exti_init_def)
  have o: "exti_on_line ?pins 3 3" by (simp add: exti_on_line_def PINS_COUNT_def prow_def)
  have i: "exti_inv ?pins ?x"
    by (subst e, rule exti_inv_update [OF exti_init_inv o w]) (simp_all add: exti_init_def)
  have own: "x_owner ?x ! unat (3 :: u8) = 3" by simp
  have s: "sint (3 :: u8) = 3" by simp
  have r: "Release 3 (x_owner ?x ! unat (3 :: u8)) \<notin> set [Claim 3 19, Release 3 35]"
    unfolding own by simp
  have "exti_owner 3 ?x = 3" by (simp add: exti_owner_def)
  then show ?thesis
    using exti_lines_never_stolen [OF w i, of 3, unfolded own, OF _ _ r [unfolded own],
      of sim_init "sim_machine (\<lambda>_. None)" sim_bits "''f''" RISING] s by simp
qed

section \<open>No edge is lost\<close>

text \<open>
  What the controller sees: an edge on a line, an acknowledgement, a handler starting.  An
  edge latches the line and an acknowledgement clears it.  A line is unserved when an edge
  has come since its handler last started; \<open>Ran\<close> serves the line acknowledged last.
\<close>

datatype exti_event = Edge nat | Ack nat | Ran

fun latch_after :: "nat \<Rightarrow> bool \<Rightarrow> exti_event list \<Rightarrow> bool" where
  "latch_after l b [] = b"
| "latch_after l b (e # es) =
     latch_after l (if e = Edge l then True else if e = Ack l then False else b) es"

fun unserved_after :: "nat \<Rightarrow> bool \<times> nat option \<Rightarrow> exti_event list \<Rightarrow> bool \<times> nat option" where
  "unserved_after l u [] = u"
| "unserved_after l (u, a) (e # es) = unserved_after l
     (case e of Edge m \<Rightarrow> (u \<or> m = l, a) | Ack m \<Rightarrow> (u, Some m)
      | Ran \<Rightarrow> (if a = Some l then False else u, None)) es"

definition latched :: "nat \<Rightarrow> exti_event list \<Rightarrow> bool" where
  "latched l es = latch_after l False es"

definition unserved :: "nat \<Rightarrow> exti_event list \<Rightarrow> bool" where
  "unserved l es = fst (unserved_after l (False, None) es)"

lemma latch_after_append: "latch_after l b (es @ fs) = latch_after l (latch_after l b es) fs"
  by (induction es arbitrary: b) auto

lemma unserved_after_append: "unserved_after l u (es @ fs) = unserved_after l (unserved_after l u es) fs"
proof (induction es arbitrary: u)
  case (Cons e es)
  then show ?case by (cases u) simp
qed simp

lemma latch_edges: "latch_after l b (map Edge es) = (b \<or> l \<in> set es)"
  by (induction es arbitrary: b) auto

lemma unserved_edges: "unserved_after l (u, a) (map Edge es) = (u \<or> l \<in> set es, a)"
  by (induction es arbitrary: u) auto

text \<open>
  The hardware and the handlers: the flag register shows the latched lines, writing a bit
  acknowledges the line, edges may come at any time, and a handler leaves the table of
  handlers alone.
\<close>

definition exti_hw ::
  "'d machine \<Rightarrow> ('h \<Rightarrow> u32 option \<Rightarrow> 'h exti \<times> 'd \<Rightarrow> 'h exti \<times> 'd) \<Rightarrow> ('d \<Rightarrow> exti_event list) \<Rightarrow> 'h exti \<Rightarrow> bool"
where
  "exti_hw M run ev x \<longleftrightarrow>
     (\<forall>d l. l < 16 \<longrightarrow> (fst (m_rd M INTFR d) AND push_bit l 1 \<noteq> 0 \<longleftrightarrow> latched l (ev d))) \<and>
     (\<forall>d. \<exists>es. ev (snd (m_rd M INTFR d)) = ev d @ map Edge es) \<and>
     (\<forall>d l. l < 16 \<longrightarrow> (\<exists>es. ev (m_wr M INTFR (push_bit l 1) d) = ev d @ Ack l # map Edge es)) \<and>
     (\<forall>f p d. \<exists>d' es. run f p (x, d) = (x, d') \<and> ev d' = ev d @ Ran # map Edge es)"

lemma exti_hw_laws:
  assumes "exti_hw M run ev x"
  shows "l < 16 \<Longrightarrow> fst (m_rd M INTFR d) AND push_bit l 1 \<noteq> 0 \<longleftrightarrow> latched l (ev d)"
    "\<exists>es. ev (snd (m_rd M INTFR d)) = ev d @ map Edge es"
    "l < 16 \<Longrightarrow> \<exists>es. ev (m_wr M INTFR (push_bit l 1) d) = ev d @ Ack l # map Edge es"
    "\<exists>d' es. run f p (x, d) = (x, d') \<and> ev d' = ev d @ Ran # map Edge es"
  using assms unfolding exti_hw_def by blast+

definition has_handler :: "'h exti \<Rightarrow> nat \<Rightarrow> bool" where
  "has_handler x l \<longleftrightarrow> x_fn x ! l \<noteq> None \<or> x_pfn x ! l \<noteq> None"

text \<open>One line: what it adds to the events.\<close>

lemma exti_line_events:
  assumes hw: "exti_hw M run ev x" and l: "l < 16"
  shows "\<exists>d' es es' es''. exti_line M run l (x, d) = (x, d') \<and> ev d' = ev d @ map Edge es @
    (if latched l (ev d) then Ack l # map Edge es' @ (if has_handler x l then Ran # map Edge es'' else []) else [])"
proof -
  obtain v d1 where rd: "m_rd M INTFR d = (v, d1)" by (cases "m_rd M INTFR d")
  obtain es where e1: "ev d1 = ev d @ map Edge es" using exti_hw_laws(2) [OF hw, of d] rd by auto
  have v: "v AND push_bit l 1 \<noteq> 0 \<longleftrightarrow> latched l (ev d)" using exti_hw_laws(1) [OF hw l, of d] rd by simp
  show ?thesis
  proof (cases "latched l (ev d)")
    case False
    then show ?thesis using v rd e1 by (intro exI [of _ d1] exI [of _ es]) (simp add: exti_line_def)
  next
    case True
    let ?d2 = "m_wr M INTFR (push_bit l 1) d1"
    obtain es' where e2: "ev ?d2 = ev d1 @ Ack l # map Edge es'" using exti_hw_laws(3) [OF hw l, of d1] by blast
    consider f where "x_fn x ! l = Some f" | f where "x_fn x ! l = None" "x_pfn x ! l = Some f"
      | "x_fn x ! l = None" "x_pfn x ! l = None" by (cases "x_fn x ! l"; cases "x_pfn x ! l") auto
    then show ?thesis
    proof cases
      case (1 f)
      obtain d' es'' where "run f None (x, ?d2) = (x, d')" "ev d' = ev ?d2 @ Ran # map Edge es''"
        using exti_hw_laws(4) [OF hw, of f None ?d2] by blast
      then show ?thesis using 1 True v rd e1 e2
        by (intro exI [of _ d'] exI [of _ es] exI [of _ es'] exI [of _ es''])
           (simp add: exti_line_def Let_def has_handler_def)
    next
      case (2 f)
      obtain d' es'' where "run f (Some (x_param x ! l)) (x, ?d2) = (x, d')" "ev d' = ev ?d2 @ Ran # map Edge es''"
        using exti_hw_laws(4) [OF hw, of f "Some (x_param x ! l)" ?d2] by blast
      then show ?thesis using 2 True v rd e1 e2
        by (intro exI [of _ d'] exI [of _ es] exI [of _ es'] exI [of _ es''])
           (simp add: exti_line_def Let_def has_handler_def)
    next
      case 3
      then show ?thesis using True v rd e1 e2
        by (intro exI [of _ ?d2] exI [of _ es] exI [of _ es'] exI [of _ "[]"])
           (simp add: exti_line_def Let_def has_handler_def)
    qed
  qed
qed

text \<open>The events of one line keep every line that has a handler either served or latched.\<close>

lemma line_events_serve:
  assumes new: "ns = map Edge es @ (if latched l old then Ack l # map Edge es' @
      (if has_handler x l then Ran # map Edge es'' else []) else [])"
    and inv: "unserved k old \<longrightarrow> latched k old" and h: "has_handler x k"
  shows "unserved k (old @ ns) \<longrightarrow> latched k (old @ ns)"
proof -
  obtain u a where ua: "unserved_after k (False, None) old = (u, a)" by (cases "unserved_after k (False, None) old")
  show ?thesis
    using inv h unfolding new
    by (auto simp: unserved_def latched_def unserved_after_append latch_after_append ua
        unserved_edges latch_edges)
qed

lemma count_edges [simp]: "count_list (map Edge es) (Ack k) = 0"
  by (induction es) auto

lemma line_events_ack:
  assumes "ns = map Edge es @ (if latched l old then Ack l # map Edge es' @
      (if has_handler x l then Ran # map Edge es'' else []) else [])"
  shows "count_list ns (Ack k) = (if k = l \<and> latched l old then 1 else 0)"
    and "latched k old \<Longrightarrow> k \<noteq> l \<Longrightarrow> latched k (old @ ns)"
  using assms by (auto simp: latched_def latch_after_append latch_edges)

lemma exti_lines_events:
  assumes hw: "exti_hw M run ev x" and "\<forall>l \<in> set ls. l < 16" "distinct ls"
  shows "\<exists>d' ns. do_all (map (exti_line M run) ls) (x, d) = (x, d') \<and> ev d' = ev d @ ns \<and>
     (\<forall>k. count_list ns (Ack k) \<le> (if k \<in> set ls then 1 else 0)) \<and>
     (\<forall>k \<in> set ls. latched k (ev d) \<longrightarrow> count_list ns (Ack k) = 1) \<and>
     (\<forall>k. has_handler x k \<longrightarrow> (unserved k (ev d) \<longrightarrow> latched k (ev d)) \<longrightarrow>
        (unserved k (ev d') \<longrightarrow> latched k (ev d')))"
  using assms(2,3)
proof (induction ls arbitrary: d)
  case (Cons l ls)
  obtain d1 es es' es'' where s: "exti_line M run l (x, d) = (x, d1)" and
    e: "ev d1 = ev d @ map Edge es @ (if latched l (ev d) then Ack l # map Edge es' @
      (if has_handler x l then Ran # map Edge es'' else []) else [])"
    using exti_line_events [OF hw, of l d] Cons.prems(1) by auto
  define n1 where "n1 = map Edge es @ (if latched l (ev d) then Ack l # map Edge es' @
      (if has_handler x l then Ran # map Edge es'' else []) else [])"
  have e1: "ev d1 = ev d @ n1" using e by (simp add: n1_def)
  have p: "\<forall>l \<in> set ls. l < 16" "distinct ls" using Cons.prems by simp_all
  obtain d' ns where r: "do_all (map (exti_line M run) ls) (x, d1) = (x, d')" "ev d' = ev d1 @ ns"
      "\<forall>k. count_list ns (Ack k) \<le> (if k \<in> set ls then 1 else 0)"
      "\<forall>k \<in> set ls. latched k (ev d1) \<longrightarrow> count_list ns (Ack k) = 1"
      "\<forall>k. has_handler x k \<longrightarrow> (unserved k (ev d1) \<longrightarrow> latched k (ev d1)) \<longrightarrow>
         (unserved k (ev d') \<longrightarrow> latched k (ev d'))"
    using Cons.IH [OF p, of d1] by (elim exE conjE) (rule that)
  note a = line_events_ack [OF n1_def]
  show ?case
  proof (intro exI [of _ d'] exI [of _ "n1 @ ns"] conjI allI ballI impI)
    show "do_all (map (exti_line M run) (l # ls)) (x, d) = (x, d')" using s r(1) by simp
    show "ev d' = ev d @ n1 @ ns" using r(2) e1 by simp
    fix k
    show "count_list (n1 @ ns) (Ack k) \<le> (if k \<in> set (l # ls) then 1 else 0)"
      using a(1) [of k] r(3) [rule_format, of k] Cons.prems(2) by (cases "k = l") auto
    show "count_list (n1 @ ns) (Ack k) = 1" if "k \<in> set (l # ls)" "latched k (ev d)"
      using that a(1) [of k] a(2) [of k] r(3) [rule_format, of k] r(4) [rule_format, of k] Cons.prems(2) e1 by (cases "k = l") auto
    show "latched k (ev d')" if "has_handler x k" "unserved k (ev d) \<longrightarrow> latched k (ev d)" "unserved k (ev d')"
    proof -
      have "unserved k (ev d1) \<longrightarrow> latched k (ev d1)"
        using line_events_serve [OF n1_def that(2,1)] e1 by simp
      then show ?thesis using r(5) that(1,3) by blast
    qed
  qed
qed simp

text \<open>
  C11. The two interrupt handlers lose no edge.  Whatever edges arrive while a dispatcher
  runs, including during the callbacks, each line of its half is acknowledged at most once
  and exactly once when it was latched on entry, no other line is, and afterwards an edge
  whose handler has not started since is still latched, so the interrupt is taken again.
\<close>

theorem exti_no_edge_lost:
  assumes "exti_hw M run ev x" "lo \<le> hi" "hi < 16"
  shows "\<exists>d' ns. exti_dispatch M run lo hi (x, d) = (x, d') \<and> ev d' = ev d @ ns \<and>
     (\<forall>k. count_list ns (Ack k) \<le> (if lo \<le> k \<and> k \<le> hi then 1 else 0)) \<and>
     (\<forall>k. lo \<le> k \<and> k \<le> hi \<and> latched k (ev d) \<longrightarrow> count_list ns (Ack k) = 1) \<and>
     (\<forall>k. has_handler x k \<and> (unserved k (ev d) \<longrightarrow> latched k (ev d)) \<longrightarrow>
        (unserved k (ev d') \<longrightarrow> latched k (ev d')))"
proof -
  have l: "\<forall>l \<in> set [lo..<Suc hi]. l < 16" "distinct [lo..<Suc hi]"
    using assms(3) by (auto simp del: upt_Suc)
  have m: "k \<in> set [lo..<Suc hi] \<longleftrightarrow> lo \<le> k \<and> k \<le> hi" for k by auto
  show ?thesis
    using exti_lines_events [OF assms(1) l, of d] unfolding exti_dispatch_def m Ball_def by blast
qed

text \<open>A controller that is its history, and a handler during which line 3 sees an edge.\<close>

definition flags_of :: "exti_event list \<Rightarrow> nat list \<Rightarrow> u32" where
  "flags_of d ls = foldr (\<lambda>l v. if latched l d then v OR push_bit l 1 else v) ls 0"

definition history_machine :: "exti_event list machine" where
  "history_machine =
     \<lparr>m_rd = (\<lambda>r d. (flags_of d [0..<16], d)),
      m_wr = (\<lambda>r v d. d @ [Ack (hd (filter (bit v) [0..<16]))]),
      m_millis = (\<lambda>d. (0, d)), m_call = (\<lambda>c d. d), m_ask = (\<lambda>c d. (0, d))\<rparr>"

lemma flags_of_bit:
  assumes "\<forall>l \<in> set ls. l < 32"
  shows "bit (flags_of d ls) l \<longleftrightarrow> l \<in> set ls \<and> latched l d"
  using assms
proof (induction ls)
  case (Cons k ls)
  have "bit (flags_of d (k # ls)) l \<longleftrightarrow> bit (flags_of d ls) l \<or> latched k d \<and> bit (push_bit k 1 :: u32) l"
    by (simp add: flags_of_def bit_or_iff)
  moreover have "bit (push_bit k 1 :: u32) l \<longleftrightarrow> l = k" using Cons.prems by (intro bit_push_one_u32) simp
  ultimately show ?case using Cons by auto
qed (simp add: flags_of_def)

lemma one_bit_index:
  assumes "l < 16"
  shows "hd (filter (bit (push_bit l 1 :: u32)) [0..<16]) = l"
proof -
  let ?f = "filter (bit (push_bit l 1 :: u32)) [0..<16]"
  have m: "set ?f = {l}" using assms by (auto simp only: set_filter bit_push_one_u32 set_upt) simp
  then have "?f \<noteq> []" by (metis empty_iff insertI1 list.set(1))
  then show ?thesis using m hd_in_set by (metis singletonD)
qed

lemma history_hw: "exti_hw history_machine (\<lambda>f p (x, d). (x, d @ [Ran, Edge 3])) (\<lambda>d. d) x"
  unfolding exti_hw_def
proof (intro conjI allI impI)
  fix d :: "exti_event list" and l :: nat assume l: "l < 16"
  have "push_bit l (1 :: u32) = 2 ^ l" by (simp add: push_bit_eq_mult)
  then show "fst (m_rd history_machine INTFR d) AND push_bit l 1 \<noteq> 0 \<longleftrightarrow> latched l d"
    using l by (simp only: and_pow_u32) (simp add: history_machine_def flags_of_bit)
  show "\<exists>es. m_wr history_machine INTFR (push_bit l 1) d = d @ Ack l # map Edge es"
    by (rule exI [of _ "[]"]) (simp only: history_machine_def one_bit_index [OF l] machine.simps list.map)
next
  fix d show "\<exists>es. snd (m_rd history_machine INTFR d) = d @ map Edge es"
    by (rule exI [of _ "[]"]) (simp add: history_machine_def)
next
  fix d show "\<exists>d' es. (\<lambda>(x, d). (x, d @ [Ran, Edge 3])) (x, d) = (x, d') \<and> d' = d @ Ran # map Edge es"
    by (rule exI [of _ "d @ [Ran, Edge 3]"], rule exI [of _ "[3]"]) simp
qed

theorem exti_no_edge_lost_witness:
  "\<exists>d' ns. exti_dispatch history_machine (\<lambda>f p (x, d). (x, d @ [Ran, Edge 3])) 0 7
       (exti_init\<lparr>x_fn := (replicate 16 None)[3 := Some ''f'']\<rparr>, [Edge 3]) = (exti_init\<lparr>x_fn := (replicate 16 None)[3 := Some ''f'']\<rparr>, d') \<and>
     d' = [Edge 3] @ ns \<and> count_list ns (Ack 3) = 1 \<and> (unserved 3 d' \<longrightarrow> latched 3 d')"
proof -
  let ?x = "exti_init\<lparr>x_fn := (replicate 16 None)[3 := Some ''f'']\<rparr> :: string exti"
  have h: "has_handler ?x 3" by (simp add: has_handler_def)
  have l: "latched 3 [Edge 3]" by (simp add: latched_def)
  from exti_no_edge_lost [OF history_hw [of ?x], of 0 7 "[Edge 3]"] obtain d' ns where
    "exti_dispatch history_machine (\<lambda>f p (x, d). (x, d @ [Ran, Edge 3])) 0 7 (?x, [Edge 3]) = (?x, d')"
    "d' = [Edge 3] @ ns"
    "\<forall>k. 0 \<le> k \<and> k \<le> 7 \<and> latched k [Edge 3] \<longrightarrow> count_list ns (Ack k) = 1"
    "\<forall>k. has_handler ?x k \<and> (unserved k [Edge 3] \<longrightarrow> latched k [Edge 3]) \<longrightarrow> (unserved k d' \<longrightarrow> latched k d')"
    by auto
  then show ?thesis using h l
    by (intro exI [of _ d'] exI [of _ ns]) auto
qed

end
