(* ===== verification/Timing.thy ===== *)
theory Timing
  imports Machine
begin

text \<open>
  Time (\<^verbatim>\<open>wiring_time.c\<close>, \<^verbatim>\<open>ch32h4_clock.c\<close> and the interrupt trace of
  \<^verbatim>\<open>ch32h4_fault.c\<close>).  The SysTick counter counts HCLK, reloads every millisecond and
  interrupts; \<open>micros\<close> combines the counter with the interrupt's count although the
  interrupt may be late.
\<close>

section \<open>The clock\<close>

definition EXPECTED_HCLK :: u32 where "EXPECTED_HCLK = 100000000"

datatype clock_src = SRC_HSI | SRC_HSE

text \<open>\<open>RCC_HSERDY\<close> is a vendor constant, in \<open>K\<close>; \<open>HCLKClock\<close> is a word the SDK updates.\<close>

definition clock_init :: "'d machine \<Rightarrow> (string \<Rightarrow> u32) \<Rightarrow> 'd \<Rightarrow> clock_src \<times> 'd" where
  "clock_init M K d =
     (case m_rd M (REG ''RCC.CTLR'')
             (do_all [m_call M (Call ''SystemInit'' []), m_call M (Call ''SystemAndCoreClockUpdate'' [])] d) of
        (v, d') \<Rightarrow> (if v AND K ''RCC_HSERDY'' \<noteq> 0 then SRC_HSE else SRC_HSI, d'))"

definition hclk :: "'d machine \<Rightarrow> 'd \<Rightarrow> u32 \<times> 'd" where
  "hclk M d = m_rd M (REG ''HCLKClock'') d"

definition sysclk :: "'d machine \<Rightarrow> 'd \<Rightarrow> u32 \<times> 'd" where
  "sysclk M d = m_rd M (REG ''SystemClock'') d"

definition clock_is_nominal :: "'d machine \<Rightarrow> clock_src \<Rightarrow> 'd \<Rightarrow> bool \<times> 'd" where
  "clock_is_nominal M src d =
     (if src = SRC_HSE then case hclk M d of (v, d') \<Rightarrow> (v = EXPECTED_HCLK, d') else (False, d))"

section \<open>The interrupt trace\<close>

datatype irq_counter = Irq_eth | Irq_systick | Irq_usbfs | Irq_usart1

record irq_trace =
  iq_count :: "irq_counter \<Rightarrow> u32"
  iq_max_nesting :: u32
  iq_nesting :: u32

definition irq_enter :: "irq_counter \<Rightarrow> irq_trace \<Rightarrow> irq_trace" where
  "irq_enter c q =
     (let q1 = q\<lparr>iq_count := (iq_count q)(c := iq_count q c + 1), iq_nesting := iq_nesting q + 1\<rparr>
      in if iq_nesting q1 > iq_max_nesting q1 then q1\<lparr>iq_max_nesting := iq_nesting q1\<rparr> else q1)"

definition irq_exit :: "irq_trace \<Rightarrow> irq_trace" where
  "irq_exit q = q\<lparr>iq_nesting := iq_nesting q - 1\<rparr>"

section \<open>SysTick\<close>

definition STK_EN :: u32 where "STK_EN = push_bit 0 1"
definition STK_IE :: u32 where "STK_IE = push_bit 1 1"
definition STK_NO_RTC :: u32 where "STK_NO_RTC = push_bit 2 1"
definition STK_AUTO_RELOAD :: u32 where "STK_AUTO_RELOAD = push_bit 3 1"

definition STK_CTLR :: reg where "STK_CTLR = REG ''SysTick0.CTLR''"
definition STK_ISR :: reg where "STK_ISR = REG ''SysTick0.ISR''"
definition STK_CNT :: reg where "STK_CNT = REG ''SysTick0.CNT''"
definition STK_CMP :: reg where "STK_CMP = REG ''SysTick0.CMP''"

record systick =
  s_millis :: u32
  ticks_per_ms :: u32
  ticks_per_us :: u32

definition systick_zero :: systick where
  "systick_zero = \<lparr>s_millis = 0, ticks_per_ms = 100000, ticks_per_us = 100\<rparr>"

definition systick_init :: "'d machine \<Rightarrow> systick \<times> 'd \<Rightarrow> systick \<times> 'd" where
  "systick_init M s = (case s of (t, d) \<Rightarrow> case hclk M d of (h, d1) \<Rightarrow>
     (let t1 = t\<lparr>ticks_per_ms := h div 1000, ticks_per_us := h div 1000000\<rparr>
      in (t1, do_all [m_wr M STK_CTLR 0, m_and M STK_ISR (NOT (push_bit 0 1)), m_wr M STK_CNT 0,
            m_wr M STK_CMP (ticks_per_ms t1 - 1),
            m_wr M STK_CTLR (STK_EN OR STK_IE OR STK_NO_RTC OR STK_AUTO_RELOAD),
            m_call M (Call ''NVIC_EnableIRQ'' [Sym ''SysTick0_IRQn''])] d1)))"

definition SysTick0_Handler :: "'d machine \<Rightarrow> irq_trace \<times> systick \<times> 'd \<Rightarrow> irq_trace \<times> systick \<times> 'd" where
  "SysTick0_Handler M s = (case s of (q, t, d) \<Rightarrow>
     (irq_exit (irq_enter Irq_systick q), t\<lparr>s_millis := s_millis t + 1\<rparr>,
      m_and M STK_ISR (NOT (push_bit 0 1)) d))"

definition millis :: "systick \<Rightarrow> u32" where
  "millis t = s_millis t"

text \<open>
  Interrupts are masked from the second statement on, so \<open>s_millis\<close> does not move.
\<close>

definition micros :: "'d machine \<Rightarrow> systick \<Rightarrow> 'd \<Rightarrow> u32 \<times> 'd" where
  "micros M t d =
     (case m_rd M MSTATUS d of (state, d) \<Rightarrow>
      case m_rd M STK_CNT (m_and M MSTATUS (NOT 8) d) of (cnt, d) \<Rightarrow>
      case m_rd M STK_ISR d of (isr, d) \<Rightarrow>
      case (if isr AND push_bit 0 1 \<noteq> 0
            then case m_rd M STK_CNT d of (cnt', d) \<Rightarrow> (s_millis t + 1, cnt', d)
            else (s_millis t, cnt, d)) of (ms, cnt, d) \<Rightarrow>
      (ms * 1000 + cnt div ticks_per_us t,
       if state AND 8 \<noteq> 0 then m_or M MSTATUS 8 d else d))"

section \<open>Waiting\<close>

text \<open>
  \<open>delay\<close>: \<open>s_millis\<close> is read through \<open>m_millis\<close>, as the interrupt changes it while the
  loop sleeps.
\<close>

partial_function (option) delay_loop :: "'d machine \<Rightarrow> u32 \<Rightarrow> u32 \<Rightarrow> 'd \<Rightarrow> 'd option" where
  "delay_loop M start ms d =
     (case m_millis M d of (t, d1) \<Rightarrow>
        if t - start < ms
        then delay_loop M start ms (m_call M (Call ''WFI'' []) (m_call M (Call ''yield'' []) d1))
        else Some d1)"

definition delay :: "'d machine \<Rightarrow> u32 \<Rightarrow> 'd \<Rightarrow> 'd option" where
  "delay M ms d = (case m_millis M d of (start, d1) \<Rightarrow> delay_loop M start ms d1)"

partial_function (option) delay_us_loop :: "'d machine \<Rightarrow> u32 \<Rightarrow> u32 \<Rightarrow> u32 \<Rightarrow> 'd \<Rightarrow> 'd option" where
  "delay_us_loop M reload remaining prev d =
     (if remaining > 0
      then (case m_rd M STK_CNT d of (cnt, d1) \<Rightarrow>
              (let elapsed = (if cnt \<ge> prev then cnt - prev else reload - prev + cnt)
               in if elapsed \<ge> remaining then Some d1
                  else delay_us_loop M reload (remaining - elapsed) cnt d1))
      else Some d)"

definition delayMicroseconds :: "'d machine \<Rightarrow> systick \<Rightarrow> u32 \<Rightarrow> 'd \<Rightarrow> 'd option" where
  "delayMicroseconds M t us d =
     (if us = 0 then Some d
      else (case m_rd M STK_CNT d of (prev, d1) \<Rightarrow>
              delay_us_loop M (ticks_per_ms t) (us * ticks_per_us t) prev d1))"

declare delay_loop.simps [code] delay_us_loop.simps [code]

lemma delay_us_loop_inv:
  assumes "delay_us_loop M reload remaining prev d = Some d'"
    and "\<forall>d. P d \<longrightarrow> P (snd (m_rd M STK_CNT d))" "P d"
  shows "P d'"
proof -
  have "(\<forall>d. P d \<longrightarrow> P (snd (m_rd M STK_CNT d))) \<longrightarrow> P d \<longrightarrow> P d'"
  proof (rule delay_us_loop.raw_induct [OF _ assms(1)])
    fix loop :: "'a machine \<Rightarrow> u32 \<Rightarrow> u32 \<Rightarrow> u32 \<Rightarrow> 'a \<Rightarrow> 'a option" and M reload remaining prev d d'
    assume ih: "\<And>M reload remaining prev d d'. loop M reload remaining prev d = Some d' \<Longrightarrow>
        (\<forall>d. P d \<longrightarrow> P (snd (m_rd M STK_CNT d))) \<longrightarrow> P d \<longrightarrow> P d'"
      and e: "(if remaining > 0 then (case m_rd M STK_CNT d of (cnt, d1) \<Rightarrow>
              (let elapsed = (if cnt \<ge> prev then cnt - prev else reload - prev + cnt)
               in if elapsed \<ge> remaining then Some d1 else loop M reload (remaining - elapsed) cnt d1))
          else Some d) = Some d'"
    show "(\<forall>d. P d \<longrightarrow> P (snd (m_rd M STK_CNT d))) \<longrightarrow> P d \<longrightarrow> P d'"
    proof (intro impI)
      assume h: "\<forall>d. P d \<longrightarrow> P (snd (m_rd M STK_CNT d))" "P d"
      obtain cnt d1 where r: "m_rd M STK_CNT d = (cnt, d1)" by fastforce
      have "P d1" using h r by (metis snd_conv)
      then show "P d'" using e h r ih by (auto simp: Let_def split: if_splits)
    qed
  qed
  with assms(2,3) show ?thesis by blast
qed

lemma delayMicroseconds_inv:
  assumes "delayMicroseconds M t us d = Some d'" "\<And>d. P d \<Longrightarrow> P (snd (m_rd M STK_CNT d))" "P d"
  shows "P d'"
  using assms delay_us_loop_inv [of M _ _ _ _ d' P]
  by (auto simp: delayMicroseconds_def split: if_splits prod.splits) (metis snd_conv)

section \<open>\<open>micros\<close> is the time\<close>

text \<open>
  The counter, with interrupts masked after \<open>m\<close> ticks have been counted: \<open>T\<close> is the time
  in HCLK periods since SysTick was started and never goes back; the counter is \<open>T\<close> modulo
  the reload, and the flag says that a reload has come that the handler has not counted.
\<close>

definition systick_runs :: "'d machine \<Rightarrow> ('d \<Rightarrow> nat) \<Rightarrow> nat \<Rightarrow> nat \<Rightarrow> bool" where
  "systick_runs M T R m \<longleftrightarrow>
     (\<forall>r d. T d \<le> T (snd (m_rd M r d))) \<and> (\<forall>r v d. T d \<le> T (m_wr M r v d)) \<and>
     (\<forall>d. fst (m_rd M STK_CNT d) = word_of_nat (T (snd (m_rd M STK_CNT d)) mod R)) \<and>
     (\<forall>d. fst (m_rd M STK_ISR d) AND push_bit 0 1 \<noteq> 0 \<longleftrightarrow> (m + 1) * R \<le> T (snd (m_rd M STK_ISR d)))"

lemma systick_laws:
  assumes "systick_runs M T R m"
  shows "m_rd M r d = (v, d') \<Longrightarrow> T d \<le> T d'" "T d \<le> T (m_wr M r v d)"
    "m_rd M STK_CNT d = (v, d') \<Longrightarrow> v = word_of_nat (T d' mod R)"
    "m_rd M STK_ISR d = (v, d') \<Longrightarrow> v AND push_bit 0 1 \<noteq> 0 \<longleftrightarrow> (m + 1) * R \<le> T d'"
  using assms unfolding systick_runs_def by (metis fst_conv snd_conv)+

lemma word_div_of_nat:
  assumes "a < 4294967296" "b < 4294967296"
  shows "(word_of_nat a :: u32) div word_of_nat b = word_of_nat (a div b)"
proof -
  have u: "unat (word_of_nat n :: u32) = n" if "n < 4294967296" for n
    using that by (simp only: unsigned_of_nat of_nat_id) (simp add: take_bit_nat_eq_self)
  show ?thesis by (simp only: word_arith_nat_div u [OF assms(1)] u [OF assms(2)])
qed

lemma micros_value:
  assumes "R = 1000 * u" "0 < u" "R < 4294967296" "k * R \<le> n" "n < (k + 1) * R"
  shows "word_of_nat k * 1000 + (word_of_nat (n mod R) :: u32) div word_of_nat u = word_of_nat (n div u)"
proof -
  have "n div R = k"
    by (rule div_nat_eqI) (use assms(4,5) in \<open>simp_all add: mult.commute\<close>)
  then have "n = k * R + n mod R" using div_mult_mod_eq [of n R] by simp
  then have n: "n = k * 1000 * u + n mod R" unfolding assms(1) by (simp add: ac_simps)
  have "n div u = k * 1000 + (n mod R) div u"
    using assms(2) by (subst (1) n) simp
  moreover have "(word_of_nat (n mod R) :: u32) div word_of_nat u = word_of_nat ((n mod R) div u)"
    using assms(1-3) by (intro word_div_of_nat) (auto intro: less_trans [OF mod_less_divisor])
  ultimately show ?thesis by simp
qed

text \<open>
  C14. \<open>micros\<close> returns the microseconds since SysTick was started, at a moment between its
  call and its return, modulo the width of the result: also when the counter reloads inside
  the call or the tick interrupt is pending on entry, as long as no second reload comes
  before it returns.  So it does not run backwards.
\<close>

theorem micros_is_time:
  assumes "systick_runs M T R m" "R = 1000 * u" "0 < u" "R < 4294967296"
    and "ticks_per_us t = word_of_nat u" "s_millis t = word_of_nat m"
    and "m * R \<le> T d" "micros M t d = (v, d')" "T d' < (m + 2) * R"
  shows "\<exists>n. T d \<le> n \<and> n \<le> T d' \<and> v = word_of_nat (n div u)"
proof -
  note l = systick_laws [OF assms(1)]
  obtain st d1 where 1: "m_rd M MSTATUS d = (st, d1)" by (cases "m_rd M MSTATUS d")
  let ?d2 = "m_and M MSTATUS (NOT 8) d1"
  obtain c d3 where 3: "m_rd M STK_CNT ?d2 = (c, d3)" by (cases "m_rd M STK_CNT ?d2")
  obtain i d4 where 4: "m_rd M STK_ISR d3 = (i, d4)" by (cases "m_rd M STK_ISR d3")
  have rmw: "T x \<le> T (m_and M r y x)" "T x \<le> T (m_or M r y x)" for x r y
    unfolding m_and_eq m_or_eq by (rule order_trans [OF l(1) [OF prod.collapse [symmetric]] l(2)])+
  have en: "T x \<le> T (if st AND 8 \<noteq> 0 then m_or M MSTATUS 8 x else x)" for x
    using rmw by simp
  have t4: "T d \<le> T d3" "T d3 \<le> T d4" using l(1) [OF 1] rmw(1) [of d1] l(1) [OF 3] l(1) [OF 4]
    by (meson order_trans)+
  show ?thesis
  proof (cases "i AND push_bit 0 1 \<noteq> 0")
    case True
    then have w: "(m + 1) * R \<le> T d4" using l(4) [OF 4] by blast
    obtain c' d5 where 5: "m_rd M STK_CNT d4 = (c', d5)" by (cases "m_rd M STK_CNT d4")
    have e: "micros M t d = ((s_millis t + 1) * 1000 + c' div ticks_per_us t,
        if st AND 8 \<noteq> 0 then m_or M MSTATUS 8 d5 else d5)"
      unfolding micros_def 1 3 4 5 prod.case using True by simp
    have b: "T d4 \<le> T d5" "T d5 \<le> T d'" using l(1) [OF 5] en [of d5] e assms(8) by simp_all
    have "v = word_of_nat (m + 1) * 1000 + word_of_nat (T d5 mod R) div word_of_nat u"
      using e assms(5,6,8) l(3) [OF 5] by (simp add: add.commute)
    also have "\<dots> = word_of_nat (T d5 div u)"
      using w b assms(9) by (intro micros_value [OF assms(2-4)]) auto
    finally show ?thesis using t4 b by (intro exI [of _ "T d5"]) simp
  next
    case False
    then have w: "T d4 < (m + 1) * R" using l(4) [OF 4] by auto
    have e: "micros M t d = (s_millis t * 1000 + c div ticks_per_us t,
        if st AND 8 \<noteq> 0 then m_or M MSTATUS 8 d4 else d4)"
      unfolding micros_def 1 3 4 prod.case using False by simp
    have b: "T d4 \<le> T d'" using en [of d4] e assms(8) by simp
    have "v = word_of_nat m * 1000 + word_of_nat (T d3 mod R) div word_of_nat u"
      using e assms(5,6,8) l(3) [OF 3] by simp
    also have "\<dots> = word_of_nat (T d3 div u)"
      using w t4 assms(7) by (intro micros_value [OF assms(2-4)]) auto
    finally show ?thesis using t4 b by (intro exI [of _ "T d3"]) simp
  qed
qed

text \<open>
  A machine whose state is the time and advances by one at every read; the reload comes
  between the read of the counter and the read of the flag.
\<close>

definition tick_machine :: "nat machine" where
  "tick_machine =
     \<lparr>m_rd = (\<lambda>r d. (if r = STK_CNT then word_of_nat (Suc d mod 100000)
                     else if r = STK_ISR then (if 100000 \<le> Suc d then 1 else 0) else 8, Suc d)),
      m_wr = (\<lambda>r v d. d), m_millis = (\<lambda>d. (word_of_nat d, Suc d)), m_call = (\<lambda>c d. d), m_ask = (\<lambda>c d. (0, d))\<rparr>"

lemma tick_machine_runs: "systick_runs tick_machine (\<lambda>d. d) 100000 0"
  by (simp add: systick_runs_def tick_machine_def STK_CNT_def STK_ISR_def)

theorem micros_is_time_witness:
  "\<exists>n. 99996 \<le> n \<and> n \<le> 100002 \<and> fst (micros tick_machine systick_zero 99996) = word_of_nat (n div 100)"
proof -
  have m: "micros tick_machine systick_zero 99996 = (1000, 100002)"
    by (simp add: micros_def tick_machine_def m_and_def m_or_def systick_zero_def STK_CNT_def STK_ISR_def)
  show ?thesis
    using micros_is_time [OF tick_machine_runs, of 100 systick_zero 99996 1000 100002] m
    by (simp add: systick_zero_def)
qed

section \<open>The delays wait long enough\<close>

text \<open>
  What ends a wait: passes are short, and only so many of them fit into one tick (\<open>P\<close>).
\<close>

definition counter_moves :: "'d machine \<Rightarrow> ('d \<Rightarrow> nat) \<Rightarrow> ('d \<Rightarrow> nat) \<Rightarrow> nat \<Rightarrow> bool" where
  "counter_moves M T P R \<longleftrightarrow> (\<forall>d. case m_rd M STK_CNT d of (c, d1) \<Rightarrow>
     c = word_of_nat (T d1 mod R) \<and> T d \<le> T d1 \<and> T d1 < T d + R \<and> (T d1 = T d \<longrightarrow> P d1 < P d))"

definition millis_moves :: "'d machine \<Rightarrow> ('d \<Rightarrow> nat) \<Rightarrow> ('d \<Rightarrow> nat) \<Rightarrow> bool" where
  "millis_moves M T P \<longleftrightarrow> (\<forall>d. case m_millis M d of (c, d1) \<Rightarrow>
     c = word_of_nat (T d) \<and> T d \<le> T d1 \<and>
     (let d2 = m_call M (Call ''WFI'' []) (m_call M (Call ''yield'' []) d1)
      in T d1 \<le> T d2 \<and> T d2 < T d + 1073741824 \<and> (T d2 = T d \<longrightarrow> P d2 < P d)))"

lemma elapsed_counter:
  assumes "0 < R" "R < 4294967296" "p \<le> q" "q < p + R"
  shows "(let a = word_of_nat (p mod R) :: u32; b = word_of_nat (q mod R)
          in if b \<ge> a then b - a else word_of_nat R - a + b) = word_of_nat (q - p)"
proof -
  let ?a = "p mod R" and ?b = "q mod R"
  have r: "?a < R" "?b < R" using assms(1) by simp_all
  have u: "unat (word_of_nat n :: u32) = n" if "n < R" for n
    using that assms(2) by (simp only: unsigned_of_nat of_nat_id) (simp add: take_bit_nat_eq_self)
  have c: "(word_of_nat ?a :: u32) \<le> word_of_nat ?b \<longleftrightarrow> ?a \<le> ?b"
    by (simp only: word_le_nat_alt u [OF r(1)] u [OF r(2)])
  have q: "q = p + (q - p)" using assms(3) by simp
  have b: "?b = (if ?a + (q - p) < R then ?a + (q - p) else ?a + (q - p) - R)"
  proof -
    have "?b = (?a + (q - p)) mod R" by (subst (1) q) (simp add: mod_simps)
    then show ?thesis using assms(4) r(1) by (simp add: le_mod_geq not_less)
  qed
  show ?thesis
  proof (cases "?a + (q - p) < R")
    case True
    then have "(word_of_nat ?b :: u32) = word_of_nat ?a + word_of_nat (q - p)" using b by simp
    then show ?thesis using c b True by (simp add: Let_def)
  next
    case False
    then have "word_of_nat ?b + word_of_nat R = (word_of_nat ?a + word_of_nat (q - p) :: u32)"
      using b by (simp flip: of_nat_add)
    moreover have "\<not> ?a \<le> ?b" using b False assms(3,4) r(1) by (simp only: if_False)
    ultimately show ?thesis using c by (simp add: Let_def algebra_simps)
  qed
qed

lemma delay_us_loop_waits:
  assumes mv: "counter_moves M T P R" and R: "0 < R" "R < 4294967296"
    and "0 < r" "r < 4294967296"
  shows "\<exists>d'. delay_us_loop M (word_of_nat R) (word_of_nat r) (word_of_nat (T d mod R)) d = Some d' \<and>
    T d + r \<le> T d' \<and> T d' < T d + r + R"
  using assms(4,5)
proof (induction "(r, P d)" arbitrary: r d rule: wf_induct_rule [OF wf_lex_prod [OF wf_less wf_less]])
  case (1 r d)
  obtain c d1 where rd: "m_rd M STK_CNT d = (c, d1)" by (cases "m_rd M STK_CNT d")
  then have c: "c = word_of_nat (T d1 mod R)" "T d \<le> T d1" "T d1 < T d + R" "T d1 = T d \<Longrightarrow> P d1 < P d"
    using mv unfolding counter_moves_def by (auto split: prod.splits)
  let ?e = "T d1 - T d"
  have u: "unat (word_of_nat n :: u32) = n" if "n < 4294967296" for n
    using that by (simp only: unsigned_of_nat of_nat_id) (simp add: take_bit_nat_eq_self)
  have "?e < 4294967296" using c(2,3) R(2) by linarith
  note ue = u [OF this] u [OF 1(3)]
  have le: "(word_of_nat r :: u32) \<le> word_of_nat ?e \<longleftrightarrow> r \<le> ?e"
    by (simp only: word_le_nat_alt ue)
  have pos: "(word_of_nat r :: u32) > 0" using 1(2) ue(2) by (simp only: word_less_nat_alt unat_0)
  note el = elapsed_counter [OF R c(2,3), unfolded Let_def, folded c(1)]
  have step: "delay_us_loop M (word_of_nat R) (word_of_nat r) (word_of_nat (T d mod R)) d =
      (if r \<le> ?e then Some d1
       else delay_us_loop M (word_of_nat R) (word_of_nat r - word_of_nat ?e) c d1)"
    by (subst delay_us_loop.simps) (simp only: rd prod.case Let_def el le pos if_True)
  show ?case
  proof (cases "r \<le> ?e")
    case True
    then show ?thesis using step c(2,3) 1(2) by (intro exI [of _ d1]) simp
  next
    case False
    have s: "(word_of_nat r :: u32) - word_of_nat ?e = word_of_nat (r - ?e)"
      using False by (simp add: of_nat_diff)
    have m: "((r - ?e, P d1), (r, P d)) \<in> {(x, y). x < y} <*lex*> {(x, y). x < y}"
      using c(2,4) False by (cases "T d1 = T d") auto
    have rs: "0 < r - ?e" "r - ?e < 4294967296" using False 1(3) by linarith+
    obtain d' where dd: "delay_us_loop M (word_of_nat R) (word_of_nat (r - ?e)) (word_of_nat (T d1 mod R)) d1 = Some d'"
      "T d1 + (r - ?e) \<le> T d'" "T d' < T d1 + (r - ?e) + R"
      using 1(1) [OF m rs] by (elim exE conjE) (rule that)
    have "delay_us_loop M (word_of_nat R) (word_of_nat r) (word_of_nat (T d mod R)) d =
        delay_us_loop M (word_of_nat R) (word_of_nat (r - ?e)) (word_of_nat (T d1 mod R)) d1"
      unfolding step s c(1) using False by (simp only: if_False)
    then have "delay_us_loop M (word_of_nat R) (word_of_nat r) (word_of_nat (T d mod R)) d = Some d'"
      using dd(1) by (rule trans)
    moreover have "T d + r \<le> T d'" "T d' < T d + r + R" using dd(2,3) c(2) False by linarith+
    ultimately show ?thesis by blast
  qed
qed

lemma delay_loop_waits:
  assumes mv: "millis_moves M T P" and "S \<le> T d" "ms < 2147483648"
    and "T d < S + ms + 1073741824"
  shows "\<exists>d'. delay_loop M (word_of_nat S) (word_of_nat ms) d = Some d' \<and> S + ms \<le> T d'"
  using assms(2,4)
proof (induction d rule: wf_induct_rule [OF wf_measures [of "[\<lambda>d. S + ms + 1073741824 - T d, P]"]])
  case (1 d)
  obtain t d1 where k: "m_millis M d = (t, d1)" by (cases "m_millis M d")
  let ?d2 = "m_call M (Call ''WFI'' []) (m_call M (Call ''yield'' []) d1)"
  have s: "t = word_of_nat (T d)" "T d \<le> T d1" "T d1 \<le> T ?d2" "T ?d2 < T d + 1073741824"
    "T ?d2 = T d \<Longrightarrow> P ?d2 < P d"
    using mv [unfolded millis_moves_def, rule_format, of d] k by (simp_all add: Let_def)
  have a: "S \<le> T d" "T d < S + 4294967296" using s 1(2,3) assms(3) by linarith+
  have u: "unat (word_of_nat ms :: u32) = ms"
    using assms(3) by (simp only: unsigned_of_nat of_nat_id) (simp add: take_bit_nat_eq_self)
  have lt: "t - word_of_nat S < (word_of_nat ms :: u32) \<longleftrightarrow> T d < S + ms"
    using a(1) by (simp only: s(1) word_less_nat_alt unat_u32_diff [OF a] u) linarith
  show ?case
  proof (cases "T d < S + ms")
    case True
    have m: "(?d2, d) \<in> measures [\<lambda>d. S + ms + 1073741824 - T d, P]"
      using s 1(3) by (cases "T ?d2 = T d") auto
    have "T ?d2 < S + ms + 1073741824" using True s by linarith
    moreover have "S \<le> T ?d2" using a s by linarith
    ultimately show ?thesis using 1(1) [OF m] lt True k by (subst delay_loop.simps) simp
  next
    case False
    then show ?thesis using lt k s(2) by (subst delay_loop.simps) simp
  qed
qed

text \<open>A span of \<open>ms\<close> ticks in counter periods.\<close>

lemma ticks_to_periods:
  fixes T C :: "'d \<Rightarrow> nat"
  assumes "0 < R" "T d + ms \<le> T d'" "(\<forall>x. T x = C x div R) \<and> 0 < ms"
  shows "C d + (ms - 1) * R < C d'"
proof -
  have "ms - 1 + 1 = ms" using assms(3) by simp
  then have t: "C d div R + (ms - 1) + 1 \<le> C d' div R" using assms(2,3) by simp
  have "C d < (C d div R + 1) * R" using dividend_less_div_times [OF assms(1), of "C d"] by simp
  then have "C d + (ms - 1) * R < (C d div R + (ms - 1) + 1) * R" by (simp add: algebra_simps)
  also have "\<dots> \<le> C d' div R * R" using t by (rule mult_le_mono1)
  also have "\<dots> \<le> C d'" by simp
  finally show ?thesis .
qed

text \<open>A counter of 100000 periods to the tick; \<open>WFI\<close> sleeps to the next reload.\<close>

definition wfi_machine :: "nat machine" where
  "wfi_machine =
     \<lparr>m_rd = (\<lambda>r d. if r = STK_CNT then (word_of_nat (Suc d mod 100000), Suc d) else (0, d)),
      m_wr = (\<lambda>r v d. d), m_millis = (\<lambda>d. (word_of_nat (d div 100000), d)),
      m_call = (\<lambda>c d. if c = Call ''WFI'' [] then (d div 100000 + 1) * 100000 else d), m_ask = (\<lambda>c d. (0, d))\<rparr>"

text \<open>
  C36. Both delays return.  \<open>delay\<close>, asked for less than \<open>2 ^ 31\<close> ms, counts ticks: it returns
  once the millisecond counter has advanced by the request, across wraps of the counter.
  As the first tick may be about to end, this is more than \<open>ms - 1\<close> whole reloads of
  \<open>R\<close> counter periods and can be less than \<open>ms\<close>.  \<open>delayMicroseconds\<close>, when the requested
  number of counter periods \<open>us * u\<close> fits the 32 bits it is computed in, returns after at
  least that many periods and less than two reloads more.
\<close>

theorem delays_wait_long_enough:
  assumes "millis_moves M T P" "ms < 2147483648"
    and "counter_moves M C P R" "R < 4294967296" "0 < R"
    and "ticks_per_ms t = word_of_nat R" "ticks_per_us t = word_of_nat u" "0 < us" "0 < u" "us * u < 4294967296"
  shows "(\<exists>d'. delay M (word_of_nat ms) d = Some d' \<and> T d + ms \<le> T d' \<and>
       ((\<forall>x. T x = C x div R) \<and> 0 < ms \<longrightarrow> C d + (ms - 1) * R < C d')) \<and>
    (\<exists>d'. delayMicroseconds M t (word_of_nat us) d = Some d' \<and> C d + us * u \<le> C d' \<and>
       C d' < C d + us * u + 2 * R)"
proof
  obtain s d1 where k: "m_millis M d = (s, d1)" by (cases "m_millis M d")
  show "\<exists>d'. delay M (word_of_nat ms) d = Some d' \<and> T d + ms \<le> T d' \<and>
       ((\<forall>x. T x = C x div R) \<and> 0 < ms \<longrightarrow> C d + (ms - 1) * R < C d')"
  proof -
    have "s = word_of_nat (T d)" "T d \<le> T d1" "T d1 < T d + 1073741824"
      using assms(1) [unfolded millis_moves_def, rule_format, of d] k by (simp_all add: Let_def)
    then obtain d' where d': "delay M (word_of_nat ms) d = Some d'" "T d + ms \<le> T d'"
      using delay_loop_waits [OF assms(1) _ assms(2), of "T d" d1] k by (auto simp: delay_def)
    show ?thesis
      by (rule exI [of _ d'], intro conjI impI, rule d'(1), rule d'(2), rule ticks_to_periods [where T = T, OF assms(5) d'(2)])
  qed
  obtain c d2 where rd: "m_rd M STK_CNT d = (c, d2)" by (cases "m_rd M STK_CNT d")
  then have c: "c = word_of_nat (C d2 mod R)" "C d \<le> C d2" "C d2 < C d + R"
    using assms(3) unfolding counter_moves_def by (auto split: prod.splits)
  have usb: "us < 4294967296"
    by (rule le_less_trans [OF _ assms(10)]) (use assms(9) in simp)
  have "unat (word_of_nat us :: u32) = us"
    using usb by (simp only: unsigned_of_nat of_nat_id) (simp add: take_bit_nat_eq_self)
  then have nz: "(word_of_nat us :: u32) \<noteq> 0" using assms(8) by (metis less_not_refl3 unat_0)
  have pos: "0 < us * u" using assms(8,9) by simp
  obtain d' where "delay_us_loop M (word_of_nat R) (word_of_nat (us * u)) (word_of_nat (C d2 mod R)) d2 = Some d'"
    "C d2 + us * u \<le> C d'" "C d' < C d2 + us * u + R"
    using delay_us_loop_waits [OF assms(3,5,4) pos assms(10), of d2] by (elim exE conjE) (rule that)
  then show "\<exists>d'. delayMicroseconds M t (word_of_nat us) d = Some d' \<and> C d + us * u \<le> C d' \<and>
       C d' < C d + us * u + 2 * R"
    using nz rd c by (intro exI [of _ d']) (simp add: delayMicroseconds_def assms(6,7))
qed

text \<open>
  Beyond that bound \<open>us * ticks_per_us\<close> wraps: at 100 MHz a wait of 42 949 673 us (43 s)
  asks for 4 counter periods.
\<close>

lemma delayMicroseconds_wraps:
  "(42949673 :: u32) * ticks_per_us systick_zero = 4"
  by code_simp

theorem delays_wait_long_enough_witness:
  "(\<exists>d'. delay wfi_machine 3 99999 = Some d' \<and> 3 \<le> d' div 100000 \<and> 299999 < d') \<and>
   (\<exists>d'. delayMicroseconds wfi_machine systick_zero 5 99999 = Some d' \<and> 100499 \<le> d' \<and> d' < 300499)"
proof -
  have a: "millis_moves wfi_machine (\<lambda>d. d div 100000) (\<lambda>_. 0)"
    by (simp add: millis_moves_def wfi_machine_def)
  have b: "counter_moves wfi_machine (\<lambda>d. d) (\<lambda>_. 0) 100000"
    by (simp add: counter_moves_def wfi_machine_def)
  show ?thesis
    using delays_wait_long_enough [OF a _ b, of 3 systick_zero 100 5 99999] by (auto simp: systick_zero_def)
qed

end
