(* ===== verification/Rng.thy ===== *)
theory Rng
  imports Machine
begin

text \<open>
  The random number generator (\<^verbatim>\<open>ch32h4_rng.c\<close>): the bounded wait for a raw word, the
  entropy pool every word is folded into, and what is handed out.
\<close>

section \<open>State and raw words\<close>

definition RNG_MIX :: nat where "RNG_MIX = 4"
definition RNG_TIMEOUT :: nat where "RNG_TIMEOUT = 200000"

record rng =
  rng_started :: bool
  rng_clock_error :: bool
  rng_pool :: u64

definition rng_zero :: rng where
  "rng_zero = \<lparr>rng_started = False, rng_clock_error = False, rng_pool = 0\<rparr>"

definition rng_start :: "'d machine \<Rightarrow> rng \<times> 'd \<Rightarrow> rng \<times> 'd" where
  "rng_start M s = (case s of (g, d) \<Rightarrow>
     if rng_started g then (g, d)
     else (g\<lparr>rng_started := True\<rparr>,
           do_all [m_call M (Call ''RCC_HBPeriphClockCmd'' [Sym ''RCC_HBPeriph_RNG'', Sym ''ENABLE'']),
             m_touch M (REG ''RCC.HBPCENR''),
             m_call M (Call ''RCC_RNGCLKConfig'' [Sym ''RCC_RNGCLKSource_SYSCLK'']),
             m_call M (Call ''RNG_Cmd'' [Sym ''ENABLE''])] d))"

definition rng_flag :: "'d machine \<Rightarrow> string \<Rightarrow> 'd \<Rightarrow> bool \<times> 'd" where
  "rng_flag M f d = (case m_ask M (Call ''RNG_GetFlagStatus'' [Sym f]) d of (v, d') \<Rightarrow> (v \<noteq> 0, d'))"

text \<open>
  One pass of the loop per unit of \<open>guard\<close>; the loop ends at the latest when \<open>--guard\<close>
  reaches 0.
\<close>

fun rng_wait :: "'d machine \<Rightarrow> nat \<Rightarrow> rng \<times> 'd \<Rightarrow> u32 \<times> rng \<times> 'd" where
  "rng_wait M 0 (g, d) = (0, g\<lparr>rng_clock_error := True\<rparr>, d)"
| "rng_wait M (Suc guard) (g, d) =
     (case rng_flag M ''RNG_FLAG_SECS'' d of (secs, d) \<Rightarrow>
      case rng_flag M ''RNG_FLAG_CECS''
          (if secs then do_all [m_call M (Call ''RNG_ClearFlag'' [Sym ''RNG_FLAG_SECS'']),
                                m_call M (Call ''RNG_Cmd'' [Sym ''DISABLE'']),
                                m_call M (Call ''RNG_Cmd'' [Sym ''ENABLE''])] d else d) of (cecs, d) \<Rightarrow>
      if cecs then (0, g\<lparr>rng_clock_error := True\<rparr>, m_call M (Call ''RNG_ClearFlag'' [Sym ''RNG_FLAG_CECS'']) d)
      else case rng_flag M ''RNG_FLAG_DRDY'' d of (drdy, d) \<Rightarrow>
        if drdy then (case m_ask M (Call ''RNG_GetRandomNumber'' []) d of (v, d) \<Rightarrow> (v, g, d))
        else if guard = 0 then (0, g\<lparr>rng_clock_error := True\<rparr>, d)
        else rng_wait M guard (g, d))"

definition rng_raw_unsafe :: "'d machine \<Rightarrow> rng \<times> 'd \<Rightarrow> u32 \<times> rng \<times> 'd" where
  "rng_raw_unsafe M s = rng_wait M RNG_TIMEOUT (rng_start M s)"

definition rng_ok :: "'d machine \<Rightarrow> rng \<times> 'd \<Rightarrow> bool \<times> rng \<times> 'd" where
  "rng_ok M s = (case rng_start M s of (g, d) \<Rightarrow> (\<not> rng_clock_error g, g, d))"

section \<open>The pool\<close>

definition pool_mix :: "u64 \<Rightarrow> u32 \<Rightarrow> u64" where
  "pool_mix p raw =
     (let a = (p XOR ucast raw) * 0x9E3779B97F4A7C15 in push_bit 31 a OR drop_bit 33 a)"

definition whiten :: "u64 \<Rightarrow> u64" where
  "whiten z0 =
     (let z1 = z0 XOR drop_bit 30 z0; z2 = z1 * 0xBF58476D1CE4E5B9;
          z3 = z2 XOR drop_bit 27 z2; z4 = z3 * 0x94D049BB133111EB
      in z4 XOR drop_bit 31 z4)"

fun rng_mix_loop :: "'d machine \<Rightarrow> nat \<Rightarrow> rng \<times> 'd \<Rightarrow> rng \<times> 'd" where
  "rng_mix_loop M 0 s = s"
| "rng_mix_loop M (Suc n) s =
     (case rng_raw_unsafe M s of (raw, g, d) \<Rightarrow>
        rng_mix_loop M n (g\<lparr>rng_pool := pool_mix (rng_pool g) raw\<rparr>, d))"

definition rng_u32 :: "'d machine \<Rightarrow> rng \<times> 'd \<Rightarrow> u32 \<times> rng \<times> 'd" where
  "rng_u32 M s = (case rng_mix_loop M RNG_MIX s of (g, d) \<Rightarrow> (ucast (whiten (rng_pool g)), g, d))"

text \<open>
  The two calls are operands of one expression, whose order C leaves open; here the left
  one is made first.
\<close>

definition rng_u64 :: "'d machine \<Rightarrow> rng \<times> 'd \<Rightarrow> u64 \<times> rng \<times> 'd" where
  "rng_u64 M s = (case rng_u32 M s of (hi, s1) \<Rightarrow> case rng_u32 M s1 of (lo, s2) \<Rightarrow>
     (push_bit 32 (ucast hi) OR ucast lo, s2))"

text \<open>\<open>memcpy\<close> of a word on this little-endian core.\<close>

definition word_bytes :: "u32 \<Rightarrow> u8 list" where
  "word_bytes w = [ucast w, ucast (drop_bit 8 w), ucast (drop_bit 16 w), ucast (drop_bit 24 w)]"

function rng_bytes :: "'d machine \<Rightarrow> nat \<Rightarrow> rng \<times> 'd \<Rightarrow> u8 list \<times> rng \<times> 'd" where
  "rng_bytes M n s =
     (if n = 0 then ([], s)
      else (case rng_u32 M s of (word, s1) \<Rightarrow>
              (let t = (if n < 4 then n else 4)
               in case rng_bytes M (n - t) s1 of (rest, s2) \<Rightarrow> (take t (word_bytes word) @ rest, s2))))"
  by pat_completeness auto

termination rng_bytes
  by (relation "measure (\<lambda>(M, n, s). n)") (auto split: if_splits)

declare rng_bytes.simps [simp del]

section \<open>Mixing loses nothing\<close>

lemma xor_right_cancel: "(a XOR c = b XOR c) = (a = (b :: u64))"
proof
  assume "a XOR c = b XOR c"
  then have "(a XOR c) XOR c = (b XOR c) XOR c" by simp
  then show "a = b" by (simp add: xor.assoc)
qed simp

lemma odd_mult_cancel:
  assumes "c * d = (1 :: u64)"
  shows "a * c = b * c \<longleftrightarrow> a = b"
proof
  assume "a * c = b * c"
  then have "a * (c * d) = b * (c * d)" by (simp only: mult.assoc [symmetric])
  then show "a = b" using assms by simp
qed simp

text \<open>A word that equals itself shifted right is zero.\<close>

lemma shift_fixed_zero:
  assumes "x = drop_bit k (x :: u64)" "0 < k"
  shows "x = 0"
proof -
  have it: "drop_bit (k * n) x = x" for n
  proof (induction n)
    case (Suc n)
    have "drop_bit (k * Suc n) x = drop_bit (k * n) (drop_bit k x)"
      by (simp add: drop_bit_drop_bit add.commute)
    then show ?case using assms(1) Suc by simp
  qed simp
  have "\<not> bit (drop_bit (k * 64) x) i" for i
  proof
    assume "bit (drop_bit (k * 64) x) i"
    then have "bit x (k * 64 + i)" by (simp add: bit_drop_bit_eq)
    then have "k * 64 + i < 64" using bit_imp_le_length by fastforce
    then show False using assms(2) by simp
  qed
  then have "drop_bit (k * 64) x = 0" by (intro bit_word_eqI) simp
  then show ?thesis using it by metis
qed

lemma xorshift_cancel:
  assumes "0 < k"
  shows "a XOR drop_bit k a = b XOR drop_bit k b \<longleftrightarrow> a = (b :: u64)"
proof
  assume e: "a XOR drop_bit k a = b XOR drop_bit k b"
  have "bit (a XOR b) i = bit (drop_bit k (a XOR b)) i" for i
  proof -
    have "bit (a XOR drop_bit k a) i = bit (b XOR drop_bit k b) i" using e by simp
    then show ?thesis by (auto simp: bit_xor_iff bit_drop_bit_eq)
  qed
  then have "a XOR b = drop_bit k (a XOR b)" by (intro bit_word_eqI) blast
  then have "a XOR b = 0" by (rule shift_fixed_zero [OF _ assms])
  then show "a = b" using xor_right_cancel [of a b b] by simp
qed simp

lemma rotate_cancel:
  "push_bit 31 a OR drop_bit 33 a = push_bit 31 b OR drop_bit 33 b \<longleftrightarrow> a = (b :: u64)"
proof
  assume e: "push_bit 31 a OR drop_bit 33 a = push_bit 31 b OR drop_bit 33 b"
  have r: "bit (push_bit 31 x OR drop_bit 33 x) (if j < 33 then j + 31 else j - 33) = bit x j"
    if "j < 64" for x :: u64 and j
  proof (cases "j < 33")
    case True
    have "\<not> bit x (33 + (j + 31))" using bit_imp_le_length [of x "33 + (j + 31)"] by auto
    then show ?thesis using True by (simp add: bit_or_iff bit_push_bit_iff bit_drop_bit_eq)
  next
    case False
    have "j - 33 < 31" using that False by linarith
    then show ?thesis using False that by (simp add: bit_or_iff bit_push_bit_iff bit_drop_bit_eq)
  qed
  show "a = b"
  proof (rule bit_word_eqI)
    fix j assume "j < LENGTH(64)"
    then have "j < 64" by simp
    then show "bit a j = bit b j" using r [of j a] r [of j b] e by simp
  qed
qed simp

lemma ucast_u32_u64_inject: "(ucast (a :: u32) :: u64) = ucast b \<longleftrightarrow> a = b"
proof -
  have "ucast (ucast (x :: u32) :: u64) = x" for x by transfer (simp add: take_bit_take_bit)
  then show ?thesis by metis
qed

lemma pool_mix_pool: "pool_mix p r = pool_mix q r \<longleftrightarrow> p = q"
proof -
  have "(0x9E3779B97F4A7C15 :: u64) * 0xF1DE83E19937733D = 1" by simp
  then show ?thesis by (simp only: pool_mix_def Let_def rotate_cancel odd_mult_cancel xor_right_cancel)
qed

lemma pool_mix_raw: "pool_mix p r = pool_mix p r' \<longleftrightarrow> r = r'"
proof -
  have "(0x9E3779B97F4A7C15 :: u64) * 0xF1DE83E19937733D = 1" by simp
  then show ?thesis
    by (simp only: pool_mix_def Let_def rotate_cancel odd_mult_cancel xor.commute [of p] xor_right_cancel
        ucast_u32_u64_inject)
qed

lemma whiten_cancel: "whiten a = whiten b \<longleftrightarrow> a = b"
proof -
  have "(0xBF58476D1CE4E5B9 :: u64) * 0x96DE1B173F119089 = 1" "(0x94D049BB133111EB :: u64) * 0x319642B2D24D8EC3 = 1"
    by simp_all
  note c = this [THEN odd_mult_cancel]
  show ?thesis unfolding whiten_def Let_def
    by (subst xorshift_cancel, simp, subst c, subst xorshift_cancel, simp, subst c, rule xorshift_cancel) simp
qed

lemma pool_run_pool: "foldl pool_mix p rs = foldl pool_mix q rs \<longleftrightarrow> p = q"
  by (induction rs arbitrary: p q) (simp_all add: pool_mix_pool)

section \<open>What is handed out\<close>

text \<open>
  The words the hardware hands over, as an observer of the machine sees them: every answer
  of \<open>RNG_GetRandomNumber\<close>, in order.
\<close>

definition rng_watched :: "'d machine \<Rightarrow> ('d \<times> u32 list) machine" where
  "rng_watched M =
     \<lparr>m_rd = (\<lambda>r (d, ws). case m_rd M r d of (v, d') \<Rightarrow> (v, d', ws)),
      m_wr = (\<lambda>r v (d, ws). (m_wr M r v d, ws)),
      m_millis = (\<lambda>(d, ws). case m_millis M d of (v, d') \<Rightarrow> (v, d', ws)),
      m_call = (\<lambda>c (d, ws). (m_call M c d, ws)),
      m_ask = (\<lambda>c (d, ws). case m_ask M c d of (v, d') \<Rightarrow>
        (v, d', if c = Call ''RNG_GetRandomNumber'' [] then ws @ [v] else ws))\<rparr>"

lemma rng_watched_sel [simp]:
  "m_rd (rng_watched M) r (d, ws) = (case m_rd M r d of (v, d') \<Rightarrow> (v, d', ws))"
  "m_call (rng_watched M) c (d, ws) = (m_call M c d, ws)"
  "m_ask (rng_watched M) (Call ''RNG_GetRandomNumber'' []) (d, ws) =
     (case m_ask M (Call ''RNG_GetRandomNumber'' []) d of (v, d') \<Rightarrow> (v, d', ws @ [v]))"
  "rng_flag (rng_watched M) f (d, ws) = (case rng_flag M f d of (v, d') \<Rightarrow> (v, d', ws))"
  by (simp_all add: rng_watched_def rng_flag_def split: prod.split)

lemma rng_start_watched:
  "rng_start (rng_watched M) (g, d, ws) = (case rng_start M (g, d) of (g', d') \<Rightarrow> (g', d', ws))"
  by (simp add: rng_start_def m_touch_def split: prod.split)

lemma rng_start_keeps:
  "rng_start M (g, d) = (g', d') \<Longrightarrow> rng_pool g' = rng_pool g \<and> rng_clock_error g' = rng_clock_error g"
  by (auto simp: rng_start_def split: if_splits)

text \<open>
  One raw word: it is the one new word of the hardware, or there is none, zero is returned
  and the failure recorded.
\<close>

definition raw_seen :: "bool \<Rightarrow> u32 \<Rightarrow> rng \<Rightarrow> u32 list \<Rightarrow> rng \<Rightarrow> u32 list \<Rightarrow> bool" where
  "raw_seen ok raw g ws g' ws' \<longleftrightarrow>
     rng_pool g' = rng_pool g \<and> ws' = ws @ (if ok then [raw] else []) \<and>
     (\<not> ok \<longrightarrow> raw = 0 \<and> rng_clock_error g') \<and> (rng_clock_error g \<longrightarrow> rng_clock_error g')"

lemma rng_wait_seen:
  "rng_wait (rng_watched M) n (g, d, ws) = (raw, g', d', ws') \<Longrightarrow>
     rng_wait M n (g, d) = (raw, g', d') \<and> (\<exists>ok. raw_seen ok raw g ws g' ws')"
proof (induction n arbitrary: d)
  case 0
  then show ?case by (auto simp: raw_seen_def intro!: exI [of _ False])
next
  case (Suc n)
  obtain secs d1 where 1: "rng_flag M ''RNG_FLAG_SECS'' d = (secs, d1)" by (cases "rng_flag M ''RNG_FLAG_SECS'' d")
  let ?d1 = "if secs then do_all [m_call M (Call ''RNG_ClearFlag'' [Sym ''RNG_FLAG_SECS'']),
       m_call M (Call ''RNG_Cmd'' [Sym ''DISABLE'']), m_call M (Call ''RNG_Cmd'' [Sym ''ENABLE''])] d1 else d1"
  obtain cecs d2 where 2: "rng_flag M ''RNG_FLAG_CECS'' ?d1 = (cecs, d2)" by (cases "rng_flag M ''RNG_FLAG_CECS'' ?d1")
  obtain drdy d3 where 3: "rng_flag M ''RNG_FLAG_DRDY'' d2 = (drdy, d3)" by (cases "rng_flag M ''RNG_FLAG_DRDY'' d2")
  obtain v d4 where 4: "m_ask M (Call ''RNG_GetRandomNumber'' []) d3 = (v, d4)"
    by (cases "m_ask M (Call ''RNG_GetRandomNumber'' []) d3")
  have w: "(if secs then do_all [m_call (rng_watched M) (Call ''RNG_ClearFlag'' [Sym ''RNG_FLAG_SECS'']),
       m_call (rng_watched M) (Call ''RNG_Cmd'' [Sym ''DISABLE'']),
       m_call (rng_watched M) (Call ''RNG_Cmd'' [Sym ''ENABLE''])] (d1, ws) else (d1, ws)) = (?d1, ws)" by simp
  consider "cecs" | "\<not> cecs" "drdy" | "\<not> cecs" "\<not> drdy" "n = 0" | "\<not> cecs" "\<not> drdy" "n \<noteq> 0" by blast
  then show ?case
  proof cases
    case 1
    then show ?thesis using Suc.prems \<open>rng_flag M ''RNG_FLAG_SECS'' d = (secs, d1)\<close> 2 w
      by (auto simp: raw_seen_def intro!: exI [of _ False])
  next
    case 2
    then show ?thesis using Suc.prems \<open>rng_flag M ''RNG_FLAG_SECS'' d = (secs, d1)\<close>
        \<open>rng_flag M ''RNG_FLAG_CECS'' ?d1 = (cecs, d2)\<close> 3 4 w
      by (auto simp: raw_seen_def intro!: exI [of _ True])
  next
    case 3
    then show ?thesis using Suc.prems \<open>rng_flag M ''RNG_FLAG_SECS'' d = (secs, d1)\<close>
        \<open>rng_flag M ''RNG_FLAG_CECS'' ?d1 = (cecs, d2)\<close> \<open>rng_flag M ''RNG_FLAG_DRDY'' d2 = (drdy, d3)\<close> w
      by (auto simp: raw_seen_def intro!: exI [of _ False])
  next
    case 4
    have "rng_wait (rng_watched M) n (g, d3, ws) = (raw, g', d', ws')"
      using Suc.prems 4 \<open>rng_flag M ''RNG_FLAG_SECS'' d = (secs, d1)\<close>
        \<open>rng_flag M ''RNG_FLAG_CECS'' ?d1 = (cecs, d2)\<close> 3 w by simp
    from Suc.IH [OF this] show ?thesis using 4 \<open>rng_flag M ''RNG_FLAG_SECS'' d = (secs, d1)\<close>
        \<open>rng_flag M ''RNG_FLAG_CECS'' ?d1 = (cecs, d2)\<close> 3 by simp
  qed
qed

lemma rng_raw_seen:
  assumes "rng_raw_unsafe (rng_watched M) (g, d, ws) = (raw, g', d', ws')"
  shows "rng_raw_unsafe M (g, d) = (raw, g', d') \<and> (\<exists>ok. raw_seen ok raw g ws g' ws')"
proof -
  obtain g1 d1 where s: "rng_start M (g, d) = (g1, d1)" by (cases "rng_start M (g, d)")
  then have "rng_wait (rng_watched M) RNG_TIMEOUT (g1, d1, ws) = (raw, g', d', ws')"
    using assms by (simp add: rng_raw_unsafe_def rng_start_watched)
  from rng_wait_seen [OF this] show ?thesis
    using rng_start_keeps [OF s] s by (simp add: rng_raw_unsafe_def raw_seen_def)
qed

text \<open>The words obtained in a loop of \<open>n\<close> rounds, and which of them are the hardware's.\<close>

definition raws_seen :: "nat \<Rightarrow> u32 list \<Rightarrow> bool list \<Rightarrow> rng \<Rightarrow> u32 list \<Rightarrow> rng \<Rightarrow> u32 list \<Rightarrow> bool" where
  "raws_seen n rs oks g ws g' ws' \<longleftrightarrow>
     size rs = n \<and> size oks = n \<and> ws' = ws @ map fst (filter snd (zip rs oks)) \<and>
     (\<forall>i < n. \<not> oks ! i \<longrightarrow> rs ! i = 0 \<and> rng_clock_error g') \<and>
     (rng_clock_error g \<longrightarrow> rng_clock_error g') \<and> rng_pool g' = foldl pool_mix (rng_pool g) rs"

lemma rng_mix_loop_seen:
  "rng_mix_loop (rng_watched M) n (g, d, ws) = (g', d', ws') \<Longrightarrow>
     rng_mix_loop M n (g, d) = (g', d') \<and> (\<exists>rs oks. raws_seen n rs oks g ws g' ws')"
proof (induction n arbitrary: g d ws)
  case 0
  then show ?case by (simp add: raws_seen_def)
next
  case (Suc n)
  obtain raw g1 d1 ws1 where r: "rng_raw_unsafe (rng_watched M) (g, d, ws) = (raw, g1, d1, ws1)"
    by (cases "rng_raw_unsafe (rng_watched M) (g, d, ws)") auto
  from rng_raw_seen [OF r] obtain ok where
    o: "rng_raw_unsafe M (g, d) = (raw, g1, d1)" "raw_seen ok raw g ws g1 ws1" by blast
  let ?g1 = "g1\<lparr>rng_pool := pool_mix (rng_pool g1) raw\<rparr>"
  have "rng_mix_loop (rng_watched M) n (?g1, d1, ws1) = (g', d', ws')" using Suc.prems r by simp
  from Suc.IH [OF this] obtain rs oks where
    l: "rng_mix_loop M n (?g1, d1) = (g', d')" "raws_seen n rs oks ?g1 ws1 g' ws'" by blast
  have "rs ! i = 0 \<and> rng_clock_error g'" if "i < n" "\<not> oks ! i" for i
    using l(2) that by (simp add: raws_seen_def)
  then have "(raw # rs) ! i = 0 \<and> rng_clock_error g'" if "i < Suc n" "\<not> (ok # oks) ! i" for i
    using that o(2) l(2) by (cases i) (auto simp: raws_seen_def raw_seen_def)
  then have "raws_seen (Suc n) (raw # rs) (ok # oks) g ws g' ws'"
    using o(2) l(2) by (auto simp: raws_seen_def raw_seen_def)
  then show ?case using o(1) l(1) by auto
qed

text \<open>The words of successive calls of \<open>rng_u32\<close>, and what \<open>rng_bytes\<close> makes of them.\<close>

fun draws :: "'d machine \<Rightarrow> nat \<Rightarrow> rng \<times> 'd \<Rightarrow> u32 list" where
  "draws M 0 s = []"
| "draws M (Suc k) s = (case rng_u32 M s of (w, s1) \<Rightarrow> w # draws M k s1)"

lemma length_word_bytes [simp]: "size (word_bytes w) = 4"
  by (simp add: word_bytes_def)

lemma rng_bytes_draws: "fst (rng_bytes M n s) = take n (concat (map word_bytes (draws M ((n + 3) div 4) s)))"
proof (induction n arbitrary: s rule: less_induct)
  case (less n)
  show ?case
  proof (cases "n = 0")
    case True
    then show ?thesis by (subst rng_bytes.simps) simp
  next
    case False
    let ?t = "if n < 4 then n else 4"
    obtain w s1 where u: "rng_u32 M s = (w, s1)" by (cases "rng_u32 M s")
    have k: "(n + 3) div 4 = Suc ((n - ?t + 3) div 4)" using False by auto
    have "fst (rng_bytes M n s) = take ?t (word_bytes w) @ fst (rng_bytes M (n - ?t) s1)"
      using False u by (subst rng_bytes.simps) (simp add: Let_def split_beta)
    also have "\<dots> = take ?t (word_bytes w) @ take (n - ?t) (concat (map word_bytes (draws M ((n - ?t + 3) div 4) s1)))"
      using less [of "n - ?t" s1] False by simp
    also have "\<dots> = take n (concat (map word_bytes (draws M ((n + 3) div 4) s)))"
      unfolding k using u by simp
    finally show ?thesis .
  qed
qed

lemma draws_length [simp]: "size (draws M k s) = k"
  by (induction k arbitrary: s) (simp_all split: prod.split)

lemma concat_word_bytes [simp]: "size (concat (map word_bytes ws)) = 4 * size ws"
  by (induction ws) (simp_all add: word_bytes_def)

lemma foldl_pool_change:
  assumes "i < size rs"
  shows "foldl pool_mix p (rs[i := r]) = foldl pool_mix p rs \<longleftrightarrow> r = rs ! i"
proof -
  have "foldl pool_mix p (A @ r # B) = foldl pool_mix p (A @ x # B) \<longleftrightarrow> r = x" for A B x
    by (simp add: pool_run_pool pool_mix_raw)
  then have "foldl pool_mix p (rs[i := r]) = foldl pool_mix p (rs[i := rs ! i]) \<longleftrightarrow> r = rs ! i"
    unfolding upd_conv_take_nth_drop [OF assms] .
  then show ?thesis by (simp only: list_update_id)
qed

text \<open>
  C37. The generator loses no entropy and hands out what it has.  \<open>rng_u32\<close> always returns.
  Watched from outside, where \<open>ws\<close> becomes \<open>ws'\<close> by the words \<open>RNG_GetRandomNumber\<close>
  answered meanwhile, it folds \<open>RNG_MIX\<close> words \<open>rs\<close> into the pool: the hardware's answers,
  every one of them once and in order, and a zero for each read that failed, which leaves
  the clock error set.  The new pool determines the old one when the words are given, and
  each word when the pool and the others are given, so nothing that went in is lost; the
  word handed out is the low half of a bijective function of the pool; and \<open>rng_bytes\<close>
  delivers exactly \<open>n\<close> bytes, those of successive draws.
\<close>

theorem rng_keeps_entropy:
  assumes "rng_u32 (rng_watched M) (g, d, ws) = (w, g', d', ws')"
  shows "rng_u32 M (g, d) = (w, g', d') \<and> w = ucast (whiten (rng_pool g')) \<and> inj whiten \<and>
     (\<exists>rs oks. raws_seen RNG_MIX rs oks g ws g' ws' \<and>
        (\<forall>q. foldl pool_mix q rs = rng_pool g' \<longleftrightarrow> q = rng_pool g) \<and>
        (\<forall>i < RNG_MIX. \<forall>r. foldl pool_mix (rng_pool g) (rs[i := r]) = rng_pool g' \<longleftrightarrow> r = rs ! i)) \<and>
     fst (rng_bytes M n s) = take n (concat (map word_bytes (draws M ((n + 3) div 4) s))) \<and>
     size (fst (rng_bytes M n s)) = n"
proof -
  have l: "rng_mix_loop (rng_watched M) RNG_MIX (g, d, ws) = (g', d', ws')" "w = ucast (whiten (rng_pool g'))"
    using assms by (auto simp: rng_u32_def split: prod.splits)
  from rng_mix_loop_seen [OF l(1)] obtain rs oks where
    m: "rng_mix_loop M RNG_MIX (g, d) = (g', d')" and r: "raws_seen RNG_MIX rs oks g ws g' ws'" by blast
  have p: "rng_pool g' = foldl pool_mix (rng_pool g) rs" "size rs = RNG_MIX"
    using r by (simp_all add: raws_seen_def)
  have u: "rng_u32 M (g, d) = (w, g', d')" using m l(2) by (simp add: rng_u32_def)
  have i: "inj whiten" by (simp add: inj_def whiten_cancel)
  have b: "size (fst (rng_bytes M n s)) = n" by (simp add: rng_bytes_draws)
  have e: "\<exists>rs oks. raws_seen RNG_MIX rs oks g ws g' ws' \<and>
        (\<forall>q. foldl pool_mix q rs = rng_pool g' \<longleftrightarrow> q = rng_pool g) \<and>
        (\<forall>i < RNG_MIX. \<forall>r. foldl pool_mix (rng_pool g) (rs[i := r]) = rng_pool g' \<longleftrightarrow> r = rs ! i)"
    by (rule exI [of _ rs], rule exI [of _ oks]) (simp add: r p pool_run_pool foldl_pool_change)
  show ?thesis by (intro conjI u l(2) i e rng_bytes_draws b)
qed

text \<open>Hardware that is ready at once and answers 1, 2, 3 and so on.\<close>

definition counting_rng :: "nat machine" where
  "counting_rng =
     \<lparr>m_rd = (\<lambda>r d. (0, d)), m_wr = (\<lambda>r v d. d), m_millis = (\<lambda>d. (0, d)), m_call = (\<lambda>c d. d),
      m_ask = (\<lambda>c d. if c = Call ''RNG_GetRandomNumber'' [] then (word_of_nat (Suc d), Suc d)
                     else if c = Call ''RNG_GetFlagStatus'' [Sym ''RNG_FLAG_DRDY''] then (1, d) else (0, d))\<rparr>"

lemma counting_rng_raw:
  "rng_raw_unsafe (rng_watched counting_rng) (g, d, ws) =
     (word_of_nat (Suc d), g\<lparr>rng_started := True\<rparr>, Suc d, ws @ [word_of_nat (Suc d)])"
proof -
  have "rng_flag counting_rng ''RNG_FLAG_SECS'' x = (False, x)" "rng_flag counting_rng ''RNG_FLAG_CECS'' x = (False, x)"
    "rng_flag counting_rng ''RNG_FLAG_DRDY'' x = (True, x)"
    "m_ask counting_rng (Call ''RNG_GetRandomNumber'' []) x = (word_of_nat (Suc x), Suc x)" for x
    by (simp_all add: rng_flag_def counting_rng_def)
  then have 1: "rng_wait (rng_watched counting_rng) (Suc n) (g, d, ws) =
      (word_of_nat (Suc d), g, Suc d, ws @ [word_of_nat (Suc d)])" for n g by simp
  have 2: "rng_start (rng_watched counting_rng) (g, d, ws) = (g\<lparr>rng_started := True\<rparr>, d, ws)"
    by (cases g) (simp add: rng_start_def m_touch_def, simp add: counting_rng_def)
  have 3: "RNG_TIMEOUT = Suc 199999" by (simp add: RNG_TIMEOUT_def)
  show ?thesis unfolding rng_raw_unsafe_def 2 3 by (rule 1)
qed

theorem rng_keeps_entropy_witness:
  "\<exists>w g' rs oks. rng_u32 counting_rng (rng_zero, 0) = (w, g', 4) \<and>
     raws_seen 4 rs oks rng_zero [] g' [1, 2, 3, 4] \<and> foldl pool_mix 0 (rs[2 := rs ! 2 + 1]) \<noteq> rng_pool g' \<and>
     size (fst (rng_bytes counting_rng 7 (rng_zero, 0))) = 7"
proof -
  have "\<exists>w g'. rng_u32 (rng_watched counting_rng) (rng_zero, 0, []) = (w, g', 4, [1, 2, 3, 4])"
    by (simp add: rng_u32_def RNG_MIX_def eval_nat_numeral counting_rng_raw)
  then obtain w g' where u: "rng_u32 (rng_watched counting_rng) (rng_zero, 0, []) = (w, g', 4, [1, 2, 3, 4])"
    by blast
  from rng_keeps_entropy [OF u, of 7 "(rng_zero, 0)"] obtain rs oks where
    r: "rng_u32 counting_rng (rng_zero, 0) = (w, g', 4)" "raws_seen RNG_MIX rs oks rng_zero [] g' [1, 2, 3, 4]"
      "\<forall>i < RNG_MIX. \<forall>r. foldl pool_mix (rng_pool rng_zero) (rs[i := r]) = rng_pool g' \<longleftrightarrow> r = rs ! i"
      "size (fst (rng_bytes counting_rng 7 (rng_zero, 0))) = 7" by blast
  have "rs ! 2 + 1 \<noteq> rs ! 2" by simp
  then have "foldl pool_mix 0 (rs[2 := rs ! 2 + 1]) \<noteq> rng_pool g'"
    using r(3) [rule_format, of 2 "rs ! 2 + 1"] by (simp add: RNG_MIX_def rng_zero_def)
  then show ?thesis using r by (auto simp: RNG_MIX_def)
qed

end
