(* ===== verification/Analog.thy ===== *)
theory Analog
  imports Pinmap Timing
begin

text \<open>
  Digital and analog pins (\<^verbatim>\<open>wiring_digital.c\<close>, \<^verbatim>\<open>wiring_analog.c\<close> and
  \<^verbatim>\<open>ch32h4_dac.c\<close>): pin modes, the ADC and its scaling, the two DACs, and PWM on shared
  timers.  The floating-point temperature and supply readings are not modelled.
\<close>

section \<open>Digital pins\<close>

definition pin_cfg :: "pin_mode \<Rightarrow> u8" where
  "pin_cfg mode = (case mode of OUTPUT \<Rightarrow> CFG_OUT_PP_50 | INPUT_PULLUP \<Rightarrow> CFG_IN_PUPD
     | INPUT_PULLDOWN \<Rightarrow> CFG_IN_PUPD | OUTPUT_OPENDRAIN \<Rightarrow> CFG_OUT_OD_50 | INPUT \<Rightarrow> CFG_IN_FLOATING)"

definition pinMode :: "'d machine \<Rightarrow> (string \<Rightarrow> u32) \<Rightarrow> package \<Rightarrow> u8 \<Rightarrow> pin_mode \<Rightarrow> 'd \<Rightarrow> 'd" where
  "pinMode M K P pin mode d =
     (if unat pin \<ge> PINS_COUNT then d
      else (let p = g_pins P ! unat pin; d1 = pin_af M K (p_port p) (p_bit p) AF_NONE (pin_cfg mode) d in
        if mode = INPUT_PULLUP then m_wr M (port_reg (p_port p) ''.BSHR'') (push_bit (unat (p_bit p)) 1) d1
        else if mode = INPUT_PULLDOWN then m_wr M (port_reg (p_port p) ''.BCR'') (push_bit (unat (p_bit p)) 1) d1
        else d1))"

definition digitalWrite :: "'d machine \<Rightarrow> package \<Rightarrow> u8 \<Rightarrow> pin_status \<Rightarrow> 'd \<Rightarrow> 'd" where
  "digitalWrite M P pin v d =
     (if unat pin \<ge> PINS_COUNT then d
      else (let p = g_pins P ! unat pin in
        if v = LOW then m_wr M (port_reg (p_port p) ''.BCR'') (push_bit (unat (p_bit p)) 1) d
        else m_wr M (port_reg (p_port p) ''.BSHR'') (push_bit (unat (p_bit p)) 1) d))"

definition digitalRead :: "'d machine \<Rightarrow> package \<Rightarrow> u8 \<Rightarrow> 'd \<Rightarrow> pin_status \<times> 'd" where
  "digitalRead M P pin d =
     (if unat pin \<ge> PINS_COUNT then (LOW, d)
      else (let p = g_pins P ! unat pin in
        case m_rd M (port_reg (p_port p) ''.INDR'') d of (v, d1) \<Rightarrow>
          (if v AND push_bit (unat (p_bit p)) 1 \<noteq> 0 then HIGH else LOW, d1)))"

section \<open>The DACs\<close>

definition PIN_DAC1 :: u8 where "PIN_DAC1 = PA 4"
definition PIN_DAC2 :: u8 where "PIN_DAC2 = PA 5"

record dac =
  dac_started :: "u8 list"
  dac_buffered :: "u8 list"

definition dac_zero :: dac where
  "dac_zero = \<lparr>dac_started = [0, 0], dac_buffered = [1, 1]\<rparr>"

definition dac_channel :: "u8 \<Rightarrow> u8" where
  "dac_channel pin = (if pin = PIN_DAC1 then 1 else if pin = PIN_DAC2 then 2 else 0)"

definition pin_has_dac :: "u8 \<Rightarrow> bool" where
  "pin_has_dac pin \<longleftrightarrow> dac_channel pin \<noteq> 0"

definition dac_output_buffer :: "u8 \<Rightarrow> bool \<Rightarrow> dac \<Rightarrow> bool \<times> dac" where
  "dac_output_buffer pin enable x =
     (let ch = dac_channel pin; i = unat (ch - 1); e = (if enable then 1 else 0) in
      if ch = 0 then (False, x)
      else if dac_buffered x ! i \<noteq> e
      then (True, x\<lparr>dac_buffered := (dac_buffered x)[i := e], dac_started := (dac_started x)[i := 0]\<rparr>)
      else (True, x))"

definition dac_name :: "u8 \<Rightarrow> string" where
  "dac_name ch = (if ch = 1 then ''DAC_Channel_1'' else ''DAC_Channel_2'')"

definition dac_start :: "'d machine \<Rightarrow> (string \<Rightarrow> u32) \<Rightarrow> package \<Rightarrow> u8 \<Rightarrow> dac \<times> 'd \<Rightarrow> dac \<times> 'd" where
  "dac_start M K P ch s = (case s of (x, d) \<Rightarrow>
     if dac_started x ! unat (ch - 1) \<noteq> 0 then (x, d)
     else (let p = g_pins P ! unat (if ch = 1 then PIN_DAC1 else PIN_DAC2) in
       (x\<lparr>dac_started := (dac_started x)[unat (ch - 1) := 1]\<rparr>,
        do_all [clock_enable M HB1 (K ''RCC_HB1Periph_DAC''),
          pin_af M K (p_port p) (p_bit p) AF_NONE CFG_IN_ANALOG,
          m_call M (Call ''DAC_Init'' [Sym (dac_name ch), Sym ''DAC_Trigger_None'', Sym ''DAC_WaveGeneration_None'', Num 0,
            Sym (if dac_buffered x ! unat (ch - 1) \<noteq> 0 then ''DAC_OutputBuffer_Enable'' else ''DAC_OutputBuffer_Disable'')]),
          m_call M (Call ''DAC_Cmd'' [Sym (dac_name ch), Sym ''ENABLE''])] d)))"

definition dac_write ::
  "'d machine \<Rightarrow> (string \<Rightarrow> u32) \<Rightarrow> package \<Rightarrow> u8 \<Rightarrow> u16 \<Rightarrow> dac \<times> 'd \<Rightarrow> bool \<times> dac \<times> 'd" where
  "dac_write M K P pin value12 s =
     (let ch = dac_channel pin; v = (if value12 > 4095 then 4095 else value12) in
      if ch = 0 then (False, s)
      else (case dac_start M K P ch s of (x, d) \<Rightarrow>
        (True, x, m_call M (Call (if ch = 1 then ''DAC_SetChannel1Data'' else ''DAC_SetChannel2Data'')
           [Sym ''DAC_Align_12b_R'', Num (ucast v)]) d)))"

definition dac_read :: "'d machine \<Rightarrow> u8 \<Rightarrow> dac \<times> 'd \<Rightarrow> u16 \<times> dac \<times> 'd" where
  "dac_read M pin s = (case s of (x, d) \<Rightarrow>
     (let ch = dac_channel pin in
      if ch = 0 \<or> dac_started x ! unat (ch - 1) = 0 then (0, x, d)
      else (case m_ask M (Call ''DAC_GetDataOutputValue'' [Sym (dac_name ch)]) d of (v, d1) \<Rightarrow> (ucast v, x, d1))))"

definition dac_stop :: "'d machine \<Rightarrow> u8 \<Rightarrow> dac \<times> 'd \<Rightarrow> dac \<times> 'd" where
  "dac_stop M pin s = (case s of (x, d) \<Rightarrow>
     (let ch = dac_channel pin in
      if ch = 0 \<or> dac_started x ! unat (ch - 1) = 0 then (x, d)
      else (x\<lparr>dac_started := (dac_started x)[unat (ch - 1) := 0]\<rparr>,
            m_call M (Call ''DAC_Cmd'' [Sym (dac_name ch), Sym ''DISABLE'']) d)))"

definition dac_is_started :: "u8 \<Rightarrow> dac \<Rightarrow> bool" where
  "dac_is_started pin x = (let ch = dac_channel pin in ch \<noteq> 0 \<and> dac_started x ! unat (ch - 1) \<noteq> 0)"

section \<open>Settings and the ADC\<close>

record analog =
  read_bits :: u8
  write_bits :: u8
  adc_ready :: bool
  adc_capturing :: bool
  pwm_hz :: u32
  pwm_chan_active :: "u8 list"

definition analog_zero :: analog where
  "analog_zero = \<lparr>read_bits = 10, write_bits = 8, adc_ready = False, adc_capturing = False,
     pwm_hz = 1000, pwm_chan_active = replicate 13 0\<rparr>"

definition analogReadResolution :: "int \<Rightarrow> analog \<Rightarrow> analog" where
  "analogReadResolution bits a = (if bits \<ge> 1 \<and> bits \<le> 16 then a\<lparr>read_bits := word_of_int bits\<rparr> else a)"

definition analogReadResolutionBits :: "analog \<Rightarrow> int" where
  "analogReadResolutionBits a = uint (read_bits a)"

definition analogWriteResolution :: "int \<Rightarrow> analog \<Rightarrow> analog" where
  "analogWriteResolution bits a = (if bits \<ge> 1 \<and> bits \<le> 16 then a\<lparr>write_bits := word_of_int bits\<rparr> else a)"

definition adc_claim :: "analog \<Rightarrow> analog" where "adc_claim a = a\<lparr>adc_capturing := True\<rparr>"
definition adc_release :: "analog \<Rightarrow> analog" where "adc_release a = a\<lparr>adc_capturing := False\<rparr>"
definition adc_is_capturing :: "analog \<Rightarrow> bool" where "adc_is_capturing a = adc_capturing a"

text \<open>\<open>n\<close> is the count of refused resets, which \<open>block_reset\<close> keeps.\<close>

definition adc_init_once ::
  "'d machine \<Rightarrow> (string \<Rightarrow> u32) \<Rightarrow> analog \<times> u32 \<times> 'd \<Rightarrow> analog \<times> u32 \<times> 'd" where
  "adc_init_once M K s = (case s of (a, n, d) \<Rightarrow>
     if adc_ready a then (a, n, d)
     else (case block_reset M K HB2 (K ''RCC_HB2Periph_ADC1'') (n, clock_enable M HB2 (K ''RCC_HB2Periph_ADC1'') d) of
       (_, n1, d1) \<Rightarrow> case m_rd M (REG ''RCC.CFGR0'') d1 of (cfgr, d2) \<Rightarrow>
         (a\<lparr>adc_ready := True\<rparr>, n1,
          m_wr M (REG ''RCC.CFGR0'') ((cfgr AND NOT (push_bit 14 3)) OR push_bit 14 3) d2)))"

definition adc_single_shot_config :: "'d machine \<Rightarrow> 'd \<Rightarrow> 'd" where
  "adc_single_shot_config M = do_all
     [m_call M (Call ''ADC_Init'' [Sym ''ADC1'', Sym ''ADC_Mode_Independent'', Sym ''DISABLE'', Sym ''DISABLE'',
        Sym ''ADC_ExternalTrigConv_None'', Sym ''ADC_DataAlign_Right'', Num 1]),
      m_call M (Call ''ADC_DMACmd'' [Sym ''ADC1'', Sym ''DISABLE'']),
      m_call M (Call ''ADC_ExternalTrigConvCmd'' [Sym ''ADC1'', Sym ''DISABLE'']),
      m_call M (Call ''ADC_TempSensorVrefintCmd'' [Sym ''ENABLE'']),
      m_call M (Call ''ADC_Cmd'' [Sym ''ADC1'', Sym ''ENABLE''])]"

definition adc_eoc :: "'d machine \<Rightarrow> 'd \<Rightarrow> bool \<times> 'd" where
  "adc_eoc M d = (case m_ask M (Call ''ADC_GetFlagStatus'' [Sym ''ADC1'', Sym ''ADC_FLAG_EOC'']) d of
     (v, d1) \<Rightarrow> (v \<noteq> 0, d1))"

definition adc_read_channel ::
  "'d machine \<Rightarrow> (string \<Rightarrow> u32) \<Rightarrow> u8 \<Rightarrow> analog \<times> u32 \<times> 'd \<Rightarrow> u16 \<times> analog \<times> u32 \<times> 'd" where
  "adc_read_channel M K ch s = (case adc_init_once M K s of (a, n, d) \<Rightarrow>
     case guarded (adc_eoc M) 1000000
         (do_all [adc_single_shot_config M,
            m_call M (Call ''ADC_RegularChannelConfig'' [Sym ''ADC1'', Num (ucast ch), Num 1, Sym ''ADC_SampleTime_CyclesMode7'']),
            m_call M (Call ''ADC_SoftwareStartConvCmd'' [Sym ''ADC1'', Sym ''ENABLE''])] d) of
       (ok, d1) \<Rightarrow>
         if \<not> ok then (0, a, n, d1)
         else (case m_ask M (Call ''ADC_GetConversionValue'' [Sym ''ADC1'']) d1 of (v, d2) \<Rightarrow> (ucast v, a, n, d2)))"

definition ATEMP :: u8 where "ATEMP = of_nat PINS_COUNT + 0"
definition AVREF :: u8 where "AVREF = of_nat PINS_COUNT + 1"
definition ADC_INTERNAL_TEMP_CHANNEL :: u8 where "ADC_INTERNAL_TEMP_CHANNEL = 16"
definition ADC_INTERNAL_VREF_CHANNEL :: u8 where "ADC_INTERNAL_VREF_CHANNEL = 17"

definition adc_channel :: "package \<Rightarrow> u8 \<Rightarrow> u8" where
  "adc_channel P pin =
     (if pin = ATEMP then ADC_INTERNAL_TEMP_CHANNEL
      else if pin = AVREF then ADC_INTERNAL_VREF_CHANNEL
      else if unat pin \<ge> PINS_COUNT then 0xFF else p_adc (g_pins P ! unat pin))"

definition adc_is_internal :: "u8 \<Rightarrow> bool" where
  "adc_is_internal pin \<longleftrightarrow> pin = ATEMP \<or> pin = AVREF"

definition adc_prepare_pin :: "'d machine \<Rightarrow> (string \<Rightarrow> u32) \<Rightarrow> package \<Rightarrow> u8 \<Rightarrow> 'd \<Rightarrow> 'd" where
  "adc_prepare_pin M K P pin d =
     (if adc_is_internal pin \<or> unat pin \<ge> PINS_COUNT then d
      else (let p = g_pins P ! unat pin in pin_af M K (p_port p) (p_bit p) AF_NONE CFG_IN_ANALOG d))"

definition scale_reading :: "u8 \<Rightarrow> u32 \<Rightarrow> u32" where
  "scale_reading bits raw =
     (if bits \<ge> 12 then push_bit (unat bits - 12) raw else drop_bit (12 - unat bits) raw)"

definition analogRead ::
  "'d machine \<Rightarrow> (string \<Rightarrow> u32) \<Rightarrow> package \<Rightarrow> u8 \<Rightarrow> analog \<times> u32 \<times> 'd \<Rightarrow> u32 \<times> analog \<times> u32 \<times> 'd" where
  "analogRead M K P pin s = (case s of (a, n, d) \<Rightarrow>
     (let ch = adc_channel P pin in
      if ch = 0xFF then (0, a, n, d)
      else if adc_capturing a then (0, a, n, d)
      else (case adc_read_channel M K ch (a, n, adc_prepare_pin M K P pin d) of
        (raw, a1, n1, d1) \<Rightarrow> (scale_reading (read_bits a1) (ucast raw), a1, n1, d1))))"

section \<open>PWM\<close>

definition analogWriteFrequency :: "u32 \<Rightarrow> analog \<Rightarrow> analog" where
  "analogWriteFrequency hz a = (if hz > 0 then a\<lparr>pwm_hz := hz\<rparr> else a)"

definition top_of :: "u8 \<Rightarrow> u32" where
  "top_of bits = push_bit (unat bits) 1 - 1"

text \<open>
  The divisor is computed in 32 bits and may wrap to 0; a division by zero is undefined in
  C: \<open>None\<close>.
\<close>

definition pwm_prescaler :: "u32 \<Rightarrow> u32 \<Rightarrow> u32 \<Rightarrow> u32 option" where
  "pwm_prescaler clock hz tp =
     (let q = hz * (tp + 1) in
      if q = 0 then None
      else (let p = clock div q; p1 = (if p = 0 then 1 else p)
            in Some (if p1 > 0x10000 then 0x10000 else p1)))"

definition pwm_configure_timebase ::
  "'d machine \<Rightarrow> string \<Rightarrow> u32 \<Rightarrow> u32 \<Rightarrow> 'd \<Rightarrow> 'd option" where
  "pwm_configure_timebase M dev hz tp d = (case hclk M d of (clk, d1) \<Rightarrow>
     (case pwm_prescaler clk hz tp of
        None \<Rightarrow> None
      | Some p \<Rightarrow> Some (do_all
          [m_call M (Call ''TIM_TimeBaseInit'' [Sym dev, Num (ucast (ucast (p - 1) :: u16)), Sym ''TIM_CounterMode_Up'',
             Num (ucast (ucast tp :: u16)), Sym ''TIM_CKD_DIV1'', Num 0]),
           m_call M (Call ''TIM_ARRPreloadConfig'' [Sym dev, Sym ''ENABLE''])] d1)))"

definition pwm_set_channel :: "'d machine \<Rightarrow> string \<Rightarrow> u8 \<Rightarrow> u16 \<Rightarrow> bool \<Rightarrow> 'd \<Rightarrow> 'd" where
  "pwm_set_channel M dev channel pulse negated =
     (let n = (if channel = 1 then ''1'' else if channel = 2 then ''2'' else if channel = 3 then ''3'' else ''4'') in
      do_all
        [m_call M (Call (''TIM_OC'' @ n @ ''Init'') [Sym dev, Sym ''TIM_OCMode_PWM1'',
           Sym (if negated then ''TIM_OutputState_Disable'' else ''TIM_OutputState_Enable''),
           Sym (if negated then ''TIM_OutputNState_Enable'' else ''TIM_OutputNState_Disable''),
           Num (ucast pulse), Sym ''TIM_OCPolarity_High'', Sym ''TIM_OCNPolarity_High'',
           Sym ''TIM_OCIdleState_Reset'', Sym ''TIM_OCNIdleState_Reset'']),
         m_call M (Call (''TIM_OC'' @ n @ ''PreloadConfig'') [Sym dev, Sym ''TIM_OCPreload_Enable''])])"

text \<open>The \<open>int\<close> argument, clamped to \<open>0 .. tp\<close>.\<close>

definition clamp_value :: "u32 \<Rightarrow> u32 \<Rightarrow> u32" where
  "clamp_value tp v = (if sint v < 0 then 0 else if v > tp then tp else v)"

definition dac_code :: "u32 \<Rightarrow> u32 \<Rightarrow> u16" where
  "dac_code tp v = ucast ((v * 4095 + tp div 2) div tp)"

text \<open>The state of the wiring layer: settings, DACs, timers and refused resets.\<close>

record 'h wiring =
  wi_an :: analog
  wi_dac :: dac
  wi_tim :: "'h timers"
  wi_refused :: u32

definition chan_bit :: "u8 \<Rightarrow> u8" where
  "chan_bit ch = push_bit (unat (ch - 1)) 1"

definition analogWrite ::
  "'d machine \<Rightarrow> (string \<Rightarrow> u32) \<Rightarrow> package \<Rightarrow> u8 \<Rightarrow> u32 \<Rightarrow> 'h wiring \<times> 'd \<Rightarrow> ('h wiring \<times> 'd) option"
where
  "analogWrite M K P pin value s = (case s of (w, d) \<Rightarrow>
     (let tp = top_of (write_bits (wi_an w)) in
      if unat pin \<ge> PINS_COUNT then Some (w, d)
      else if pin_has_dac pin
      then (case dac_write M K P pin (dac_code tp (clamp_value tp value)) (wi_dac w, d) of
              (_, x, d1) \<Rightarrow> Some (w\<lparr>wi_dac := x\<rparr>, d1))
      else (case pwm_find (g_pwm_af_map P) (wi_tim w) pin of
          None \<Rightarrow> Some (w, d)
        | Some e \<Rightarrow>
            (case timer_claim (w_timer e) TIMER_PWM (wi_tim w) of (ok, t) \<Rightarrow>
               if \<not> ok then Some (w, d)
               else (let ti = unat (w_timer e); a = wi_an w; p = g_pins P ! unat pin;
                         dev = the (timer_dev K (w_timer e)); first = (pwm_chan_active a ! ti = 0) in
                 (case (if first
                        then (case timer_reset M K (w_timer e) (wi_refused w, timer_clock_enable M K (w_timer e) d) of
                                (n, d1) \<Rightarrow> map_option (Pair n) (pwm_configure_timebase M dev (pwm_hz a) tp d1))
                        else Some (wi_refused w, d)) of
                    None \<Rightarrow> None
                  | Some (n, d2) \<Rightarrow>
                      Some (w\<lparr>wi_tim := t, wi_refused := n,
                              wi_an := a\<lparr>pwm_chan_active := (pwm_chan_active a)[ti := pwm_chan_active a ! ti OR chan_bit (w_channel e)]\<rparr>\<rparr>,
                            do_all
                              [pin_af M K (p_port p) (p_bit p) (w_af e) CFG_AF_PP_50,
                               pwm_set_channel M dev (w_channel e) (ucast (clamp_value tp value)) (w_negated e),
                               (if w_timer e = 1 \<or> w_timer e = 8
                                then m_call M (Call ''TIM_CtrlPWMOutputs'' [Sym dev, Sym ''ENABLE'']) else (\<lambda>d. d)),
                               m_call M (Call ''TIM_Cmd'' [Sym dev, Sym ''ENABLE''])] d2)))))))"

definition analogWriteStop ::
  "'d machine \<Rightarrow> (string \<Rightarrow> u32) \<Rightarrow> package \<Rightarrow> u8 \<Rightarrow> 'h wiring \<times> 'd \<Rightarrow> 'h wiring \<times> 'd" where
  "analogWriteStop M K P pin s = (case s of (w, d) \<Rightarrow>
     if unat pin \<ge> PINS_COUNT then (w, d)
     else if pin_has_dac pin
     then (case dac_stop M pin (wi_dac w, d) of (x, d1) \<Rightarrow> (w\<lparr>wi_dac := x\<rparr>, d1))
     else (case pwm_find_active (g_pwm_af_map P) (wi_tim w) pin of
         None \<Rightarrow> (w, d)
       | Some e \<Rightarrow>
           if timer_owner (w_timer e) (wi_tim w) \<noteq> TIMER_PWM then (w, d)
           else (let ti = unat (w_timer e); a = wi_an w;
                     act = pwm_chan_active a ! ti AND NOT (chan_bit (w_channel e));
                     a1 = a\<lparr>pwm_chan_active := (pwm_chan_active a)[ti := act]\<rparr>;
                     d1 = pinMode M K P pin INPUT d in
             if act = 0
             then (w\<lparr>wi_an := a1, wi_tim := timer_release (w_timer e) TIMER_PWM (wi_tim w)\<rparr>,
                   m_call M (Call ''TIM_Cmd'' [Sym (the (timer_dev K (w_timer e))), Sym ''DISABLE'']) d1)
             else (w\<lparr>wi_an := a1\<rparr>, d1))))"

section \<open>Scaling\<close>

lemma unat_top_of:
  assumes "unat bits \<le> 16"
  shows "unat (top_of bits) = 2 ^ unat bits - 1"
proof -
  have l: "(2 :: nat) ^ unat bits \<le> 2 ^ 16" using assms by (intro power_increasing) auto
  have "top_of bits = word_of_nat (2 ^ unat bits - 1)"
    by (simp add: top_of_def push_bit_eq_mult of_nat_diff)
  then show ?thesis
    using l by (simp only: unsigned_of_nat of_nat_id) (simp add: take_bit_nat_eq_self)
qed

lemma unat_mult_u32: "unat (a :: u32) * unat b < 4294967296 \<Longrightarrow> unat (a * b) = unat a * unat b"
  by (simp add: unat_word_ariths)

lemma nearest_div:
  fixes a n :: nat
  assumes "0 < n"
  shows "2 * ((a + n div 2) div n * n) \<le> 2 * a + n" "2 * a \<le> 2 * ((a + n div 2) div n * n) + n"
proof -
  let ?q = "(a + n div 2) div n"
  have "?q * n \<le> a + n div 2" by simp
  then show "2 * (?q * n) \<le> 2 * a + n" by linarith
  have "a + n div 2 = ?q * n + (a + n div 2) mod n" by simp
  moreover have "(a + n div 2) mod n < n" using assms by simp
  ultimately have "a + n div 2 < ?q * n + n" by linarith
  then show "2 * a \<le> 2 * (?q * n) + n" by linarith
qed

lemma clamp_le: "clamp_value tp v \<le> tp"
  by (auto simp: clamp_value_def not_less)

lemma unat_dac_code:
  assumes "1 \<le> unat bits" "unat bits \<le> 16" "v \<le> top_of bits"
  shows "unat (dac_code (top_of bits) v) =
    (unat v * 4095 + (2 ^ unat bits - 1) div 2) div (2 ^ unat bits - 1)"
proof -
  let ?N = "2 ^ unat bits - 1 :: nat"
  have N: "unat (top_of bits) = ?N" by (rule unat_top_of [OF assms(2)])
  have "(2 :: nat) ^ unat bits \<le> 2 ^ 16" "(2 :: nat) ^ 1 \<le> 2 ^ unat bits"
    using assms(1,2) by (intro power_increasing; simp)+
  then have n: "?N \<le> 65535" "1 \<le> ?N" by simp_all
  have v: "unat v \<le> ?N" using assms(3) N by (simp add: word_le_nat_alt)
  have m: "unat (v * 4095) = unat v * 4095" by (subst unat_mult_u32) (use v n in simp_all)
  have h: "unat (top_of bits div 2) = ?N div 2" by (simp add: unat_div N)
  have s: "unat (v * 4095 + top_of bits div 2) = unat v * 4095 + ?N div 2"
    by (subst unat_add_u32) (use v n m h in simp_all)
  have q: "unat ((v * 4095 + top_of bits div 2) div top_of bits) = (unat v * 4095 + ?N div 2) div ?N"
    by (simp only: unat_div s N)
  have "(unat v * 4095 + ?N div 2) div ?N \<le> (?N * 4095 + ?N div 2) div ?N"
    using v by (intro div_le_mono) simp
  also have "\<dots> = 4095" using n(2) by simp
  finally have le: "(unat v * 4095 + ?N div 2) div ?N \<le> 4095" .
  show ?thesis unfolding dac_code_def
    using le by (simp only: unsigned_ucast_eq q) (simp add: take_bit_nat_eq_self)
qed

lemma unat_scale_reading:
  assumes "1 \<le> unat bits" "unat bits \<le> 16" "unat raw \<le> 4095"
  shows "unat (scale_reading bits raw) =
    (if unat bits \<ge> 12 then unat raw * 2 ^ (unat bits - 12) else unat raw div 2 ^ (12 - unat bits))"
proof (cases "unat bits \<ge> 12")
  case True
  have "(2 :: nat) ^ (unat bits - 12) \<le> 2 ^ 4" using assms(2) by (intro power_increasing) auto
  then have l: "unat raw * 2 ^ (unat bits - 12) < 4294967296"
    using mult_le_mono [OF assms(3), of "2 ^ (unat bits - 12)" 16] by simp
  have "scale_reading bits raw = word_of_nat (unat raw * 2 ^ (unat bits - 12))"
    using True by (simp add: scale_reading_def word_le_nat_alt push_bit_eq_mult)
  then show ?thesis using True l
    by (simp only: unsigned_of_nat of_nat_id) (simp add: take_bit_nat_eq_self)
next
  case False
  then have "scale_reading bits raw = drop_bit (12 - unat bits) raw"
    by (simp add: scale_reading_def word_le_nat_alt)
  then have "unat (scale_reading bits raw) = drop_bit (12 - unat bits) (unat raw)"
    by (simp only: unat_drop_bit_eq)
  then show ?thesis using False by (simp add: drop_bit_eq_div)
qed

text \<open>
  C38. Scaling at every resolution from 1 to 16 bits.  \<open>analogWrite\<close>'s argument is
  clamped to the resolution's range; on a DAC pin the code is the nearest to the
  proportional one, within half a step, never above 4095, and 0 and full scale map to 0 and
  4095; no intermediate product overflows.  \<open>analogRead\<close> returns the 12-bit reading as
  the same fraction of the resolution asked for, rounded down.
\<close>

theorem analog_scaling:
  assumes "1 \<le> unat bits" "unat bits \<le> 16" "unat raw \<le> 4095"
    and "V = unat (clamp_value (top_of bits) v)"
    and "D = unat (dac_code (top_of bits) (clamp_value (top_of bits) v))"
  shows "V = (if sint v < 0 then 0 else min (unat v) (2 ^ unat bits - 1)) \<and>
    D \<le> 4095 \<and>
    2 * (D * (2 ^ unat bits - 1)) \<le> 2 * (V * 4095) + (2 ^ unat bits - 1) \<and>
    2 * (V * 4095) \<le> 2 * (D * (2 ^ unat bits - 1)) + (2 ^ unat bits - 1) \<and>
    (V = 0 \<longrightarrow> D = 0) \<and> (V = 2 ^ unat bits - 1 \<longrightarrow> D = 4095) \<and>
    unat (scale_reading bits raw) = unat raw * 2 ^ unat bits div 4096"
proof -
  let ?N = "2 ^ unat bits - 1 :: nat"
  have N: "unat (top_of bits) = ?N" by (rule unat_top_of [OF assms(2)])
  have "(2 :: nat) ^ 1 \<le> 2 ^ unat bits" using assms(1) by (intro power_increasing) auto
  then have n: "0 < ?N" by simp
  have D: "D = (V * 4095 + ?N div 2) div ?N"
    using unat_dac_code [OF assms(1,2) clamp_le] assms(4,5) by simp
  have V: "V = (if sint v < 0 then 0 else min (unat v) ?N)"
    by (auto simp: assms(4) clamp_value_def N word_less_nat_alt min_def)
  then have "V \<le> ?N" by simp
  then have "D \<le> (?N * 4095 + ?N div 2) div ?N" unfolding D by (intro div_le_mono) simp
  also have full: "(?N * 4095 + ?N div 2) div ?N = 4095" using n by simp
  finally have le: "D \<le> 4095" .
  have z: "V = 0 \<longrightarrow> D = 0" using n by (simp add: D)
  have f: "V = ?N \<longrightarrow> D = 4095" using full by (simp add: D)
  have r: "unat (scale_reading bits raw) = unat raw * 2 ^ unat bits div 4096"
  proof (cases "unat bits \<ge> 12")
    case True
    then have "(2 :: nat) ^ unat bits = 2 ^ 12 * 2 ^ (unat bits - 12)"
      by (simp only: power_add [symmetric] le_add_diff_inverse)
    then show ?thesis using True by (simp add: unat_scale_reading [OF assms(1-3)])
  next
    case False
    then have "(2 :: nat) ^ 12 = 2 ^ (12 - unat bits) * 2 ^ unat bits"
      by (simp only: power_add [symmetric] le_add_diff_inverse2 not_le less_imp_le)
    then have e: "(4096 :: nat) = 2 ^ (12 - unat bits) * 2 ^ unat bits" by simp
    have "unat raw * 2 ^ unat bits div (2 ^ (12 - unat bits) * 2 ^ unat bits) = unat raw div 2 ^ (12 - unat bits)"
      by simp
    then have "unat raw * 2 ^ unat bits div 4096 = unat raw div 2 ^ (12 - unat bits)" by (simp only: e)
    then show ?thesis using False by (simp only: unat_scale_reading [OF assms(1-3)] if_False)
  qed
  show ?thesis
    using V le nearest_div [OF n, of "V * 4095", folded D] z f r by blast
qed

theorem analog_scaling_witness:
  "unat (dac_code (top_of 8) (clamp_value (top_of 8) 128)) = 2056 \<and>
   unat (scale_reading 10 4095) = 1023 \<and> unat (clamp_value (top_of 8) 300) = 255"
proof -
  have "unat (scale_reading 10 4095) = unat (4095 :: u32) * 2 ^ unat (10 :: u8) div 4096"
    using analog_scaling [of 10 4095 _ 0, OF _ _ _ refl refl] by simp
  moreover have "unat (clamp_value (top_of 8) 300) = 255"
    using analog_scaling [of 8 0 _ 300, OF _ _ _ refl refl, THEN conjunct1] by simp
  moreover have "unat (dac_code (top_of 8) (clamp_value (top_of 8) 128)) = 2056" by code_simp
  ultimately show ?thesis by simp
qed

section \<open>PWM channels and their timers\<close>

text \<open>Calls of the wiring layer, and claims and releases by other subsystems in between.\<close>

datatype wiring_op =
    WriteOp u8 u32
  | StopOp u8
  | FreqOp u32
  | ResOp int
  | ClaimOp u8 u8
  | ReleaseOp u8 u8

fun wiring_step ::
  "'d machine \<Rightarrow> (string \<Rightarrow> u32) \<Rightarrow> package \<Rightarrow> wiring_op \<Rightarrow> 'h wiring \<times> 'd \<Rightarrow> ('h wiring \<times> 'd) option"
where
  "wiring_step M K P (WriteOp pin v) s = analogWrite M K P pin v s"
| "wiring_step M K P (StopOp pin) s = Some (analogWriteStop M K P pin s)"
| "wiring_step M K P (FreqOp hz) (w, d) = Some (w\<lparr>wi_an := analogWriteFrequency hz (wi_an w)\<rparr>, d)"
| "wiring_step M K P (ResOp bits) (w, d) = Some (w\<lparr>wi_an := analogWriteResolution bits (wi_an w)\<rparr>, d)"
| "wiring_step M K P (ClaimOp i ow) (w, d) = Some (w\<lparr>wi_tim := snd (timer_claim i ow (wi_tim w))\<rparr>, d)"
| "wiring_step M K P (ReleaseOp i ow) (w, d) = Some (w\<lparr>wi_tim := timer_release i ow (wi_tim w)\<rparr>, d)"

fun wiring_run ::
  "'d machine \<Rightarrow> (string \<Rightarrow> u32) \<Rightarrow> package \<Rightarrow> wiring_op list \<Rightarrow> 'h wiring \<times> 'd \<Rightarrow> ('h wiring \<times> 'd) option"
where
  "wiring_run M K P [] s = Some s"
| "wiring_run M K P (op # ops) s = Option.bind (wiring_step M K P op s) (wiring_run M K P ops)"

text \<open>Other subsystems use their own owner names; frequencies below 65536 Hz.\<close>

fun wiring_op_ok :: "wiring_op \<Rightarrow> bool" where
  "wiring_op_ok (FreqOp hz) \<longleftrightarrow> hz < 65536"
| "wiring_op_ok (ClaimOp i ow) \<longleftrightarrow> ow \<noteq> TIMER_PWM"
| "wiring_op_ok (ReleaseOp i ow) \<longleftrightarrow> ow \<noteq> TIMER_PWM"
| "wiring_op_ok _ \<longleftrightarrow> True"

text \<open>A timer is held for PWM exactly while one of its channels is active.\<close>

definition pwm_consistent :: "'h wiring \<Rightarrow> bool" where
  "pwm_consistent w \<longleftrightarrow>
     (\<forall>i. timer_valid i \<longrightarrow>
        (timer_owner i (wi_tim w) = TIMER_PWM \<longleftrightarrow> pwm_chan_active (wi_an w) ! unat i \<noteq> 0))"

definition wiring_wf :: "'h wiring \<Rightarrow> bool" where
  "wiring_wf w \<longleftrightarrow> timers_wf (wi_tim w) \<and> size (pwm_chan_active (wi_an w)) = 13 \<and>
     1 \<le> unat (write_bits (wi_an w)) \<and> unat (write_bits (wi_an w)) \<le> 16 \<and>
     1 \<le> unat (pwm_hz (wi_an w)) \<and> unat (pwm_hz (wi_an w)) \<le> 65535"

definition wiring_init :: "'h wiring" where
  "wiring_init = \<lparr>wi_an = analog_zero, wi_dac = dac_zero, wi_tim = timers_init, wi_refused = 0\<rparr>"

lemma wiring_init_ok: "wiring_wf wiring_init" "pwm_consistent wiring_init"
proof -
  show "wiring_wf (wiring_init :: 'a wiring)"
    by (simp add: wiring_wf_def wiring_init_def analog_zero_def timers_init_wf)
  show "pwm_consistent (wiring_init :: 'b wiring)"
    by (auto simp: pwm_consistent_def wiring_init_def analog_zero_def timers_init_def timer_owner_def
        timer_valid_iff TIMER_PWM_def TIMER_FREE_def nth_Cons' nth_replicate)
qed

text \<open>The two ways the bits and the owner of one timer change together.\<close>

lemma pwm_consistent_update:
  assumes "pwm_consistent w" "timers_wf (wi_tim w)" "size (pwm_chan_active (wi_an w)) = 13" "timer_valid i"
    and "\<forall>j. timer_owner j t = (if j = i then ow else timer_owner j (wi_tim w))"
    and "ow = TIMER_PWM \<longleftrightarrow> m \<noteq> 0"
    and "pwm_chan_active (wi_an w') = (pwm_chan_active (wi_an w))[unat i := m]" "wi_tim w' = t"
  shows "pwm_consistent w'"
  using assms by (auto simp: pwm_consistent_def timer_valid_iff nth_list_update word_unat_eq_iff)

lemma or_nonzero: "b \<noteq> 0 \<Longrightarrow> a OR b \<noteq> (0 :: u8)"
  by (simp add: or_eq_0_iff)

lemma chan_bit_nonzero: "1 \<le> ch \<Longrightarrow> ch \<le> 4 \<Longrightarrow> chan_bit ch \<noteq> 0"
proof -
  assume a: "1 \<le> ch" "ch \<le> 4"
  then have "unat (ch - 1) < 8" by (subst unat_sub_le) (auto simp: word_le_nat_alt)
  then have "bit (chan_bit ch) (unat (ch - 1))" by (simp add: chan_bit_def bit_simps)
  then show ?thesis by (metis bit_0_eq bot_apply bot_bool_def)
qed

lemma pwm_prescaler_some:
  assumes "unat bits \<le> 16" "1 \<le> unat hz" "unat hz \<le> 65535"
  shows "\<exists>p. pwm_prescaler clock hz (top_of bits) = Some p"
proof -
  have l: "(2 :: nat) ^ unat bits \<le> 2 ^ 16" using assms(1) by (intro power_increasing) auto
  have t: "unat (top_of bits + 1) = 2 ^ unat bits"
    by (subst unat_add_u32) (use l in \<open>simp_all add: unat_top_of [OF assms(1)]\<close>)
  have "unat hz * 2 ^ unat bits \<le> 65535 * 2 ^ 16" by (intro mult_le_mono assms(3) l)
  then have "unat (hz * (top_of bits + 1)) = unat hz * 2 ^ unat bits"
    by (subst unat_mult_u32) (simp_all add: t)
  then have "hz * (top_of bits + 1) \<noteq> 0" using assms(2) by (auto simp: u32_eq_iff)
  then show ?thesis by (simp add: pwm_prescaler_def Let_def)
qed

text \<open>What one \<open>analogWrite\<close> does to the registry: nothing, or one channel of one timer.\<close>

lemma analogWrite_effect:
  assumes "wiring_wf w" "list_all (pwm_row_ok P) (g_pwm_af_map P)"
  obtains w' d' where "analogWrite M K P pin v (w, d) = Some (w', d')"
    "write_bits (wi_an w') = write_bits (wi_an w)" "pwm_hz (wi_an w') = pwm_hz (wi_an w)"
    "wi_tim w' = wi_tim w \<and> pwm_chan_active (wi_an w') = pwm_chan_active (wi_an w) \<or>
     (\<exists>e \<in> set (g_pwm_af_map P). timer_claim (w_timer e) TIMER_PWM (wi_tim w) = (True, wi_tim w') \<and>
        pwm_chan_active (wi_an w') =
          (pwm_chan_active (wi_an w))[unat (w_timer e) := pwm_chan_active (wi_an w) ! unat (w_timer e) OR chan_bit (w_channel e)])"
proof -
  have z: "\<exists>p. pwm_prescaler clk (pwm_hz (wi_an w)) (top_of (write_bits (wi_an w))) = Some p" for clk
    by (rule pwm_prescaler_some) (use assms(1) in \<open>auto simp: wiring_wf_def\<close>)
  have tb: "\<exists>d''. pwm_configure_timebase M dev (pwm_hz (wi_an w)) (top_of (write_bits (wi_an w))) d' = Some d''" for dev d'
    using z [of "fst (hclk M d')"] by (auto simp: pwm_configure_timebase_def split_beta)
  consider "unat pin \<ge> PINS_COUNT" | "unat pin < PINS_COUNT" "pin_has_dac pin"
    | e where "unat pin < PINS_COUNT" "\<not> pin_has_dac pin" "pwm_find (g_pwm_af_map P) (wi_tim w) pin = Some e"
    | "unat pin < PINS_COUNT" "\<not> pin_has_dac pin" "pwm_find (g_pwm_af_map P) (wi_tim w) pin = None"
    by (cases "unat pin \<ge> PINS_COUNT"; cases "pin_has_dac pin"; fastforce)
  then show ?thesis
  proof cases
    case 3
    have e: "e \<in> set (g_pwm_af_map P)" by (rule pwm_find_Some(1) [OF 3(3)])
    obtain ok t where t: "timer_claim (w_timer e) TIMER_PWM (wi_tim w) = (ok, t)" by fastforce
    let ?ti = "unat (w_timer e)"
    let ?A = "\<lambda>w'. write_bits (wi_an w') = write_bits (wi_an w) \<and> pwm_hz (wi_an w') = pwm_hz (wi_an w) \<and> wi_tim w' = t \<and>
      (if ok then pwm_chan_active (wi_an w') =
          (pwm_chan_active (wi_an w))[?ti := pwm_chan_active (wi_an w) ! ?ti OR chan_bit (w_channel e)]
       else pwm_chan_active (wi_an w') = pwm_chan_active (wi_an w))"
    have same: "t = wi_tim w" if "\<not> ok"
      using t that by (auto simp: timer_claim_def split: if_splits)
    have "\<exists>w' d'. analogWrite M K P pin v (w, d) = Some (w', d') \<and> ?A w'"
    proof (cases "ok \<and> pwm_chan_active (wi_an w) ! ?ti = 0")
      case True
      obtain n d1 where r: "timer_reset M K (w_timer e) (wi_refused w, timer_clock_enable M K (w_timer e) d) = (n, d1)"
        by fastforce
      obtain d2 where "pwm_configure_timebase M (the (timer_dev K (w_timer e))) (pwm_hz (wi_an w))
          (top_of (write_bits (wi_an w))) d1 = Some d2"
        using tb by blast
      then show ?thesis using True 3 t r by (simp add: analogWrite_def Let_def)
    next
      case False
      then show ?thesis using 3 t same by (cases ok) (simp_all add: analogWrite_def Let_def)
    qed
    then obtain w' d' where o: "analogWrite M K P pin v (w, d) = Some (w', d')" "?A w'" by blast
    show ?thesis
      by (rule that [OF o(1)]) (use o(2) t same e in \<open>auto split: if_splits\<close>)
  next
    case 2
    have "\<exists>x d'. analogWrite M K P pin v (w, d) = Some (w\<lparr>wi_dac := x\<rparr>, d')"
      using 2 by (auto simp: analogWrite_def Let_def split_beta)
    then obtain x d' where "analogWrite M K P pin v (w, d) = Some (w\<lparr>wi_dac := x\<rparr>, d')" by blast
    then show ?thesis by (rule that) simp_all
  qed (use that in \<open>auto simp: analogWrite_def Let_def\<close>)
qed

lemma analogWriteStop_effect:
  obtains w' d' where "analogWriteStop M K P pin (w, d) = (w', d')"
    "write_bits (wi_an w') = write_bits (wi_an w)" "pwm_hz (wi_an w') = pwm_hz (wi_an w)"
    "wi_tim w' = wi_tim w \<and> pwm_chan_active (wi_an w') = pwm_chan_active (wi_an w) \<or>
     (\<exists>e \<in> set (g_pwm_af_map P). \<exists>m. timer_owner (w_timer e) (wi_tim w) = TIMER_PWM \<and>
        wi_tim w' = (if m = 0 then timer_release (w_timer e) TIMER_PWM (wi_tim w) else wi_tim w) \<and>
        pwm_chan_active (wi_an w') = (pwm_chan_active (wi_an w))[unat (w_timer e) := m])"
proof -
  have act: "e \<in> set tab" if "pwm_find_active tab t pin = Some e" for tab t e
    using that by (induction tab) (auto split: if_splits)
  consider "unat pin \<ge> PINS_COUNT" | "unat pin < PINS_COUNT" "pin_has_dac pin"
    | e where "unat pin < PINS_COUNT" "\<not> pin_has_dac pin" "pwm_find_active (g_pwm_af_map P) (wi_tim w) pin = Some e"
    | "unat pin < PINS_COUNT" "\<not> pin_has_dac pin" "pwm_find_active (g_pwm_af_map P) (wi_tim w) pin = None"
    by (cases "unat pin \<ge> PINS_COUNT"; cases "pin_has_dac pin"; fastforce)
  then show ?thesis
  proof cases
    case 3
    let ?m = "pwm_chan_active (wi_an w) ! unat (w_timer e) AND NOT (chan_bit (w_channel e))"
    show ?thesis
      by (rule that [OF prod.collapse [symmetric]])
         (use 3 act in \<open>auto simp: analogWriteStop_def Let_def intro!: bexI [of _ e] exI [of _ ?m]\<close>)
  next
    case 2
    show ?thesis
      by (rule that [OF prod.collapse [symmetric]]) (use 2 in \<open>auto simp: analogWriteStop_def split_beta\<close>)
  qed (use that in \<open>auto simp: analogWriteStop_def Let_def\<close>)
qed

lemma timer_release_owner:
  assumes "timers_wf t" "timer_valid i" "timer_owner i t = ow"
  shows "timer_owner j (timer_release i ow t) = (if j = i then TIMER_FREE else timer_owner j t)"
  using assms by (auto simp: timer_release_def timer_owner_update) (simp add: timer_owner_def)

lemma timer_claim_owner:
  assumes "timers_wf t" "timer_claim i ow t = (True, t')"
  shows "timer_owner j t' = (if j = i then ow else timer_owner j t)" "timers_wf t'"
proof -
  have v: "timer_valid i" using assms(2) by (auto simp: timer_claim_def split: if_splits)
  have "t' = t\<lparr>t_owner := (t_owner t)[unat i := ow]\<rparr>"
    using assms(2) by (auto simp: timer_claim_def split: if_splits)
  then show "timer_owner j t' = (if j = i then ow else timer_owner j t)"
    by (simp only: timer_owner_update [OF assms(1) v])
  show "timers_wf t'" using timers.claim_inv [OF assms(1), of i ow] assms(2) by simp
qed

text \<open>One step keeps the invariants and what other subsystems hold.\<close>

definition others_keep :: "wiring_op list \<Rightarrow> 'h timers \<Rightarrow> 'h timers \<Rightarrow> bool" where
  "others_keep ops t t' \<longleftrightarrow>
     (\<forall>i ow. timer_owner i t = ow \<and> ow \<noteq> TIMER_FREE \<and> ow \<noteq> TIMER_PWM \<and> ReleaseOp i ow \<notin> set ops \<longrightarrow>
        timer_owner i t' = ow)"

definition step_keeps :: "wiring_op \<Rightarrow> 'h wiring \<Rightarrow> 'h wiring \<Rightarrow> bool" where
  "step_keeps op w w' \<longleftrightarrow> wiring_wf w' \<and> pwm_consistent w' \<and> others_keep [op] (wi_tim w) (wi_tim w')"

lemma step_keeps_same:
  assumes "wiring_wf w" "pwm_consistent w" "wi_tim w' = wi_tim w"
    and "pwm_chan_active (wi_an w') = pwm_chan_active (wi_an w)"
    and "1 \<le> unat (write_bits (wi_an w'))" "unat (write_bits (wi_an w')) \<le> 16"
    and "1 \<le> unat (pwm_hz (wi_an w'))" "unat (pwm_hz (wi_an w')) \<le> 65535"
  shows "step_keeps op w w'"
  using assms by (simp add: step_keeps_def wiring_wf_def pwm_consistent_def others_keep_def)

lemma step_keeps_timer:
  assumes "wiring_wf w" "pwm_consistent w" "timer_valid i" "timers_wf (wi_tim w')"
    and "\<forall>j. timer_owner j (wi_tim w') = (if j = i then ow else timer_owner j (wi_tim w))"
    and "ow = TIMER_PWM \<longleftrightarrow> m \<noteq> 0"
    and "pwm_chan_active (wi_an w') = (pwm_chan_active (wi_an w))[unat i := m]"
    and "write_bits (wi_an w') = write_bits (wi_an w)" "pwm_hz (wi_an w') = pwm_hz (wi_an w)"
    and "timer_owner i (wi_tim w) = TIMER_FREE \<or> timer_owner i (wi_tim w) = TIMER_PWM \<or>
      timer_owner i (wi_tim w) = ow \<or> op = ReleaseOp i (timer_owner i (wi_tim w))"
  shows "step_keeps op w w'"
proof -
  have l: "size (pwm_chan_active (wi_an w)) = 13" "timers_wf (wi_tim w)"
    using assms(1) by (simp_all add: wiring_wf_def)
  have "pwm_consistent w'"
    by (rule pwm_consistent_update [OF assms(2) l(2,1) assms(3,5-7)]) simp
  moreover have "others_keep [op] (wi_tim w) (wi_tim w')"
    using assms(5,10) by (auto simp: others_keep_def)
  ultimately show ?thesis using assms(1,4,7-9) by (simp add: step_keeps_def wiring_wf_def)
qed

lemma wiring_step_keeps:
  assumes "wiring_wf w" "pwm_consistent w" "list_all (pwm_row_ok P) (g_pwm_af_map P)" "wiring_op_ok op"
  shows "\<exists>w' d'. wiring_step M K P op (w, d) = Some (w', d') \<and> step_keeps op w w'"
proof -
  have l: "size (pwm_chan_active (wi_an w)) = 13" "timers_wf (wi_tim w)"
    "1 \<le> unat (write_bits (wi_an w))" "unat (write_bits (wi_an w)) \<le> 16"
    "1 \<le> unat (pwm_hz (wi_an w))" "unat (pwm_hz (wi_an w)) \<le> 65535"
    using assms(1) by (simp_all add: wiring_wf_def)
  have row: "timer_valid (w_timer e)" "chan_bit (w_channel e) \<noteq> 0" if "e \<in> set (g_pwm_af_map P)" for e
    using assms(3) that chan_bit_nonzero by (auto simp: list_all_iff pwm_row_ok_def)
  have ne: "TIMER_PWM \<noteq> TIMER_FREE" by (simp add: TIMER_PWM_def TIMER_FREE_def)
  show ?thesis
  proof (cases op)
    case (WriteOp pin v)
    obtain w' d' where o: "analogWrite M K P pin v (w, d) = Some (w', d')"
      "write_bits (wi_an w') = write_bits (wi_an w)" "pwm_hz (wi_an w') = pwm_hz (wi_an w)"
      and c: "wi_tim w' = wi_tim w \<and> pwm_chan_active (wi_an w') = pwm_chan_active (wi_an w) \<or>
       (\<exists>e \<in> set (g_pwm_af_map P). timer_claim (w_timer e) TIMER_PWM (wi_tim w) = (True, wi_tim w') \<and>
        pwm_chan_active (wi_an w') =
          (pwm_chan_active (wi_an w))[unat (w_timer e) := pwm_chan_active (wi_an w) ! unat (w_timer e) OR chan_bit (w_channel e)])"
      by (rule analogWrite_effect [OF assms(1,3)])
    from c have "step_keeps op w w'"
    proof (elim disjE bexE conjE)
      assume "wi_tim w' = wi_tim w" "pwm_chan_active (wi_an w') = pwm_chan_active (wi_an w)"
      then show ?thesis using step_keeps_same [OF assms(1,2)] l o by simp
    next
      fix e assume e: "e \<in> set (g_pwm_af_map P)" "timer_claim (w_timer e) TIMER_PWM (wi_tim w) = (True, wi_tim w')"
        "pwm_chan_active (wi_an w') =
          (pwm_chan_active (wi_an w))[unat (w_timer e) := pwm_chan_active (wi_an w) ! unat (w_timer e) OR chan_bit (w_channel e)]"
      note tc = timer_claim_owner [OF l(2) e(2)]
      have "timer_owner (w_timer e) (wi_tim w) = TIMER_FREE \<or> timer_owner (w_timer e) (wi_tim w) = TIMER_PWM"
        using e(2) row(1) [OF e(1)] by (auto simp: timer_claim_def timer_owner_def split: if_splits)
      then show ?thesis
        using step_keeps_timer [OF assms(1,2) row(1) [OF e(1)] tc(2) _ _ e(3) o(2,3)] tc(1)
          or_nonzero [OF row(2) [OF e(1)]] by blast
    qed
    then show ?thesis using o(1) WriteOp by auto
  next
    case (StopOp pin)
    obtain w' d' where o: "analogWriteStop M K P pin (w, d) = (w', d')"
      "write_bits (wi_an w') = write_bits (wi_an w)" "pwm_hz (wi_an w') = pwm_hz (wi_an w)"
      and c: "wi_tim w' = wi_tim w \<and> pwm_chan_active (wi_an w') = pwm_chan_active (wi_an w) \<or>
       (\<exists>e \<in> set (g_pwm_af_map P). \<exists>m. timer_owner (w_timer e) (wi_tim w) = TIMER_PWM \<and>
          wi_tim w' = (if m = 0 then timer_release (w_timer e) TIMER_PWM (wi_tim w) else wi_tim w) \<and>
          pwm_chan_active (wi_an w') = (pwm_chan_active (wi_an w))[unat (w_timer e) := m])"
      by (rule analogWriteStop_effect)
    from c have "step_keeps op w w'"
    proof (elim disjE bexE exE conjE)
      assume "wi_tim w' = wi_tim w" "pwm_chan_active (wi_an w') = pwm_chan_active (wi_an w)"
      then show ?thesis using step_keeps_same [OF assms(1,2)] l o by simp
    next
      fix e m assume e: "e \<in> set (g_pwm_af_map P)" "timer_owner (w_timer e) (wi_tim w) = TIMER_PWM"
        "wi_tim w' = (if m = 0 then timer_release (w_timer e) TIMER_PWM (wi_tim w) else wi_tim w)"
        "pwm_chan_active (wi_an w') = (pwm_chan_active (wi_an w))[unat (w_timer e) := m]"
      note v = row(1) [OF e(1)]
      have "timers_wf (wi_tim w')" using timers.release_inv [OF l(2)] l(2) e(3) by simp
      then show ?thesis
        using step_keeps_timer [OF assms(1,2) v _ _ _ e(4) o(2,3), of "if m = 0 then TIMER_FREE else TIMER_PWM"]
          timer_release_owner [OF l(2) v e(2)] e(2,3) ne by (cases "m = 0") auto
    qed
    then show ?thesis using o(1) StopOp by auto
  next
    case (FreqOp hz)
    have "1 \<le> unat hz" if "0 < hz" using that by (simp add: word_less_nat_alt)
    moreover have "unat hz \<le> 65535" using assms(4) FreqOp by (simp add: word_less_nat_alt)
    ultimately show ?thesis
      using step_keeps_same [OF assms(1,2)] l FreqOp by (simp add: analogWriteFrequency_def)
  next
    case (ResOp bits)
    have r: "unat (word_of_int bits :: u8) = nat bits" if "1 \<le> bits" "bits \<le> 16"
      using that by (simp add: unsigned_of_int take_bit_int_eq_self)
    have "step_keeps op w (w\<lparr>wi_an := analogWriteResolution bits (wi_an w)\<rparr>)"
      by (rule step_keeps_same [OF assms(1,2)])
         (use l r in \<open>auto simp: analogWriteResolution_def nat_le_iff le_nat_iff\<close>)
    then show ?thesis using ResOp by simp
  next
    case (ClaimOp i ow)
    obtain ok t where t: "timer_claim i ow (wi_tim w) = (ok, t)" by fastforce
    let ?w = "w\<lparr>wi_tim := t\<rparr>"
    have "step_keeps op w ?w"
    proof (cases ok)
      case False
      then have "t = wi_tim w" using t by (auto simp: timer_claim_def split: if_splits)
      then show ?thesis using step_keeps_same [OF assms(1,2)] l by simp
    next
      case True
      then have t1: "timer_claim i ow (wi_tim w) = (True, t)" using t by simp
      note tc = timer_claim_owner [OF l(2) t1]
      have v: "timer_valid i" and f: "timer_owner i (wi_tim w) = TIMER_FREE \<or> timer_owner i (wi_tim w) = ow"
        using t True by (auto simp: timer_claim_def timer_owner_def split: if_splits)
      have p: "ow \<noteq> TIMER_PWM" using assms(4) ClaimOp by simp
      then have z: "pwm_chan_active (wi_an w) ! unat i = 0"
        using assms(2) v f ne by (auto simp: pwm_consistent_def)
      show ?thesis
        by (rule step_keeps_timer [OF assms(1,2) v, where ow = ow and m = 0])
           (use tc p f z list_update_id [of "pwm_chan_active (wi_an w)" "unat i"] in auto)
    qed
    then show ?thesis using t ClaimOp by simp
  next
    case (ReleaseOp i ow)
    let ?w = "w\<lparr>wi_tim := timer_release i ow (wi_tim w)\<rparr>"
    have "step_keeps op w ?w"
    proof (cases "timer_valid i \<and> timer_owner i (wi_tim w) = ow")
      case False
      then have "timer_release i ow (wi_tim w) = wi_tim w" by (auto simp: timer_release_def timer_owner_def)
      then show ?thesis using step_keeps_same [OF assms(1,2)] l by simp
    next
      case True
      then have v: "timer_valid i" and f: "timer_owner i (wi_tim w) = ow" by auto
      have p: "ow \<noteq> TIMER_PWM" using assms(4) ReleaseOp by simp
      then have z: "pwm_chan_active (wi_an w) ! unat i = 0"
        using assms(2) v f by (auto simp: pwm_consistent_def)
      show ?thesis
        by (rule step_keeps_timer [OF assms(1,2) v, where ow = TIMER_FREE and m = 0])
           (use timer_release_owner [OF l(2) v f] timers.release_inv [OF l(2)] ReleaseOp f ne z
              list_update_id [of "pwm_chan_active (wi_an w)" "unat i"] in auto)
    qed
    then show ?thesis using ReleaseOp by simp
  qed
qed

text \<open>Any sequence of steps.\<close>

lemma wiring_run_keeps:
  assumes "list_all (pwm_row_ok P) (g_pwm_af_map P)" "list_all wiring_op_ok ops"
    and "wiring_wf w" "pwm_consistent w"
  shows "\<exists>w' d'. wiring_run M K P ops (w, d) = Some (w', d') \<and> wiring_wf w' \<and> pwm_consistent w' \<and>
    others_keep ops (wi_tim w) (wi_tim w')"
  using assms(2-4)
proof (induction ops arbitrary: w d)
  case (Cons op ops)
  obtain w1 d1 where s: "wiring_step M K P op (w, d) = Some (w1, d1)" "step_keeps op w w1"
    using wiring_step_keeps [OF Cons.prems(2,3) assms(1)] Cons.prems(1) by fastforce
  then obtain w' d' where r: "wiring_run M K P ops (w1, d1) = Some (w', d')" "wiring_wf w'" "pwm_consistent w'"
    "others_keep ops (wi_tim w1) (wi_tim w')"
    using Cons.IH [of w1 d1] Cons.prems(1) by (auto simp: step_keeps_def)
  have "others_keep (op # ops) (wi_tim w) (wi_tim w')"
    using s(2) r(4) by (auto simp: others_keep_def step_keeps_def)
  then show ?case using s(1) r by auto
qed (auto simp: others_keep_def)

end
