(* ===== verification/FlashDevice.thy ===== *)
theory FlashDevice
  imports Flash
begin

text \<open>
  What the users of the flash driver rely on: an erase and a page program as changes of the
  bytes read through pointers, as an interface, and the driver's functions running on a
  controller with a flash array behind its registers as an instance of it.
\<close>

section \<open>Flash contents\<close>

type_synonym flash = "u32 \<Rightarrow> u8"

definition le_bytes :: "u32 \<Rightarrow> u8 list" where
  "le_bytes w = [ucast w, ucast (drop_bit 8 w), ucast (drop_bit 16 w), ucast (drop_bit 24 w)]"

definition touched :: "u32 \<Rightarrow> nat \<Rightarrow> flash \<Rightarrow> flash \<Rightarrow> bool" where
  "touched a n c c' \<longleftrightarrow> (\<forall>x. n \<le> unat (x - a) \<longrightarrow> c' x = c x)"

definition erased_byte :: "u32 \<Rightarrow> u8" where
  "erased_byte x = le_bytes FLASH_ERASED_WORD ! unat (x AND 3)"

datatype flash_op = EraseOp u32 | ProgramOp u32 "u8 list"

fun op_touches :: "flash_op \<Rightarrow> flash \<Rightarrow> flash \<Rightarrow> bool" where
  "op_touches (EraseOp a) c c' \<longleftrightarrow> touched a 8192 c c'"
| "op_touches (ProgramOp a bs) c c' \<longleftrightarrow> touched a (size bs) c c'"

fun op_done :: "flash_op \<Rightarrow> flash \<Rightarrow> flash \<Rightarrow> bool" where
  "op_done (EraseOp a) c c' \<longleftrightarrow> touched a 8192 c c' \<and>
     (\<forall>x. unat (x - a) < 8192 \<longrightarrow> c' x = erased_byte x)"
| "op_done (ProgramOp a bs) c c' \<longleftrightarrow> touched a (size bs) c c' \<and>
     (\<forall>i < size bs. c' (a + word_of_nat i) = bs ! i)"

section \<open>The driver's contract\<close>

locale flash_device =
  fixes er :: "u32 \<Rightarrow> 'd \<Rightarrow> (bool \<times> 'd) option"
    and wr :: "u32 \<Rightarrow> u8 list \<Rightarrow> 'd \<Rightarrow> (bool \<times> 'd) option"
    and cell :: "'d \<Rightarrow> flash"
  assumes er_range: "er a d = Some (ok, d') \<Longrightarrow> op_touches (EraseOp a) (cell d) (cell d')"
    and er_done: "er a d = Some (True, d') \<Longrightarrow> op_done (EraseOp a) (cell d) (cell d')"
    and wr_range: "size bs = 256 \<Longrightarrow> wr a bs d = Some (ok, d') \<Longrightarrow> op_touches (ProgramOp a bs) (cell d) (cell d')"
    and wr_done: "size bs = 256 \<Longrightarrow> wr a bs d = Some (True, d') \<Longrightarrow> op_done (ProgramOp a bs) (cell d) (cell d')"
begin

end

section \<open>The driver on a controller\<close>

text \<open>
  A machine with a flash array behind the controller's registers: stores to \<open>MEM32\<close> fill
  the page buffer, a start with \<open>PER\<close> set erases the addressed 8 KB page and a page-program
  start writes the buffer's 256 bytes.  It is never busy, and the other core is not running.
\<close>

record chip =
  ch_cells :: flash
  ch_buf :: flash
  ch_last :: u32
  ch_regs :: "reg \<Rightarrow> u32"

definition store4 :: "u32 \<Rightarrow> u32 \<Rightarrow> flash \<Rightarrow> flash" where
  "store4 a w b = (\<lambda>x. if unat (x - a) < 4 then le_bytes w ! unat (x - a) else b x)"

definition erase_cells :: "u32 \<Rightarrow> flash \<Rightarrow> flash" where
  "erase_cells a c = (\<lambda>x. if unat (x - a) < 8192 then erased_byte x else c x)"

definition program_cells :: "u32 \<Rightarrow> flash \<Rightarrow> flash \<Rightarrow> flash" where
  "program_cells a b c = (\<lambda>x. if unat (x - a) < 256 then b x else c x)"

fun chip_rd :: "reg \<Rightarrow> chip \<Rightarrow> u32 \<times> chip" where
  "chip_rd (MEM8 a) d = (ucast (ch_cells d a), d)"
| "chip_rd FLASH_CFGR0 d = (0x10000000, d)"
| "chip_rd FLASH_STATR d = (0, d)"
| "chip_rd FLASH_CTLR d = (ch_regs d FLASH_CTLR AND NOT (CR_STRT_Set OR CR_PG_STRT), d)"
| "chip_rd (PARK_LIVE c) d = (0, d)"
| "chip_rd r d = (ch_regs d r, d)"

definition chip_start :: "u32 \<Rightarrow> chip \<Rightarrow> flash" where
  "chip_start v d =
     (if bit v 6 \<and> bit v 1 then erase_cells (ch_regs d FLASH_ADDR) (ch_cells d)
      else if bit v 21 \<and> bit v 16
      then program_cells (ch_last d - ch_last d mod 256) (ch_buf d) (ch_cells d) else ch_cells d)"

fun chip_wr :: "reg \<Rightarrow> u32 \<Rightarrow> chip \<Rightarrow> chip" where
  "chip_wr (MEM32 a) w d = d\<lparr>ch_buf := store4 a w (ch_buf d), ch_last := a\<rparr>"
| "chip_wr FLASH_CTLR v d = d\<lparr>ch_regs := (ch_regs d)(FLASH_CTLR := v), ch_cells := chip_start v d\<rparr>"
| "chip_wr r v d = d\<lparr>ch_regs := (ch_regs d)(r := v)\<rparr>"

definition chip :: "chip machine" where
  "chip = \<lparr>m_rd = chip_rd, m_wr = chip_wr, m_millis = (\<lambda>d. (0, d)), m_call = (\<lambda>c d. d), m_ask = (\<lambda>c d. (0, d))\<rparr>"

lemma chip_sel [simp]: "m_rd chip = chip_rd" "m_wr chip = chip_wr"
  by (simp_all add: chip_def)

lemma chip_wait [simp]: "wait_bsy chip d = (True, d)" "wait_wr chip d = (True, d)"
proof -
  have e: "1000000 = Suc 999999" by simp
  have "wait_clear chip b 1000000 d = (True, d)" for b
    unfolding e wait_clear.simps by simp
  then show "wait_bsy chip d = (True, d)" "wait_wr chip d = (True, d)"
    by (simp_all add: wait_bsy_def wait_wr_def SPIN_LIMIT_def)
qed

lemma chip_and: "m_and chip FLASH_CTLR x d = d\<lparr>ch_regs := (ch_regs d)(FLASH_CTLR := ch_regs d FLASH_CTLR AND NOT (CR_STRT_Set OR CR_PG_STRT) AND x)\<rparr>"
  by (auto simp: m_and_def chip_start_def bit_and_iff bit_or_iff bit_not_u32 flash_bits and.assoc)

lemma chip_or:
  "m_or chip FLASH_CTLR x d = d\<lparr>ch_regs := (ch_regs d)(FLASH_CTLR := ch_regs d FLASH_CTLR AND NOT (CR_STRT_Set OR CR_PG_STRT) OR x),
     ch_cells := chip_start (ch_regs d FLASH_CTLR AND NOT (CR_STRT_Set OR CR_PG_STRT) OR x) d\<rparr>"
  by (simp add: m_or_def)

lemma chip_irq: "irq_mask chip d = (ch_regs d MSTATUS, d\<lparr>ch_regs := (ch_regs d)(MSTATUS := ch_regs d MSTATUS AND NOT 8)\<rparr>)"
  "ch_cells (irq_restore chip p d) = ch_cells d"
  by (simp_all add: irq_mask_def irq_restore_def m_or_def)

lemma chip_erase_page:
  "\<exists>d'. flash_ll_erase_page chip a d = (True, d') \<and> ch_cells d' = erase_cells a (ch_cells d)"
  by (simp add: flash_ll_erase_page_def chip_irq chip_and chip_or chip_start_def bit_or_iff bit_and_iff bit_not_u32 flash_bits)

lemma bit_u8_high: "8 \<le> n \<Longrightarrow> \<not> bit (x :: u8) n"
  by (auto dest: bit_imp_le_length)

lemma le_bytes_inverse:
  "le_bytes (ucast a OR push_bit 8 (ucast b) OR push_bit 16 (ucast c) OR push_bit 24 (ucast e)) = [a, b, c, e]"
  by (auto simp: le_bytes_def intro!: bit_word_eqI
      simp: bit_or_iff bit_push_bit_iff bit_unsigned_iff bit_drop_bit_eq bit_u8_high)

text \<open>Filling the buffer with the words of a list of bytes.\<close>

lemma store4_bytes:
  "store4 q (ucast a OR push_bit 8 (ucast b) OR push_bit 16 (ucast c) OR push_bit 24 (ucast e)) f =
     (\<lambda>x. if unat (x - q) < 4 then [a, b, c, e] ! unat (x - q) else f x)"
  unfolding store4_def le_bytes_inverse by (rule refl)

lemma chip_words:
  assumes "size bs = 4 * n" "4 * (i + n) \<le> 256"
  shows "\<exists>d'. prog_words chip a i (words_of bs) d = (True, d') \<and> ch_cells d' = ch_cells d \<and> ch_regs d' = ch_regs d \<and>
    (0 < n \<longrightarrow> ch_last d' = a + word_of_nat (i + n - 1) * 4) \<and>
    ch_buf d' = (\<lambda>x. if unat (x - (a + word_of_nat i * 4)) < size bs then bs ! unat (x - (a + word_of_nat i * 4)) else ch_buf d x)"
  using assms
proof (induction n arbitrary: bs i d)
  case 0
  then show ?case by simp
next
  case (Suc n)
  then obtain b0 b1 b2 b3 r where bs: "bs = b0 # b1 # b2 # b3 # r" "size r = 4 * n"
    by (cases bs; cases "tl bs"; cases "tl (tl bs)"; cases "tl (tl (tl bs))") auto
  let ?q = "a + word_of_nat i * 4"
  let ?w = "ucast b0 OR push_bit 8 (ucast b1) OR push_bit 16 (ucast b2) OR push_bit 24 (ucast b3) :: u32"
  let ?d = "d\<lparr>ch_buf := store4 ?q ?w (ch_buf d), ch_last := ?q\<rparr>"
  obtain d' where d': "prog_words chip a (Suc i) (words_of r) ?d = (True, d')" "ch_cells d' = ch_cells d" "ch_regs d' = ch_regs d"
    "0 < n \<longrightarrow> ch_last d' = a + word_of_nat (Suc i + n - 1) * 4"
    "ch_buf d' = (\<lambda>x. if unat (x - (a + word_of_nat (Suc i) * 4)) < size r
        then r ! unat (x - (a + word_of_nat (Suc i) * 4)) else ch_buf ?d x)"
    using Suc.IH [OF bs(2), of "Suc i" ?d] Suc.prems(2) by auto
  have x4: "x - (a + word_of_nat (Suc i) * 4) = (x - ?q) - 4" for x by (simp add: algebra_simps)
  have "ch_buf d' x = (if unat (x - ?q) < size bs then bs ! unat (x - ?q) else ch_buf d x)" for x
  proof (cases "unat (x - ?q) < 4")
    case True
    then have "unat (x - ?q - 4) \<ge> 256"
      by (simp add: unat_sub_if')
    moreover have "size r < 256" using Suc.prems bs by simp
    ultimately have "ch_buf d' x = store4 ?q ?w (ch_buf d) x" by (simp add: d'(5) x4 del: of_nat_Suc)
    then show ?thesis using True unfolding store4_bytes by (auto simp: bs(1) nth_Cons' less_Suc_eq numeral_eq_Suc)
  next
    case False
    then have "unat (x - ?q - 4) = unat (x - ?q) - 4" by (simp add: unat_sub_le word_le_nat_alt)
    moreover have "store4 ?q ?w (ch_buf d) x = ch_buf d x" using False by (simp add: store4_def)
    ultimately show ?thesis using False
      by (auto simp: d'(5) x4 bs(1) nth_Cons' numeral_eq_Suc simp del: of_nat_Suc)
  qed
  then have b: "ch_buf d' = (\<lambda>x. if unat (x - ?q) < size bs then bs ! unat (x - ?q) else ch_buf d x)" by blast
  have "prog_words chip a i (words_of bs) d = (True, d')" using d'(1) by (simp add: bs(1))
  moreover have "ch_last d' = a + word_of_nat (i + Suc n - 1) * 4"
  proof (cases "n = 0")
    case True
    then have "d' = ?d" using d'(1) bs(2) by simp
    then show ?thesis using True by simp
  next
    case False
    then show ?thesis using d'(4) by simp
  qed
  ultimately show ?case using d'(2,3) b by auto
qed

lemma page_base:
  fixes a :: u32
  assumes "a mod 256 = 0"
  shows "a + 252 - (a + 252) mod 256 = a"
proof -
  have "unat a mod 256 = 0" using assms by (simp add: u32_eq_iff unat_mod)
  then obtain q where q: "unat a = 256 * q" by auto
  have "256 * q < 4294967296" using unat_lt_2p32 [of a] by (simp only: q)
  then have "unat a + 252 < 4294967296" by (simp add: q)
  then have s: "unat (a + 252) = 256 * q + 252" by (simp add: unat_add_u32 q)
  have "unat ((a + 252) mod 256) = 252" by (simp only: unat_mod s) simp
  then have "(a + 252) mod 256 = 252" by (simp add: u32_eq_iff)
  then show ?thesis by simp
qed

lemma chip_program_page:
  assumes "size bs = 256" "a mod 256 = 0"
  shows "\<exists>d'. flash_ll_program_page chip a (words_of bs) d = (True, d') \<and>
    ch_cells d' = (\<lambda>x. if unat (x - a) < 256 then bs ! unat (x - a) else ch_cells d x)"
proof -
  have w: "size bs' = 4 * n \<Longrightarrow> size (words_of bs') = n" for bs' :: "u8 list" and n
    by (induction bs' arbitrary: n rule: words_of.induct) (auto, presburger)
  have t: "take (LL_PROG_PAGE div 4) (words_of bs) = words_of bs"
    using w [of bs 64] assms(1) by (simp add: LL_PROG_PAGE_def)
  let ?d = "m_or chip FLASH_CTLR CR_PAGE_PG (snd (irq_mask chip d))"
  obtain d1 where d1: "prog_words chip a 0 (words_of bs) ?d = (True, d1)" "ch_cells d1 = ch_cells ?d"
    "ch_regs d1 = ch_regs ?d" "ch_last d1 = a + word_of_nat 63 * 4"
    "ch_buf d1 = (\<lambda>x. if unat (x - a) < 256 then bs ! unat (x - a) else ch_buf ?d x)"
    using chip_words [of bs 64 0 a ?d] assms(1) by (auto cong: if_cong)
  have c: "ch_cells ?d = ch_cells d"
    by (simp add: chip_irq chip_or chip_start_def bit_or_iff bit_and_iff bit_not_u32 flash_bits)
  have b: "bit (ch_regs ?d FLASH_CTLR) 16" by (simp add: chip_or bit_or_iff flash_bits)
  have l: "ch_last d1 - ch_last d1 mod 256 = a" using page_base [OF assms(2)] d1(4) by simp
  have "chip_start (ch_regs d1 FLASH_CTLR AND NOT (CR_STRT_Set OR CR_PG_STRT) OR CR_PG_STRT) d1 =
      program_cells a (ch_buf d1) (ch_cells d)"
    using b c d1(2,3) l by (simp add: chip_start_def bit_or_iff bit_and_iff bit_not_u32 flash_bits)
  then show ?thesis
    using t d1(1,5) by (simp add: flash_ll_program_page_def split_beta chip_and chip_or chip_irq program_cells_def cong: if_cong)
qed

lemma chip_locks: "ch_cells (flash_ll_unlock chip d) = ch_cells d" "ch_cells (flash_ll_lock chip d) = ch_cells d"
  "ch_cells (unpark_other chip self d) = ch_cells d"
  by (simp_all add: flash_ll_unlock_def flash_ll_lock_def unpark_other_def chip_or chip_start_def bit_or_iff
      bit_and_iff bit_not_u32 flash_bits)

lemma chip_park: "park_other chip self t d = Some (True, d)"
  by (simp add: park_other_def)

lemma for_step_once:
  assumes "0 < (step :: u32)"
  shows "for_step body step step 0 d = Some (body 0 d)"
  using assms by (subst for_step.simps, subst for_step.simps) (auto split: prod.splits)

lemma chip_erase:
  "\<exists>ok d'. flash_erase chip self a 0x2000 d = Some (ok, d') \<and>
     (ok \<longleftrightarrow> a mod 0x2000 = 0) \<and> ch_cells d' = (if ok then erase_cells a (ch_cells d) else ch_cells d)"
proof -
  obtain d' where "flash_ll_erase_page chip a (flash_ll_unlock chip d) = (True, d')"
    "ch_cells d' = erase_cells a (ch_cells d)"
    using chip_erase_page [of a "flash_ll_unlock chip d"] by (auto simp: chip_locks)
  then show ?thesis by (simp add: flash_erase_def flash_page_size_def chip_park for_step_once chip_locks)
qed

lemma chip_read: "flash_read chip a n d = (map (\<lambda>i. ch_cells d (a + word_of_nat i)) [0..<n], d)"
proof (induction n arbitrary: a)
  case (Suc n)
  have "map (\<lambda>i. ch_cells d (a + 1 + word_of_nat i)) [0..<n] = map (\<lambda>i. ch_cells d (a + word_of_nat i)) [1..<Suc n]"
    by (rule nth_equalityI) (simp_all add: add.assoc del: upt_Suc)
  then show ?case using Suc by (simp add: upt_conv_Cons del: upt_Suc)
qed simp

lemma unat_index: "i < 4294967296 \<Longrightarrow> unat (word_of_nat i :: u32) = i"
  by (simp add: unsigned_of_nat take_bit_nat_eq_self)

lemma chip_read_back:
  assumes "size bs = 256" "ch_cells d = (\<lambda>x. if unat (x - a) < 256 then bs ! unat (x - a) else c x)"
  shows "flash_read chip a 256 d = (bs, d)"
proof -
  have "map (\<lambda>i. ch_cells d (a + word_of_nat i)) [0..<size bs] = map (nth bs) [0..<size bs]"
  proof (rule map_cong [OF refl])
    fix i assume "i \<in> set [0..<size bs]"
    then have "i < 256" by (simp only: assms(1) atLeastLessThan_iff set_upt)
    then show "ch_cells d (a + word_of_nat i) = bs ! i" by (simp add: assms(2) unat_index)
  qed
  then show ?thesis by (simp only: chip_read map_nth assms(1) [symmetric])
qed

lemma chip_write:
  assumes "size bs = 256"
  shows "\<exists>ok d'. flash_write chip self a bs 256 d = Some (ok, d') \<and> (ok \<longleftrightarrow> a mod 256 = 0) \<and>
    ch_cells d' = (\<lambda>x. if ok \<and> unat (x - a) < 256 then bs ! unat (x - a) else ch_cells d x)"
proof (cases "a mod 256 = 0")
  case False
  then have "flash_write chip self a bs 256 d = Some (False, d)" by (simp add: flash_write_def LL_PROG_PAGE_def)
  then show ?thesis using False by (intro exI [of _ False] exI [of _ d]) simp
next
  case True
  obtain d' where d': "flash_ll_program_page chip a (words_of bs) (flash_ll_unlock chip d) = (True, d')"
    "ch_cells d' = (\<lambda>x. if unat (x - a) < 256 then bs ! unat (x - a) else ch_cells d x)"
    using chip_program_page [OF assms True, of "flash_ll_unlock chip d"] unfolding chip_locks by blast
  have p: "page_at bs 0 = words_of bs" using assms by (simp add: page_at_def LL_PROG_PAGE_def)
  let ?d = "unpark_other chip self (flash_ll_lock chip d')"
  have c: "ch_cells ?d = (\<lambda>x. if unat (x - a) < 256 then bs ! unat (x - a) else ch_cells d x)"
    by (simp only: chip_locks d'(2))
  have "for_step (\<lambda>off. flash_ll_program_page chip (a + off) (page_at bs off)) 256 256 0 (flash_ll_unlock chip d) = Some (True, d')"
    by (subst for_step_once) (simp_all only: add_0_right p d'(1), simp)
  then have "flash_write chip self a bs 256 d = Some (True, ?d)"
    using True assms chip_read_back [OF assms c] by (simp add: flash_write_def LL_PROG_PAGE_def chip_park Let_def)
  then show ?thesis using True c by (intro exI [of _ True] exI [of _ ?d]) simp
qed

text \<open>The driver on this controller keeps the contract.\<close>

interpretation chip: flash_device "\<lambda>a. flash_erase chip V5F a 0x2000" "\<lambda>a bs. flash_write chip V5F a bs 256" ch_cells
proof (unfold_locales, goal_cases)
  case (1 a d ok d')
  then show ?case using chip_erase [of V5F a d] by (auto simp: touched_def erase_cells_def)
next
  case (2 a d d')
  then show ?case using chip_erase [of V5F a d] by (auto simp: touched_def erase_cells_def)
next
  case (3 bs a d ok d')
  then show ?case using chip_write [of bs V5F a d] by (auto simp: touched_def)
next
  case (4 bs a d d')
  then show ?case using chip_write [of bs V5F a d] by (auto simp: touched_def unat_index)
qed

end
