(* ===== verification/Eeprom.thy ===== *)
theory Eeprom
  imports FlashDevice
begin

text \<open>
  The EEPROM emulation in the flash tail (\<^verbatim>\<open>EEPROM.cpp\<close>): a RAM mirror, and two erase
  pages written alternately.  Flash is read through pointers: \<open>c a\<close> is the byte at address
  \<open>a\<close>.  Erasing and programming are the arguments \<open>er\<close> and \<open>wr\<close> of the operations that
  call them, the driver's functions for one erase page and for one program page.
\<close>

section \<open>The page header\<close>

definition EEPROM_MAGIC :: u32 where "EEPROM_MAGIC = 0x43483445"
definition EEPROM_PAGE_SIZE :: nat where "EEPROM_PAGE_SIZE = 0x2000"
definition EEPROM_PAGES :: nat where "EEPROM_PAGES = 2"
definition EEPROM_MAX_SIZE :: nat where "EEPROM_MAX_SIZE = EEPROM_PAGE_SIZE - 16"

record ee_header =
  h_magic :: u32
  h_serial :: u32
  h_size :: u32
  h_check :: u32

definition bytes_at :: "flash \<Rightarrow> u32 \<Rightarrow> nat \<Rightarrow> u8 list" where
  "bytes_at c a n = map (\<lambda>i. c (a + word_of_nat i)) [0..<n]"

definition word_at :: "flash \<Rightarrow> u32 \<Rightarrow> u32" where
  "word_at c a = hd (words_of (bytes_at c a 4))"

definition header_at :: "flash \<Rightarrow> u32 \<Rightarrow> ee_header" where
  "header_at c a = \<lparr>h_magic = word_at c a, h_serial = word_at c (a + 4), h_size = word_at c (a + 8),
     h_check = word_at c (a + 12)\<rparr>"

definition header_bytes :: "ee_header \<Rightarrow> u8 list" where
  "header_bytes h = le_bytes (h_magic h) @ le_bytes (h_serial h) @ le_bytes (h_size h) @ le_bytes (h_check h)"

fun checksum_from :: "u32 \<Rightarrow> u8 list \<Rightarrow> u32" where
  "checksum_from s [] = s"
| "checksum_from s (b # bs) = checksum_from ((push_bit 1 s OR drop_bit 31 s) + ucast b) bs"

definition checksum :: "u8 list \<Rightarrow> u32 \<Rightarrow> u32" where
  "checksum bs serial = checksum_from (0x9E3779B9 XOR serial) bs"

section \<open>The live page\<close>

definition page_address :: "u32 \<Rightarrow> int \<Rightarrow> u32" where
  "page_address base p = base + word_of_int p * word_of_nat EEPROM_PAGE_SIZE"

text \<open>The three tests of a page's header, in the code's order.\<close>

definition page_ok :: "flash \<Rightarrow> u32 \<Rightarrow> bool" where
  "page_ok c a = (let h = header_at c a in
     if h_magic h = FLASH_ERASED_WORD \<or> h_magic h \<noteq> EEPROM_MAGIC then False
     else if h_size h = 0 \<or> unat (h_size h) > EEPROM_MAX_SIZE then False
     else checksum (bytes_at c (a + 16) (unat (h_size h))) (h_serial h) = h_check h)"

fun find_from :: "flash \<Rightarrow> u32 \<Rightarrow> int list \<Rightarrow> int \<Rightarrow> u32 \<Rightarrow> int" where
  "find_from c base [] best best_serial = best"
| "find_from c base (p # ps) best best_serial =
     (if \<not> page_ok c (page_address base p) then find_from c base ps best best_serial
      else (let s = h_serial (header_at c (page_address base p)) in
            if best < 0 \<or> s > best_serial then find_from c base ps p s
            else find_from c base ps best best_serial))"

definition findActivePage :: "flash \<Rightarrow> u32 \<Rightarrow> int" where
  "findActivePage c base = find_from c base [0, 1] (-1) 0"

section \<open>The mirror\<close>

record eeprom =
  ee_mirror :: "u8 list option"
  ee_size :: nat
  ee_active :: int
  ee_dirty :: bool
  ee_serial :: u32

definition eeprom_zero :: eeprom where
  "eeprom_zero = \<lparr>ee_mirror = None, ee_size = 0, ee_active = -1, ee_dirty = False, ee_serial = 0\<rparr>"

text \<open>What the mirror is filled with: the stored bytes that fit, then \<open>0xFF\<close>.\<close>

definition fit :: "nat \<Rightarrow> u8 list \<Rightarrow> u8 list" where
  "fit n bs = take n bs @ replicate (n - size bs) 0xFF"

definition eeprom_load :: "flash \<Rightarrow> u32 \<Rightarrow> nat \<Rightarrow> u8 list" where
  "eeprom_load c base n = (let p = findActivePage c base in
     if p < 0 then replicate n 0xFF
     else fit n (bytes_at c (page_address base p + 16) (unat (h_size (header_at c (page_address base p))))))"

text \<open>\<open>got\<close>: whether \<open>malloc\<close> has the memory.\<close>

definition eeprom_begin :: "bool \<Rightarrow> u32 \<Rightarrow> flash \<Rightarrow> nat \<Rightarrow> eeprom \<Rightarrow> bool \<times> eeprom" where
  "eeprom_begin got base c n e =
     (if n = 0 \<or> n > EEPROM_MAX_SIZE then (False, e)
      else if ee_mirror e \<noteq> None \<and> ee_size e = n then (True, e)
      else if \<not> got then (False, e\<lparr>ee_mirror := None\<rparr>)
      else (let p = findActivePage c base in
        (True, \<lparr>ee_mirror = Some (eeprom_load c base n), ee_size = n, ee_active = p, ee_dirty = False,
           ee_serial = (if p < 0 then 0 else h_serial (header_at c (page_address base p)))\<rparr>)))"

definition eeprom_read :: "int \<Rightarrow> eeprom \<Rightarrow> u8" where
  "eeprom_read a e = (case ee_mirror e of None \<Rightarrow> 0xFF
     | Some m \<Rightarrow> if a < 0 \<or> a \<ge> int (ee_size e) then 0xFF else m ! nat a)"

definition eeprom_write :: "int \<Rightarrow> u8 \<Rightarrow> eeprom \<Rightarrow> eeprom" where
  "eeprom_write a b e = (case ee_mirror e of None \<Rightarrow> e
     | Some m \<Rightarrow> if a < 0 \<or> a \<ge> int (ee_size e) then e
                  else if m ! nat a \<noteq> b then e\<lparr>ee_mirror := Some (m[nat a := b]), ee_dirty := True\<rparr>
                  else e)"

definition eeprom_update :: "int \<Rightarrow> u8 \<Rightarrow> eeprom \<Rightarrow> eeprom" where
  "eeprom_update = eeprom_write"

text \<open>\<open>get\<close> and \<open>put\<close> of an object, as its bytes; \<open>None\<close>: the object is left as it was.\<close>

definition eeprom_get :: "int \<Rightarrow> nat \<Rightarrow> eeprom \<Rightarrow> u8 list option" where
  "eeprom_get a n e = (case ee_mirror e of None \<Rightarrow> None
     | Some m \<Rightarrow> if a \<ge> 0 \<and> a + int n \<le> int (ee_size e) then Some (take n (drop (nat a) m)) else None)"

definition eeprom_put :: "int \<Rightarrow> u8 list \<Rightarrow> eeprom \<Rightarrow> eeprom" where
  "eeprom_put a bs e = (case ee_mirror e of None \<Rightarrow> e
     | Some m \<Rightarrow> if a \<ge> 0 \<and> a + int (size bs) \<le> int (ee_size e)
                  then e\<lparr>ee_mirror := Some (take (nat a) m @ bs @ drop (nat a + size bs) m), ee_dirty := True\<rparr>
                  else e)"

definition eeprom_length :: "eeprom \<Rightarrow> nat" where "eeprom_length e = ee_size e"
definition was_committed :: "eeprom \<Rightarrow> bool" where "was_committed e \<longleftrightarrow> ee_dirty e = False"
definition active_page :: "eeprom \<Rightarrow> int" where "active_page e = ee_active e"

section \<open>Committing\<close>

definition commit_header :: "eeprom \<Rightarrow> u8 list \<Rightarrow> ee_header" where
  "commit_header e m = (let serial = ee_serial e + 1 in
     \<lparr>h_magic = EEPROM_MAGIC, h_serial = serial, h_size = word_of_nat (ee_size e),
      h_check = checksum (take (ee_size e) m) serial\<rparr>)"

text \<open>One 256-byte buffer, from offset \<open>off\<close> of the page.\<close>

definition commit_buf :: "ee_header \<Rightarrow> u8 list \<Rightarrow> nat \<Rightarrow> nat \<Rightarrow> u8 list" where
  "commit_buf h m n off = map (\<lambda>i. let pos = off + i in
       if pos < 16 then header_bytes h ! pos
       else if pos - 16 < n then m ! (pos - 16) else 0xFF) [0..<LL_PROG_PAGE]"

fun write_pages :: "(u32 \<Rightarrow> u8 list \<Rightarrow> 'd \<Rightarrow> (bool \<times> 'd) option) \<Rightarrow> u32 \<Rightarrow> (nat \<Rightarrow> u8 list) \<Rightarrow> nat \<Rightarrow> 'd \<Rightarrow> (bool \<times> 'd) option"
where
  "write_pages wr addr buf 0 d = Some (True, d)"
| "write_pages wr addr buf (Suc page) d =
     (let off = page * LL_PROG_PAGE in
      do { (ok, d) \<leftarrow> wr (addr + word_of_nat off) (buf off) d;
           if \<not> ok then Some (False, d) else write_pages wr addr buf page d })"

definition commit_target :: "eeprom \<Rightarrow> int" where
  "commit_target e = (if ee_active e = 0 then 1 else 0)"

definition commit_pages :: "nat \<Rightarrow> nat" where
  "commit_pages n = (16 + n + LL_PROG_PAGE - 1) div LL_PROG_PAGE"

definition eeprom_commit ::
  "(u32 \<Rightarrow> 'd \<Rightarrow> (bool \<times> 'd) option) \<Rightarrow> (u32 \<Rightarrow> u8 list \<Rightarrow> 'd \<Rightarrow> (bool \<times> 'd) option) \<Rightarrow> u32 \<Rightarrow>
   eeprom \<times> 'd \<Rightarrow> (bool \<times> eeprom \<times> 'd) option" where
  "eeprom_commit er wr base s = (case s of (e, d) \<Rightarrow>
     (case ee_mirror e of
        None \<Rightarrow> Some (False, e, d)
      | Some m \<Rightarrow>
          if \<not> ee_dirty e then Some (True, e, d)
          else (let target = commit_target e; addr = page_address base target; h = commit_header e m in
            do { (ok, d) \<leftarrow> er addr d;
                 if \<not> ok then Some (False, e, d)
                 else do { (ok, d) \<leftarrow> write_pages wr addr (commit_buf h m (ee_size e)) (commit_pages (ee_size e)) d;
                           if \<not> ok then Some (False, e, d)
                           else Some (True, e\<lparr>ee_active := target, ee_serial := ee_serial e + 1, ee_dirty := False\<rparr>, d) } })))"

definition eeprom_end ::
  "(u32 \<Rightarrow> 'd \<Rightarrow> (bool \<times> 'd) option) \<Rightarrow> (u32 \<Rightarrow> u8 list \<Rightarrow> 'd \<Rightarrow> (bool \<times> 'd) option) \<Rightarrow> u32 \<Rightarrow>
   eeprom \<times> 'd \<Rightarrow> (eeprom \<times> 'd) option" where
  "eeprom_end er wr base s =
     do { (e, d) \<leftarrow> (if ee_dirty (fst s) then map_option snd (eeprom_commit er wr base s) else Some s);
          Some (e\<lparr>ee_mirror := None, ee_size := 0\<rparr>, d) }"

section \<open>What a page's bytes determine\<close>

lemma word_at_eq: "word_at c a = ucast (c a) OR push_bit 8 (ucast (c (a + 1))) OR
    push_bit 16 (ucast (c (a + 2))) OR push_bit 24 (ucast (c (a + 3)))"
  by (simp add: word_at_def bytes_at_def upt_rec)

lemma le_word:
  fixes w :: u32
  shows "(ucast (ucast w :: u8) :: u32) OR push_bit 8 (ucast (ucast (drop_bit 8 w) :: u8)) OR
     push_bit 16 (ucast (ucast (drop_bit 16 w) :: u8)) OR push_bit 24 (ucast (ucast (drop_bit 24 w) :: u8)) = w"
proof (rule bit_word_eqI)
  fix n assume "n < LENGTH(32)"
  then have "n < 8 \<or> 8 \<le> n \<and> n < 16 \<or> 16 \<le> n \<and> n < 24 \<or> 24 \<le> n \<and> n < 32" by auto
  then show "bit ((ucast (ucast w :: u8) :: u32) OR push_bit 8 (ucast (ucast (drop_bit 8 w) :: u8)) OR
     push_bit 16 (ucast (ucast (drop_bit 16 w) :: u8)) OR push_bit 24 (ucast (ucast (drop_bit 24 w) :: u8))) n = bit w n"
    by (elim disjE) (auto simp: bit_or_iff bit_push_bit_iff bit_unsigned_iff bit_drop_bit_eq)
qed

definition same_page :: "u32 \<Rightarrow> flash \<Rightarrow> flash \<Rightarrow> bool" where
  "same_page a c c' \<longleftrightarrow> (\<forall>i < EEPROM_PAGE_SIZE. c' (a + word_of_nat i) = c (a + word_of_nat i))"

lemma same_page_header: "same_page a c c' \<Longrightarrow> header_at c' a = header_at c a"
proof -
  assume s: "same_page a c c'"
  have w: "word_at c' (a + word_of_nat k) = word_at c (a + word_of_nat k)" if "k + 4 \<le> EEPROM_PAGE_SIZE" for k
  proof -
    have "c' (a + word_of_nat k + word_of_nat j) = c (a + word_of_nat k + word_of_nat j)" if "j < 4" for j
      using s \<open>k + 4 \<le> EEPROM_PAGE_SIZE\<close> that
      by (auto simp: same_page_def add.assoc simp flip: of_nat_add)
    from this [of 0] this [of 1] this [of 2] this [of 3] show ?thesis by (simp add: word_at_eq)
  qed
  show ?thesis using w [of 0] w [of 4] w [of 8] w [of 12]
    by (simp add: header_at_def EEPROM_PAGE_SIZE_def)
qed

lemma same_page_bytes:
  assumes "same_page a c c'" "16 + n \<le> EEPROM_PAGE_SIZE"
  shows "bytes_at c' (a + 16) n = bytes_at c (a + 16) n"
proof -
  have "c' (a + word_of_nat (16 + i)) = c (a + word_of_nat (16 + i))" if "i < n" for i
    using assms that unfolding same_page_def by (meson add_strict_left_mono less_le_trans)
  then show ?thesis by (auto simp: bytes_at_def add.assoc)
qed

lemma page_ok_size: "page_ok c a \<Longrightarrow> 16 + unat (h_size (header_at c a)) \<le> EEPROM_PAGE_SIZE"
  by (auto simp: page_ok_def Let_def EEPROM_MAX_SIZE_def EEPROM_PAGE_SIZE_def split: if_splits)

lemma same_page_sym: "same_page a c c' \<Longrightarrow> same_page a c' c"
  by (simp add: same_page_def)

lemma same_page_ok: "same_page a c c' \<Longrightarrow> page_ok c' a = page_ok c a"
proof -
  have "page_ok c' a" if "same_page a c c'" "page_ok c a" for c c'
    using page_ok_size [OF that(2)] that same_page_bytes [OF that(1)]
    by (auto simp: page_ok_def Let_def same_page_header [OF that(1)] split: if_splits)
  then show "same_page a c c' \<Longrightarrow> page_ok c' a = page_ok c a" using same_page_sym by blast
qed

lemma page_address_simps [simp]:
  "page_address base 0 = base" "page_address base 1 = base + 0x2000"
  by (simp_all add: page_address_def EEPROM_PAGE_SIZE_def)

text \<open>The scan over the two pages.\<close>

lemma findActivePage_eq:
  "findActivePage c base =
     (if page_ok c base
      then (if page_ok c (base + 0x2000) \<and> h_serial (header_at c (base + 0x2000)) > h_serial (header_at c base) then 1 else 0)
      else if page_ok c (base + 0x2000) then 1 else -1)"
  by (simp add: findActivePage_def Let_def)

lemma findActivePage_range: "findActivePage c base = -1 \<or> findActivePage c base = 0 \<or> findActivePage c base = 1"
  by (simp add: findActivePage_eq)

section \<open>Where a power cut can leave the flash\<close>

text \<open>
  Power goes between two operations, or during one: then its range holds anything \<open>T\<close> allows.
\<close>

inductive cut :: "(flash_op \<Rightarrow> flash \<Rightarrow> flash \<Rightarrow> bool) \<Rightarrow> flash_op list \<Rightarrow> flash \<Rightarrow> flash \<Rightarrow> bool"
  for T where
  cut_here: "cut T ops c c"
| cut_torn: "op_touches op c c' \<Longrightarrow> T op c c' \<Longrightarrow> cut T (op # ops) c c'"
| cut_later: "op_done op c c1 \<Longrightarrow> cut T ops c1 c' \<Longrightarrow> cut T (op # ops) c c'"

inductive_simps cut_Nil: "cut T [] c c'"
inductive_simps cut_Cons: "cut T (op # ops) c c'"

lemma cut_ConsE:
  assumes "cut T (op # ops) c c'"
  obtains "c' = c" | "op_touches op c c'" "T op c c'" | c1 where "op_done op c c1" "cut T ops c1 c'"
  using assms by (auto simp: cut_Cons)

text \<open>
  The one thing asked of a half-done operation, and only of the two that cover the header at
  \<open>a\<close>: if the page then passes the magic, size and checksum tests, it is not torn, but as it
  was before or complete.
\<close>

definition header_caught :: "u32 \<Rightarrow> flash_op \<Rightarrow> flash \<Rightarrow> flash \<Rightarrow> bool" where
  "header_caught a op c c' \<longleftrightarrow>
     ((case op of EraseOp x \<Rightarrow> x = a | ProgramOp x bs \<Rightarrow> x = a) \<and> page_ok c' a \<longrightarrow>
        same_page a c c' \<or> op_done op c c')"

text \<open>All of them done, in order.\<close>

fun all_done :: "flash_op list \<Rightarrow> flash \<Rightarrow> flash \<Rightarrow> bool" where
  "all_done [] c c' \<longleftrightarrow> c' = c"
| "all_done (op # ops) c c' \<longleftrightarrow> (\<exists>c1. op_done op c c1 \<and> all_done ops c1 c')"

definition commit_ops :: "u32 \<Rightarrow> eeprom \<Rightarrow> u8 list \<Rightarrow> flash_op list" where
  "commit_ops base e m = (let a = page_address base (commit_target e) in
     EraseOp a # map (\<lambda>p. ProgramOp (a + word_of_nat (p * LL_PROG_PAGE))
        (commit_buf (commit_header e m) m (ee_size e) (p * LL_PROG_PAGE))) (rev [0..<commit_pages (ee_size e)]))"

section \<open>Ranges\<close>

lemma unat_index_diff:
  assumes "i < 16384" "j < 16384"
  shows "unat (word_of_nat i - word_of_nat j :: u32) = (if j \<le> i then i - j else 4294967296 + i - j)"
  using assms by (auto simp: unat_sub_if' unat_index)

lemma touched_refl: "touched a n c c"
  by (simp add: touched_def)

lemma touched_trans: "touched a n c c1 \<Longrightarrow> touched a n c1 c2 \<Longrightarrow> touched a n c c2"
  by (simp add: touched_def)

lemma touched_part:
  assumes "touched (a + word_of_nat off) n c c'" "off + n \<le> 8192"
  shows "touched a 8192 c c'" "i < 8192 \<Longrightarrow> i < off \<or> off + n \<le> i \<Longrightarrow> c' (a + word_of_nat i) = c (a + word_of_nat i)"
proof -
  show "touched a 8192 c c'" unfolding touched_def
  proof (intro allI impI)
    fix x assume x: "8192 \<le> unat (x - a)"
    have "unat (x - (a + word_of_nat off)) = unat (x - a) - off"
      using x assms(2) by (simp add: diff_diff_eq [symmetric] unat_sub_le word_le_nat_alt unat_index)
    then show "c' x = c x" using assms x by (auto simp: touched_def)
  qed
  show "c' (a + word_of_nat i) = c (a + word_of_nat i)" if "i < 8192" "i < off \<or> off + n \<le> i"
  proof -
    have "n \<le> unat (word_of_nat i - word_of_nat off :: u32)"
      using that assms(2) by (auto simp: unat_index_diff)
    moreover have "a + word_of_nat i - (a + word_of_nat off) = word_of_nat i - word_of_nat off" by simp
    ultimately show ?thesis using assms(1) by (simp add: touched_def)
  qed
qed

lemma touched_other:
  assumes "touched a 8192 c c'"
  shows "same_page (a + 8192) c c'" "same_page (a - 8192) c c'"
proof -
  show "same_page (a + 8192) c c'" unfolding same_page_def
  proof (intro allI impI)
    fix i :: nat assume "i < EEPROM_PAGE_SIZE"
    then have "unat (word_of_nat (8192 + i) :: u32) = 8192 + i"
      by (intro unat_index) (simp add: EEPROM_PAGE_SIZE_def)
    moreover have "a + 8192 + word_of_nat i - a = word_of_nat (8192 + i)" by simp
    ultimately have "8192 \<le> unat (a + 8192 + word_of_nat i - a)" by (simp only: le_add1)
    then show "c' (a + 8192 + word_of_nat i) = c (a + 8192 + word_of_nat i)"
      by (rule assms [unfolded touched_def, rule_format])
  qed
  show "same_page (a - 8192) c c'" unfolding same_page_def
  proof (intro allI impI)
    fix i :: nat assume i: "i < EEPROM_PAGE_SIZE"
    have "unat (word_of_nat i - word_of_nat 8192 :: u32) = 4294967296 + i - 8192"
      using i by (subst unat_index_diff) (auto simp: EEPROM_PAGE_SIZE_def)
    then have "8192 \<le> unat (word_of_nat i - word_of_nat 8192 :: u32)" by linarith
    moreover have "a - 8192 + word_of_nat i - a = word_of_nat i - word_of_nat 8192" by simp
    ultimately have "8192 \<le> unat (a - 8192 + word_of_nat i - a)" by (simp only:)
    then show "c' (a - 8192 + word_of_nat i) = c (a - 8192 + word_of_nat i)"
      by (rule assms [unfolded touched_def, rule_format])
  qed
qed

lemma erased_not_ok:
  assumes "c a = erased_byte a"
  shows "\<not> page_ok c a"
proof -
  have "unat (a AND 3) \<in> {0, 1, 2, 3}"
  proof -
    have "a AND 3 \<le> 3" by (rule word_and_le1)
    then have "unat (a AND 3) \<le> 3" by (simp add: word_le_nat_alt)
    then show ?thesis by auto
  qed
  then have "c a \<noteq> 0x45" using assms by (auto simp: erased_byte_def le_bytes_def FLASH_ERASED_WORD_def)
  moreover have "c a = 0x45" if "word_at c a = EEPROM_MAGIC"
  proof -
    have "c a = ucast (word_at c a)"
      by (rule bit_word_eqI) (auto simp: word_at_eq bit_or_iff bit_push_bit_iff bit_unsigned_iff)
    then show ?thesis by (simp add: that EEPROM_MAGIC_def)
  qed
  ultimately show ?thesis by (auto simp: page_ok_def header_at_def Let_def)
qed

section \<open>The page as it is built, from the last buffer to the header\<close>

definition page_image :: "ee_header \<Rightarrow> u8 list \<Rightarrow> nat \<Rightarrow> nat \<Rightarrow> u8" where
  "page_image h m n i = (if i < 16 then header_bytes h ! i else if i - 16 < n then m ! (i - 16) else 0xFF)"

lemma commit_buf_image:
  "size (commit_buf h m n off) = 256" "i < 256 \<Longrightarrow> commit_buf h m n off ! i = page_image h m n (off + i)"
  by (simp_all add: commit_buf_def page_image_def LL_PROG_PAGE_def Let_def)

definition partly :: "u32 \<Rightarrow> ee_header \<Rightarrow> u8 list \<Rightarrow> nat \<Rightarrow> flash \<Rightarrow> flash \<Rightarrow> nat \<Rightarrow> bool" where
  "partly a h m n c0 c k \<longleftrightarrow> touched a 8192 c0 c \<and>
     (\<forall>i. k * 256 \<le> i \<and> i < commit_pages n * 256 \<longrightarrow> c (a + word_of_nat i) = page_image h m n i) \<and>
     (\<forall>i < k * 256. c (a + word_of_nat i) = erased_byte (a + word_of_nat i))"

definition complete :: "u32 \<Rightarrow> ee_header \<Rightarrow> u8 list \<Rightarrow> nat \<Rightarrow> flash \<Rightarrow> bool" where
  "complete a h m n c \<longleftrightarrow> (\<forall>i < commit_pages n * 256. c (a + word_of_nat i) = page_image h m n i)"

definition cut_outcome :: "u32 \<Rightarrow> ee_header \<Rightarrow> u8 list \<Rightarrow> nat \<Rightarrow> flash \<Rightarrow> flash \<Rightarrow> bool" where
  "cut_outcome a h m n c0 c \<longleftrightarrow> touched a 8192 c0 c \<and>
     (page_ok c a \<longrightarrow> same_page a c0 c \<or> complete a h m n c)"

abbreviation program_op :: "u32 \<Rightarrow> ee_header \<Rightarrow> u8 list \<Rightarrow> nat \<Rightarrow> nat \<Rightarrow> flash_op" where
  "program_op a h m n p \<equiv> ProgramOp (a + word_of_nat (p * LL_PROG_PAGE)) (commit_buf h m n (p * LL_PROG_PAGE))"

lemma commit_pages_le: "n \<le> EEPROM_MAX_SIZE \<Longrightarrow> commit_pages n \<le> 32"
  by (simp add: commit_pages_def LL_PROG_PAGE_def EEPROM_MAX_SIZE_def EEPROM_PAGE_SIZE_def)

lemma commit_pages_covers: "16 + n \<le> commit_pages n * 256"
  by (simp add: commit_pages_def LL_PROG_PAGE_def)

lemma partly_erased_header: "partly a h m n c0 c (Suc k) \<Longrightarrow> \<not> page_ok c a"
  by (rule erased_not_ok) (auto simp: partly_def dest: spec [of _ 0])

lemma partly_program:
  assumes "partly a h m n c0 c (Suc k)" "Suc k \<le> commit_pages n" "commit_pages n \<le> 32"
    and "op_done (program_op a h m n k) c c'"
  shows "partly a h m n c0 c' k"
proof -
  have t: "touched (a + word_of_nat (k * 256)) 256 c c'"
    and w: "\<And>i. i < 256 \<Longrightarrow> c' (a + word_of_nat (k * 256) + word_of_nat i) = page_image h m n (k * 256 + i)"
    using assms(4) by (simp_all add: commit_buf_image LL_PROG_PAGE_def)
  have o: "k * 256 + 256 \<le> 8192" using assms(2,3) by simp
  note keep = touched_part(2) [OF t o]
  have new: "c' (a + word_of_nat i) = page_image h m n i" if "k * 256 \<le> i" "i < Suc k * 256" for i
  proof -
    have "i - k * 256 < 256" "k * 256 + (i - k * 256) = i" using that by auto
    then show ?thesis using w [of "i - k * 256"]
      by (metis add.assoc of_nat_add)
  qed
  have "c' (a + word_of_nat i) = page_image h m n i" if "k * 256 \<le> i" "i < commit_pages n * 256" for i
    using new [OF that(1)] keep [of i] that assms(1,3) by (cases "i < Suc k * 256") (auto simp: partly_def)
  moreover have "c' (a + word_of_nat i) = erased_byte (a + word_of_nat i)" if "i < k * 256" for i
    using keep [of i] that o assms(1) by (auto simp: partly_def)
  moreover have "touched a 8192 c0 c'"
    using assms(1) touched_part(1) [OF t o] touched_trans by (auto simp: partly_def)
  ultimately show ?thesis by (simp add: partly_def)
qed

lemma cut_pages:
  assumes "cut (header_caught a) (map (program_op a h m n) (rev [0..<k])) c c'"
    and "partly a h m n c0 c k" "k \<le> commit_pages n" "commit_pages n \<le> 32"
  shows "cut_outcome a h m n c0 c'"
  using assms
proof (induction k arbitrary: c)
  case 0
  then have "c' = c" by (simp add: cut_Nil)
  then show ?case using 0 by (auto simp: cut_outcome_def complete_def partly_def)
next
  case (Suc k)
  note no = partly_erased_header [OF Suc.prems(2)]
  have t: "touched a 8192 c0 c" using Suc.prems(2) by (simp add: partly_def)
  have step: "partly a h m n c0 c1 k" if "op_done (program_op a h m n k) c c1" for c1
    by (rule partly_program [OF Suc.prems(2,3,4) that])
  from Suc.prems(1) have "cut (header_caught a) (program_op a h m n k # map (program_op a h m n) (rev [0..<k])) c c'"
    by simp
  then show ?case
  proof (cases rule: cut_ConsE)
    case 1
    then show ?thesis using 1 no t by (simp add: cut_outcome_def)
  next
    case 2
    have t2: "touched (a + word_of_nat (k * 256)) 256 c c'" using 2(1) by (simp add: commit_buf_image LL_PROG_PAGE_def)
    have o: "k * 256 + 256 \<le> 8192" using Suc.prems(3,4) by simp
    have tt: "touched a 8192 c0 c'" using t touched_part(1) [OF t2 o] touched_trans by blast
    show ?thesis
    proof (cases "k = 0")
      case True
      have "same_page a c c' \<or> partly a h m n c0 c' 0" if "page_ok c' a"
        using 2(2) that step [of c'] True by (auto simp: header_caught_def)
      then show ?thesis using tt same_page_ok no by (auto simp: cut_outcome_def complete_def partly_def)
    next
      case False
      then have "c' a = c a" using touched_part(2) [OF t2 o, of 0] by simp
      then have "\<not> page_ok c' a"
        using Suc.prems(2) by (intro erased_not_ok) (auto simp: partly_def dest: spec [of _ 0])
      then show ?thesis using tt by (simp add: cut_outcome_def)
    qed
  next
    case (3 c1)
    then show ?thesis using Suc.IH [OF _ step] Suc.prems(3,4) by simp
  qed
qed

lemma partly_erase:
  assumes "op_done (EraseOp a) c c'" "commit_pages n \<le> 32"
  shows "partly a h m n c c' (commit_pages n)"
proof -
  have "c' (a + word_of_nat i) = erased_byte (a + word_of_nat i)" if "i < commit_pages n * 256" for i
  proof -
    have "unat (a + word_of_nat i - a) < 8192" using that assms(2) by (simp add: unat_index)
    then show ?thesis using assms(1) by (simp add: EEPROM_PAGE_SIZE_def)
  qed
  then show ?thesis using assms(1) by (auto simp: partly_def EEPROM_PAGE_SIZE_def)
qed

lemma cut_commit:
  assumes "cut (header_caught a) (commit_ops base e m) c c'" "a = page_address base (commit_target e)"
    and "ee_size e \<le> EEPROM_MAX_SIZE"
  shows "cut_outcome a (commit_header e m) m (ee_size e) c c'"
proof -
  note p = commit_pages_le [OF assms(3)]
  from assms(1,2) have "cut (header_caught a) (EraseOp a #
      map (program_op a (commit_header e m) m (ee_size e)) (rev [0..<commit_pages (ee_size e)])) c c'"
    by (simp add: commit_ops_def Let_def)
  then show ?thesis
  proof (cases rule: cut_ConsE)
    case 1
    then show ?thesis using 1 by (simp add: cut_outcome_def touched_refl same_page_def)
  next
    case 2
    have "\<not> page_ok c' a" if "op_done (EraseOp a) c c'"
      using that by (intro erased_not_ok) (simp add: EEPROM_PAGE_SIZE_def)
    then show ?thesis using 2 by (auto simp: cut_outcome_def header_caught_def EEPROM_PAGE_SIZE_def)
  next
    case (3 c1)
    show ?thesis by (rule cut_pages [OF 3(2) partly_erase [OF 3(1) p] order_refl p])
  qed
qed

lemma pages_done:
  assumes "all_done (map (program_op a h m n) (rev [0..<k])) c c'" "partly a h m n c0 c k"
    and "k \<le> commit_pages n" "commit_pages n \<le> 32"
  shows "partly a h m n c0 c' 0"
  using assms
proof (induction k arbitrary: c)
  case (Suc k)
  then obtain c1 where "op_done (program_op a h m n k) c c1"
    "all_done (map (program_op a h m n) (rev [0..<k])) c1 c'" by auto
  then show ?case using Suc.IH partly_program [OF Suc.prems(2,3,4)] Suc.prems(3,4) by simp
qed simp

lemma commit_done:
  assumes "all_done (commit_ops base e m) c c'" "a = page_address base (commit_target e)"
    and "ee_size e \<le> EEPROM_MAX_SIZE"
  shows "touched a 8192 c c' \<and> complete a (commit_header e m) m (ee_size e) c'"
proof -
  note p = commit_pages_le [OF assms(3)]
  obtain c1 where c1: "op_done (EraseOp a) c c1"
    "all_done (map (program_op a (commit_header e m) m (ee_size e)) (rev [0..<commit_pages (ee_size e)])) c1 c'"
    using assms(1,2) by (auto simp: commit_ops_def Let_def)
  have "partly a (commit_header e m) m (ee_size e) c c' 0"
    by (rule pages_done [OF c1(2) partly_erase [OF c1(1) p] order_refl p])
  then show ?thesis by (simp add: partly_def complete_def)
qed

section \<open>Finding the copy again\<close>

lemma header_bytes_simps:
  "header_bytes h = [ucast (h_magic h), ucast (drop_bit 8 (h_magic h)), ucast (drop_bit 16 (h_magic h)), ucast (drop_bit 24 (h_magic h)),
     ucast (h_serial h), ucast (drop_bit 8 (h_serial h)), ucast (drop_bit 16 (h_serial h)), ucast (drop_bit 24 (h_serial h)),
     ucast (h_size h), ucast (drop_bit 8 (h_size h)), ucast (drop_bit 16 (h_size h)), ucast (drop_bit 24 (h_size h)),
     ucast (h_check h), ucast (drop_bit 8 (h_check h)), ucast (drop_bit 16 (h_check h)), ucast (drop_bit 24 (h_check h))]"
  by (simp add: header_bytes_def le_bytes_def)

lemma complete_header:
  assumes "complete a h m n c"
  shows "header_at c a = h"
proof -
  have b: "c (a + word_of_nat i) = header_bytes h ! i" if "i < 16" for i
    using assms that commit_pages_covers [of n] by (simp add: complete_def page_image_def)
  have w: "word_at c (a + word_of_nat k) = ucast (header_bytes h ! k) OR push_bit 8 (ucast (header_bytes h ! (k + 1))) OR
      push_bit 16 (ucast (header_bytes h ! (k + 2))) OR push_bit 24 (ucast (header_bytes h ! (k + 3)))" if "k + 3 < 16" for k
    using b [of k] b [of "k + 1"] b [of "k + 2"] b [of "k + 3"] that
    by (simp add: word_at_eq ac_simps)
  have "word_at c a = h_magic h" "word_at c (a + 4) = h_serial h" "word_at c (a + 8) = h_size h" "word_at c (a + 12) = h_check h"
    using w [of 0] w [of 4] w [of 8] w [of 12] by (simp_all add: header_bytes_simps le_word)
  then show ?thesis by (simp add: header_at_def)
qed

lemma complete_payload:
  assumes "complete a h m n c" "size m = n"
  shows "bytes_at c (a + 16) n = m"
proof (rule nth_equalityI)
  show "bytes_at c (a + 16) n ! i = m ! i" if "i < size (bytes_at c (a + 16) n)" for i
  proof -
    have i: "i < n" using that by (simp add: bytes_at_def)
    then have "16 + i < commit_pages n * 256" using commit_pages_covers [of n] by linarith
    then have "c (a + word_of_nat (16 + i)) = page_image h m n (16 + i)"
      using assms(1) unfolding complete_def by blast
    then show ?thesis using i by (simp add: bytes_at_def page_image_def add.assoc)
  qed
qed (simp add: bytes_at_def assms(2))

definition eeprom_ok :: "u32 \<Rightarrow> flash \<Rightarrow> eeprom \<Rightarrow> u8 list \<Rightarrow> bool" where
  "eeprom_ok base c e m \<longleftrightarrow> ee_mirror e = Some m \<and> size m = ee_size e \<and> 0 < ee_size e \<and>
     ee_size e \<le> EEPROM_MAX_SIZE \<and> ee_active e = findActivePage c base \<and>
     ee_serial e = (if ee_active e < 0 then 0 else h_serial (header_at c (page_address base (ee_active e))))"

lemma complete_ok:
  assumes "complete a (commit_header e m) m (ee_size e) c" "size m = ee_size e" "0 < ee_size e" "ee_size e \<le> EEPROM_MAX_SIZE"
  shows "page_ok c a" "h_serial (header_at c a) = ee_serial e + 1" "unat (h_size (header_at c a)) = ee_size e"
proof -
  note h = complete_header [OF assms(1)]
  show n: "unat (h_size (header_at c a)) = ee_size e"
    using assms(4) by (simp add: h commit_header_def Let_def EEPROM_MAX_SIZE_def EEPROM_PAGE_SIZE_def unat_index)
  show "h_serial (header_at c a) = ee_serial e + 1" by (simp add: h commit_header_def Let_def)
  have "bytes_at c (a + 16) (unat (h_size (header_at c a))) = m"
    using complete_payload [OF assms(1,2)] n by simp
  moreover have "h_size (header_at c a) \<noteq> 0" using n assms(3) by auto
  ultimately show "page_ok c a"
    using n assms(2,4) by (simp add: page_ok_def Let_def h commit_header_def EEPROM_MAGIC_def FLASH_ERASED_WORD_def)
qed

definition load_page :: "flash \<Rightarrow> u32 \<Rightarrow> nat \<Rightarrow> u8 list" where
  "load_page c a n = fit n (bytes_at c (a + 16) (unat (h_size (header_at c a))))"

lemma eeprom_load_eq: "eeprom_load c base n =
    (if findActivePage c base < 0 then replicate n 0xFF else load_page c (page_address base (findActivePage c base)) n)"
  by (simp add: eeprom_load_def load_page_def Let_def)

lemma same_page_load: "same_page a c c' \<Longrightarrow> page_ok c a \<Longrightarrow> load_page c' a n = load_page c a n"
  using same_page_bytes page_ok_size by (simp add: load_page_def same_page_header)

text \<open>A complete new copy is the live one.\<close>

lemma find_complete:
  assumes "eeprom_ok base c e m" "ee_serial e \<noteq> - 1" "a = page_address base (commit_target e)"
    and "touched a 8192 c c'" "complete a (commit_header e m) m (ee_size e) c'"
  shows "findActivePage c' base = commit_target e"
proof -
  have sb: "same_page (page_address base (1 - commit_target e)) c c'"
    using touched_other [OF assms(4)] by (auto simp: assms(3) commit_target_def split: if_splits)
  have "unat (ee_serial e) \<noteq> 4294967295" using assms(2) by (simp add: u32_eq_iff)
  with unat_lt_2p32 [of "ee_serial e"] have "unat (ee_serial e) < 4294967295" by linarith
  then have gt: "ee_serial e < ee_serial e + 1" by (simp add: word_less_nat_alt unat_add_u32)
  have e: "0 < ee_size e" "ee_size e \<le> EEPROM_MAX_SIZE" "size m = ee_size e"
    "ee_active e = findActivePage c base"
    "ee_serial e = (if ee_active e < 0 then 0 else h_serial (header_at c (page_address base (ee_active e))))"
    using assms(1) by (simp_all add: eeprom_ok_def)
  show ?thesis
    using complete_ok(1,2) [OF assms(5) e(3,1,2)] same_page_ok [OF sb] same_page_header [OF sb] e(4,5) gt assms(3)
    by (auto simp: findActivePage_eq commit_target_def split: if_splits)
qed

text \<open>Without one the page not being written still decides.\<close>

lemma find_after:
  assumes "eeprom_ok base c e m" "ee_serial e \<noteq> - 1" "a = page_address base (commit_target e)"
    and "cut_outcome a (commit_header e m) m (ee_size e) c c'"
  shows "findActivePage c' base = commit_target e \<and> complete a (commit_header e m) m (ee_size e) c' \<or>
    (\<forall>n. eeprom_load c' base n = eeprom_load c base n)"
proof (cases "complete a (commit_header e m) m (ee_size e) c'")
  case True
  then show ?thesis using find_complete [OF assms(1-3)] assms(4) by (simp add: cut_outcome_def)
next
  case False
  have t: "touched a 8192 c c'" and s: "page_ok c' a \<longrightarrow> same_page a c c'"
    using assms(4) False by (auto simp: cut_outcome_def)
  have sb: "same_page (page_address base (1 - commit_target e)) c c'"
    using touched_other [OF t] by (auto simp: assms(3) commit_target_def split: if_splits)
  note same = same_page_ok [OF sb] same_page_header [OF sb]
  have e: "ee_active e = findActivePage c base" using assms(1) by (simp add: eeprom_ok_def)
  consider "\<not> page_ok c' a" | "page_ok c' a" "page_ok c a" "header_at c' a = header_at c a" "same_page a c c'"
    using s same_page_ok same_page_header by blast
  then show ?thesis
    by cases (use same sb e assms(3) same_page_load in
      \<open>auto simp: findActivePage_eq commit_target_def eeprom_load_eq split: if_splits\<close>)
qed

section \<open>A commit under a power supply that may fail\<close>

text \<open>
  What the checksum is there for: when a half-done operation on the header of page \<open>p\<close> left
  a page that is neither the one before nor the finished one, but has the magic number and
  a possible size, the checksum does not match.
\<close>

definition checksum_detects :: "u32 \<Rightarrow> flash_op \<Rightarrow> flash \<Rightarrow> flash \<Rightarrow> bool" where
  "checksum_detects p op c c' \<longleftrightarrow> (let h = header_at c' p in
     (case op of EraseOp x \<Rightarrow> x = p | ProgramOp x bs \<Rightarrow> x = p) \<and> \<not> same_page p c c' \<and> \<not> op_done op c c' \<and>
     h_magic h = EEPROM_MAGIC \<and> 0 < h_size h \<and> unat (h_size h) \<le> EEPROM_MAX_SIZE \<longrightarrow>
     checksum (bytes_at c' (p + 16) (unat (h_size h))) (h_serial h) \<noteq> h_check h)"

lemma checksum_detects_caught: "checksum_detects p op c c' \<Longrightarrow> header_caught p op c c'"
  by (auto simp: checksum_detects_def header_caught_def page_ok_def Let_def word_neq_0_conv split: if_splits)

lemma not_ok_detected: "\<not> page_ok c' p \<Longrightarrow> checksum_detects p op c c'"
  by (auto simp: checksum_detects_def page_ok_def Let_def EEPROM_MAGIC_def FLASH_ERASED_WORD_def word_neq_0_conv
      split: if_splits)

lemma unchanged_detected: "checksum_detects p op c c"
  by (simp add: checksum_detects_def same_page_def Let_def)

lemma elsewhere_detected:
  "(case op of EraseOp x \<Rightarrow> x \<noteq> p | ProgramOp x bs \<Rightarrow> x \<noteq> p) \<Longrightarrow> checksum_detects p op c c'"
  by (cases op) (simp_all add: checksum_detects_def Let_def)

text \<open>An operation that failed or was cut short.\<close>

definition op_torn :: "u32 \<Rightarrow> flash_op \<Rightarrow> flash \<Rightarrow> flash \<Rightarrow> bool" where
  "op_torn base op c c' \<longleftrightarrow> op_touches op c c' \<and> (\<forall>p \<in> {base, base + 0x2000}. checksum_detects p op c c')"

text \<open>
  The flash driver under such a supply.  \<open>on\<close> says whether there still is power; without it
  a call changes nothing, whatever it is taken to return.  A call that succeeds and finds
  the power on at its end has done its work; any other may have torn it.
\<close>

locale supplied_device =
  fixes er :: "u32 \<Rightarrow> 'd \<Rightarrow> (bool \<times> 'd) option"
    and wr :: "u32 \<Rightarrow> u8 list \<Rightarrow> 'd \<Rightarrow> (bool \<times> 'd) option"
    and cell :: "'d \<Rightarrow> flash"
    and on :: "'d \<Rightarrow> bool"
    and base :: u32
  assumes er_total: "\<exists>ok d'. er a d = Some (ok, d')"
    and er_off: "\<not> on d \<Longrightarrow> er a d = Some (ok, d') \<Longrightarrow> cell d' = cell d \<and> \<not> on d'"
    and er_done: "on d \<Longrightarrow> er a d = Some (True, d') \<Longrightarrow> on d' \<Longrightarrow> op_done (EraseOp a) (cell d) (cell d')"
    and er_torn: "on d \<Longrightarrow> er a d = Some (ok, d') \<Longrightarrow> \<not> (ok \<and> on d') \<Longrightarrow> op_torn base (EraseOp a) (cell d) (cell d')"
    and wr_total: "\<exists>ok d'. wr a bs d = Some (ok, d')"
    and wr_off: "\<not> on d \<Longrightarrow> wr a bs d = Some (ok, d') \<Longrightarrow> cell d' = cell d \<and> \<not> on d'"
    and wr_done: "size bs = 256 \<Longrightarrow> on d \<Longrightarrow> wr a bs d = Some (True, d') \<Longrightarrow> on d' \<Longrightarrow>
      op_done (ProgramOp a bs) (cell d) (cell d')"
    and wr_torn: "size bs = 256 \<Longrightarrow> on d \<Longrightarrow> wr a bs d = Some (ok, d') \<Longrightarrow> \<not> (ok \<and> on d') \<Longrightarrow>
      op_torn base (ProgramOp a bs) (cell d) (cell d')"
begin

lemma torn_cut:
  assumes "op_torn base op c c'" "a = base \<or> a = base + 0x2000"
  shows "cut (header_caught a) (op # ops) c c'"
  using assms by (intro cut_torn) (auto simp: op_torn_def intro: checksum_detects_caught)

lemma write_pages_total: "\<exists>ok d'. write_pages wr a buf k d = Some (ok, d')"
proof (induction k arbitrary: d)
  case (Suc k)
  obtain ok d1 where "wr (a + word_of_nat (k * LL_PROG_PAGE)) (buf (k * LL_PROG_PAGE)) d = Some (ok, d1)"
    using wr_total by blast
  then show ?case using Suc.IH [of d1] by (auto simp: Let_def)
qed (simp add: ex_bool_eq)

lemma write_pages_off:
  "\<not> on d \<Longrightarrow> write_pages wr a buf k d = Some (ok, d') \<Longrightarrow> cell d' = cell d \<and> \<not> on d'"
proof (induction k arbitrary: d)
  case (Suc k)
  obtain ok1 d1 where w: "wr (a + word_of_nat (k * LL_PROG_PAGE)) (buf (k * LL_PROG_PAGE)) d = Some (ok1, d1)"
    using wr_total by blast
  then show ?case using Suc.IH [of d1] Suc.prems wr_off [OF Suc.prems(1) w] by (auto simp: Let_def split: if_splits)
qed simp

lemma write_pages_supplied:
  assumes "write_pages wr a (commit_buf h m n) k d = Some (ok, d')" "p = base \<or> p = base + 0x2000"
  shows "cut (header_caught p) (map (program_op a h m n) (rev [0..<k])) (cell d) (cell d') \<and>
    (ok \<and> on d' \<longrightarrow> all_done (map (program_op a h m n) (rev [0..<k])) (cell d) (cell d'))"
  using assms(1)
proof (induction k arbitrary: d)
  case 0
  then show ?case by (simp add: cut_here)
next
  case (Suc k)
  let ?op = "program_op a h m n k"
  obtain ok1 d1 where w: "wr (a + word_of_nat (k * LL_PROG_PAGE)) (commit_buf h m n (k * LL_PROG_PAGE)) d = Some (ok1, d1)"
    using wr_total by blast
  note b = commit_buf_image(1) [of h m n "k * LL_PROG_PAGE"]
  have rest: "if ok1 then write_pages wr a (commit_buf h m n) k d1 = Some (ok, d') else \<not> ok \<and> d' = d1"
    using Suc.prems w by (auto simp: Let_def)
  consider (off) "\<not> on d" | (good) "on d" "ok1" "on d1" | (lost) "on d" "ok1" "\<not> on d1" | (failed) "on d" "\<not> ok1" by blast
  then show ?case
  proof cases
    case off
    have "cell d' = cell d \<and> \<not> on d'" by (rule write_pages_off [OF off Suc.prems])
    then show ?thesis by (simp add: cut_here)
  next
    case good
    then have "op_done ?op (cell d) (cell d1)" using wr_done [OF b] w by simp
    then show ?thesis using Suc.IH [of d1] rest good by (auto intro: cut_later)
  next
    case lost
    have "op_torn base ?op (cell d) (cell d1)" using wr_torn [OF b lost(1) w] lost(3) by simp
    moreover have "cell d' = cell d1 \<and> \<not> on d'" using write_pages_off [OF lost(3)] rest lost(2) by simp
    ultimately show ?thesis using torn_cut [OF _ assms(2)] by simp
  next
    case failed
    have "op_torn base ?op (cell d) (cell d1)" using wr_torn [OF b failed(1) w] failed(2) by simp
    then show ?thesis using torn_cut [OF _ assms(2)] rest failed(2) by simp
  qed
qed

lemma commit_total: "\<exists>ok e' d'. eeprom_commit er wr base (e, d) = Some (ok, e', d')"
proof (cases "ee_mirror e")
  case (Some m)
  obtain ok1 d1 where "er (page_address base (commit_target e)) d = Some (ok1, d1)" using er_total by blast
  moreover obtain ok2 d2 where "write_pages wr (page_address base (commit_target e))
      (commit_buf (commit_header e m) m (ee_size e)) (commit_pages (ee_size e)) d1 = Some (ok2, d2)"
    using write_pages_total by blast
  ultimately show ?thesis using Some by (auto simp: eeprom_commit_def Let_def)
qed (simp add: eeprom_commit_def ex_bool_eq)

text \<open>What \<open>eeprom_commit\<close> does to the flash is its operations in order, cut anywhere.\<close>

lemma commit_supplied:
  assumes "eeprom_commit er wr base (e, d) = Some (ok, e', d')" "ee_mirror e = Some m" "ee_dirty e"
  shows "cut (header_caught (page_address base (commit_target e))) (commit_ops base e m) (cell d) (cell d') \<and>
    (ok \<and> on d' \<longrightarrow> all_done (commit_ops base e m) (cell d) (cell d'))"
proof -
  let ?a = "page_address base (commit_target e)"
  let ?w = "write_pages wr ?a (commit_buf (commit_header e m) m (ee_size e)) (commit_pages (ee_size e))"
  have a: "?a = base \<or> ?a = base + 0x2000" by (simp add: commit_target_def)
  obtain ok1 d1 where r: "er ?a d = Some (ok1, d1)" using er_total by blast
  have rest: "if ok1 then ?w d1 = Some (ok, d') else \<not> ok \<and> d' = d1"
    using assms r by (auto simp: eeprom_commit_def Let_def split: Option.bind_splits if_splits)
  consider (off) "\<not> on d" | (good) "on d" "ok1" "on d1" | (lost) "on d" "ok1" "\<not> on d1" | (failed) "on d" "\<not> ok1" by blast
  then show ?thesis
  proof cases
    case off
    have "cell d1 = cell d \<and> \<not> on d1" by (rule er_off [OF off r])
    then have "cell d' = cell d \<and> \<not> on d'"
      using write_pages_off rest by (auto split: if_splits)
    then show ?thesis by (simp add: cut_here)
  next
    case good
    then have "op_done (EraseOp ?a) (cell d) (cell d1)" using er_done r by simp
    moreover have "?w d1 = Some (ok, d')" using rest good by simp
    note write_pages_supplied [OF this a]
    ultimately show ?thesis by (auto simp only: commit_ops_def Let_def all_done.simps intro: cut_later)
  next
    case lost
    have "op_torn base (EraseOp ?a) (cell d) (cell d1)" using er_torn [OF lost(1) r] lost(3) by simp
    moreover have "cell d' = cell d1 \<and> \<not> on d'" using write_pages_off [OF lost(3)] rest lost(2) by simp
    ultimately show ?thesis using torn_cut [OF _ a] by (simp add: commit_ops_def Let_def)
  next
    case failed
    have "op_torn base (EraseOp ?a) (cell d) (cell d1)" using er_torn [OF failed(1) r] failed(2) by simp
    then show ?thesis using torn_cut [OF _ a] rest failed(2) by (simp add: commit_ops_def Let_def)
  qed
qed

end

text \<open>
  The driver of \<open>FlashDevice\<close> on its controller, fed by a supply that fails during the call
  after \<open>sp_left\<close> more: that call leaves the cells of its range with \<open>sp_torn\<close>, or as they
  were where the page's tests would not notice the tear.
\<close>

record fed_chip =
  sp_chip :: chip
  sp_on :: bool
  sp_left :: nat
  sp_torn :: flash

definition tear :: "u32 \<Rightarrow> nat \<Rightarrow> fed_chip \<Rightarrow> fed_chip" where
  "tear a n s = (let c = ch_cells (sp_chip s); c' = (\<lambda>x. if unat (x - a) < n then sp_torn s x else c x)
     in s\<lparr>sp_on := False, sp_chip := (sp_chip s)\<lparr>ch_cells := if page_ok c' a then c else c'\<rparr>\<rparr>)"

definition supplied :: "u32 \<Rightarrow> nat \<Rightarrow> (chip \<Rightarrow> (bool \<times> chip) option) \<Rightarrow> fed_chip \<Rightarrow> (bool \<times> fed_chip) option" where
  "supplied a n call s =
     (if \<not> sp_on s then Some (False, s)
      else if sp_left s = 0 then Some (False, tear a n s)
      else map_option (\<lambda>(ok, d). (ok, s\<lparr>sp_chip := d, sp_left := sp_left s - 1\<rparr>)) (call (sp_chip s)))"

definition supply_er :: "u32 \<Rightarrow> fed_chip \<Rightarrow> (bool \<times> fed_chip) option" where
  "supply_er a = supplied a 8192 (\<lambda>d. flash_erase chip V5F a 0x2000 d)"

definition supply_wr :: "u32 \<Rightarrow> u8 list \<Rightarrow> fed_chip \<Rightarrow> (bool \<times> fed_chip) option" where
  "supply_wr a bs = supplied a (size bs) (\<lambda>d. flash_write chip V5F a bs 256 d)"

lemma flash_write_total: "\<exists>ok d'. flash_write chip V5F a bs 256 d = Some (ok, d')"
proof (cases "a mod 256 = 0")
  case True
  then show ?thesis
    by (simp add: flash_write_def LL_PROG_PAGE_def chip_park Let_def for_step_once split: prod.split)
qed (simp add: flash_write_def LL_PROG_PAGE_def ex_bool_eq)

lemma tear_off [simp]: "\<not> sp_on (tear a n s)"
  by (simp add: tear_def Let_def)

lemma tear_detected:
  assumes "case op of EraseOp x \<Rightarrow> x = a \<and> n = 8192 | ProgramOp x bs \<Rightarrow> x = a \<and> n = size bs"
  shows "op_torn base op (ch_cells (sp_chip s)) (ch_cells (sp_chip (tear a n s)))"
proof -
  let ?c = "ch_cells (sp_chip s)" and ?c' = "ch_cells (sp_chip (tear a n s))"
  have "touched a n ?c ?c'" by (simp add: touched_def tear_def Let_def)
  then have "op_touches op ?c ?c'" using assms by (cases op) auto
  moreover have "\<not> page_ok ?c' a \<or> ?c' = ?c" by (auto simp: tear_def Let_def)
  then have "checksum_detects a op ?c ?c'" using not_ok_detected unchanged_detected by metis
  then have "checksum_detects p op ?c ?c'" for p
    using assms elsewhere_detected [where op = op and p = p] by (cases "p = a") (cases op; auto)+
  ultimately show ?thesis by (simp add: op_torn_def)
qed

lemma refused_torn:
  "op_touches op c c' \<Longrightarrow> c' = c \<Longrightarrow> op_torn base op c c'"
  by (simp add: op_torn_def unchanged_detected)

interpretation fed: supplied_device supply_er supply_wr "\<lambda>s. ch_cells (sp_chip s)" sp_on base for base
proof (unfold_locales, goal_cases)
  case (1 a d)
  then show ?case using chip_erase [of V5F a "sp_chip d"] by (auto simp: supply_er_def supplied_def)
next
  case (3 d a d')
  then show ?case using chip_erase [of V5F a "sp_chip d"]
    by (auto simp: supply_er_def supplied_def touched_def erase_cells_def split: if_splits)
next
  case (4 d a ok d')
  show ?case
  proof (cases "sp_left d = 0")
    case True
    then show ?thesis using 4 tear_detected [where op = "EraseOp a" and a = a and n = 8192 and s = d]
      by (auto simp: supply_er_def supplied_def)
  next
    case False
    then show ?thesis using 4 chip_erase [of V5F a "sp_chip d"]
      by (auto simp: supply_er_def supplied_def touched_def intro!: refused_torn)
  qed
next
  case (5 a bs d)
  then show ?case using flash_write_total [of a bs "sp_chip d"] by (auto simp: supply_wr_def supplied_def)
next
  case (7 bs d a d')
  then show ?case using chip_write [of bs V5F a "sp_chip d"]
    by (auto simp: supply_wr_def supplied_def touched_def unat_index split: if_splits)
next
  case (8 bs d a ok d')
  show ?case
  proof (cases "sp_left d = 0")
    case True
    then show ?thesis using 8 tear_detected [where op = "ProgramOp a bs" and a = a and n = 256 and s = d]
      by (auto simp: supply_wr_def supplied_def)
  next
    case False
    then show ?thesis using 8 chip_write [of bs V5F a "sp_chip d"]
      by (auto simp: supply_wr_def supplied_def touched_def intro!: refused_torn)
  qed
qed (auto simp: supply_er_def supply_wr_def supplied_def)

text \<open>
  C1.  A power cut loses nothing.  A begun EEPROM is committed over a flash driver whose
  power may fail at any moment.  Assumed: a call touches only its own range and, when it
  succeeds with the power still on, has done its work; the checksum detects a half-done
  erase or program of a page's header (\<open>checksum_detects\<close>), while a page without the header
  may be left with any contents; and the serial number is not the last one.  Then, wherever
  the power fails, between two flash operations, inside one or not at all, the next \<open>begin\<close>
  loads either exactly what it would have loaded before the commit or exactly the bytes
  being committed, and the latter when the commit succeeds with the power still on.
\<close>

theorem eeprom_survives_power_cut:
  assumes "supplied_device er wr cell on base" "eeprom_ok base (cell d) e m" "ee_serial e \<noteq> - 1" "ee_dirty e"
  shows "\<exists>ok e' d'. eeprom_commit er wr base (e, d) = Some (ok, e', d') \<and>
    (eeprom_load (cell d') base n = eeprom_load (cell d) base n \<or> eeprom_load (cell d') base n = fit n m) \<and>
    (ok \<and> on d' \<longrightarrow> eeprom_load (cell d') base n = fit n m)"
proof -
  let ?a = "page_address base (commit_target e)"
  have e: "ee_size e \<le> EEPROM_MAX_SIZE" "0 < ee_size e" "size m = ee_size e" "ee_mirror e = Some m"
    using assms(2) by (simp_all add: eeprom_ok_def)
  obtain ok e' d' where c: "eeprom_commit er wr base (e, d) = Some (ok, e', d')"
    using supplied_device.commit_total [OF assms(1)] by blast
  from supplied_device.commit_supplied [OF assms(1) c e(4) assms(4)]
  have k: "cut (header_caught ?a) (commit_ops base e m) (cell d) (cell d')"
    and all: "ok \<and> on d' \<Longrightarrow> all_done (commit_ops base e m) (cell d) (cell d')" by blast+
  have new: "eeprom_load (cell d') base n = fit n m"
    if "findActivePage (cell d') base = commit_target e" "complete ?a (commit_header e m) m (ee_size e) (cell d')"
  proof -
    have "bytes_at (cell d') (?a + 16) (unat (h_size (header_at (cell d') ?a))) = m"
      using complete_payload [OF that(2) e(3)] complete_ok(3) [OF that(2) e(3,2,1)] by simp
    then show ?thesis using that(1) by (simp add: eeprom_load_eq load_page_def commit_target_def)
  qed
  have "eeprom_load (cell d') base n = eeprom_load (cell d) base n \<or> eeprom_load (cell d') base n = fit n m"
    using find_after [OF assms(2,3) refl cut_commit [OF k refl e(1)]] new by blast
  moreover have "eeprom_load (cell d') base n = fit n m" if "ok \<and> on d'"
    using commit_done [OF all [OF that] refl e(1)] find_complete [OF assms(2,3) refl] new by blast
  ultimately show ?thesis using c by blast
qed

section \<open>A commit is its operations, on any device with the contract\<close>

context flash_device begin

text \<open>Writing the pages is the program operations in order, up to the first that fails.\<close>

lemma write_pages_cut:
  assumes "write_pages wr a (commit_buf h m n) k d = Some (ok, d')"
  shows "if ok then all_done (map (program_op a h m n) (rev [0..<k])) (cell d) (cell d')
    else cut (\<lambda>_ _ _. True) (map (program_op a h m n) (rev [0..<k])) (cell d) (cell d')"
  using assms
proof (induction k arbitrary: d)
  case (Suc k)
  let ?op = "program_op a h m n k"
  obtain ok1 d1 where w: "wr (a + word_of_nat (k * LL_PROG_PAGE)) (commit_buf h m n (k * LL_PROG_PAGE)) d = Some (ok1, d1)"
    using Suc.prems by (auto simp: Let_def split: Option.bind_splits)
  note b = commit_buf_image(1) [of h m n "k * LL_PROG_PAGE"]
  show ?case
  proof (cases ok1)
    case True
    then have "op_done ?op (cell d) (cell d1)" using wr_done [OF b] w by simp
    moreover have "write_pages wr a (commit_buf h m n) k d1 = Some (ok, d')"
      using Suc.prems w True by (simp add: Let_def)
    ultimately show ?thesis using Suc.IH [of d1] by (auto intro: cut_later split: if_splits)
  next
    case False
    then show ?thesis using Suc.prems w wr_range [OF b w] by (auto simp: Let_def intro: cut_torn)
  qed
qed simp

lemma commit_runs:
  assumes "eeprom_commit er wr base (e, d) = Some (ok, e', d')" "ee_mirror e = Some m" "ee_dirty e"
  shows "if ok then all_done (commit_ops base e m) (cell d) (cell d') \<and>
      e' = e\<lparr>ee_active := commit_target e, ee_serial := ee_serial e + 1, ee_dirty := False\<rparr>
    else cut (\<lambda>_ _ _. True) (commit_ops base e m) (cell d) (cell d') \<and> e' = e"
proof -
  let ?a = "page_address base (commit_target e)"
  obtain ok1 d1 where r: "er ?a d = Some (ok1, d1)"
    using assms by (auto simp: eeprom_commit_def Let_def split: Option.bind_splits)
  show ?thesis
  proof (cases ok1)
    case False
    then show ?thesis using assms r er_range [OF r]
      by (auto simp: eeprom_commit_def Let_def commit_ops_def intro: cut_torn)
  next
    case True
    obtain ok2 d2 where w: "write_pages wr ?a (commit_buf (commit_header e m) m (ee_size e)) (commit_pages (ee_size e)) d1 = Some (ok2, d2)"
      using assms r True by (auto simp: eeprom_commit_def Let_def split: Option.bind_splits)
    have o: "ok = ok2" "d' = d2" "e' = (if ok then e\<lparr>ee_active := commit_target e, ee_serial := ee_serial e + 1, ee_dirty := False\<rparr> else e)"
      using assms r True w by (auto simp: eeprom_commit_def Let_def split: if_splits)
    have d: "op_done (EraseOp ?a) (cell d) (cell d1)" using r True by (intro er_done) simp
    note p = write_pages_cut [OF w, folded o(1,2)]
    show ?thesis
    proof (cases ok)
      case True
      then show ?thesis using p d o(3) by (auto simp only: commit_ops_def Let_def all_done.simps if_True)
    next
      case False
      then show ?thesis using p cut_later [OF d] o(3) by (auto simp only: commit_ops_def Let_def if_False)
    qed
  qed
qed

end

text \<open>
  C9.  Committing and reading back.  A commit that reports success has moved to the other
  page, and beginning again from the flash alone gives back exactly the state of the mirror:
  the same bytes, page and serial number, and nothing left to write.  A commit that fails
  changes nothing in the mirror, which stays dirty, and has left the flash where a power cut
  during it could.
\<close>

theorem eeprom_commit_reads_back:
  assumes "flash_device er wr cell" "eeprom_ok base (cell d) e m" "ee_serial e \<noteq> - 1" "ee_dirty e"
    and "eeprom_commit er wr base (e, d) = Some (ok, e', d')"
  shows "if ok then ee_mirror e' = Some m \<and> ee_active e' \<noteq> ee_active e \<and> eeprom_ok base (cell d') e' m \<and>
      eeprom_begin True base (cell d') (ee_size e) eeprom_zero = (True, e')
    else e' = e \<and> cut (\<lambda>_ _ _. True) (commit_ops base e m) (cell d) (cell d')"
proof -
  let ?a = "page_address base (commit_target e)"
  have e: "ee_size e \<le> EEPROM_MAX_SIZE" "0 < ee_size e" "size m = ee_size e" "ee_mirror e = Some m"
    using assms(2) by (simp_all add: eeprom_ok_def)
  note r = flash_device.commit_runs [OF assms(1,5) e(4) assms(4)]
  show ?thesis
  proof (cases ok)
    case False
    then show ?thesis using r by simp
  next
    case True
    then have r: "all_done (commit_ops base e m) (cell d) (cell d')"
      "e' = e\<lparr>ee_active := commit_target e, ee_serial := ee_serial e + 1, ee_dirty := False\<rparr>"
      using r by simp_all
    have c: "touched ?a 8192 (cell d) (cell d')" "complete ?a (commit_header e m) m (ee_size e) (cell d')"
      using commit_done [OF r(1) refl e(1)] by simp_all
    note k = complete_ok [OF c(2) e(3,2,1)]
    have f: "findActivePage (cell d') base = commit_target e"
      by (rule find_complete [OF assms(2,3) refl c])
    have "bytes_at (cell d') (?a + 16) (unat (h_size (header_at (cell d') ?a))) = m"
      using complete_payload [OF c(2) e(3)] k(3) by simp
    then have l: "eeprom_load (cell d') base (ee_size e) = m"
      using f e(3) by (simp add: eeprom_load_eq load_page_def commit_target_def fit_def)
    have t: "\<not> commit_target e < 0" "commit_target e \<noteq> ee_active e" by (simp_all add: commit_target_def)
    have "eeprom_ok base (cell d') e' m" using e f k(2) t by (simp add: eeprom_ok_def r(2))
    moreover have "eeprom_begin True base (cell d') (ee_size e) eeprom_zero = (True, e')"
      using e f k(2) t l by (simp add: eeprom_begin_def eeprom_zero_def r(2) Let_def)
    ultimately show ?thesis using True e(4) t by (simp add: r(2))
  qed
qed

section \<open>The mirror is memory\<close>

lemma eeprom_write_ok:
  assumes "eeprom_ok base c e m"
  shows "\<exists>m'. eeprom_ok base c (eeprom_write a b e) m'"
  using assms by (auto simp: eeprom_ok_def eeprom_write_def)

lemma eeprom_read_write:
  assumes "eeprom_ok base c e m" "0 \<le> a" "a < int (ee_size e)"
  shows "eeprom_read a' (eeprom_write a b e) = (if a' = a then b else eeprom_read a' e)"
  using assms by (auto simp: eeprom_ok_def eeprom_write_def eeprom_read_def nth_list_update nat_eq_iff)

lemma eeprom_get_put:
  assumes "eeprom_ok base c e m" "0 \<le> a" "a + int (size bs) \<le> int (ee_size e)"
  shows "eeprom_get a (size bs) (eeprom_put a bs e) = Some bs"
  using assms by (auto simp: eeprom_ok_def eeprom_put_def eeprom_get_def)

text \<open>A blank chip, a two-byte EEPROM with one byte written.\<close>

definition demo_base :: u32 where "demo_base = 0x080EC000"
definition demo_chip :: chip where
  "demo_chip = \<lparr>ch_cells = (\<lambda>_. 0), ch_buf = (\<lambda>_. 0), ch_last = 0, ch_regs = (\<lambda>_. 0)\<rparr>"
definition demo_eeprom :: eeprom where
  "demo_eeprom = eeprom_write 0 7 (snd (eeprom_begin True demo_base (ch_cells demo_chip) 2 eeprom_zero))"

lemma demo_find: "findActivePage (\<lambda>_. 0) base = -1"
proof -
  have "word_at (\<lambda>_. 0) a = 0" for a by (simp add: word_at_eq)
  then have "\<not> page_ok (\<lambda>_. 0) a" for a by (simp add: page_ok_def header_at_def Let_def EEPROM_MAGIC_def)
  then show ?thesis by (simp add: findActivePage_eq)
qed

lemma demo_eeprom_eq:
  "demo_eeprom = \<lparr>ee_mirror = Some [7, 0xFF], ee_size = 2, ee_active = -1, ee_dirty = True, ee_serial = 0\<rparr>"
proof -
  have "replicate 2 (0xFF :: u8) = [0xFF, 0xFF]" by (simp add: numeral_2_eq_2)
  then show ?thesis
    by (simp add: demo_eeprom_def demo_chip_def eeprom_begin_def eeprom_load_eq demo_find eeprom_zero_def
        eeprom_write_def EEPROM_MAX_SIZE_def EEPROM_PAGE_SIZE_def)
qed

lemma demo_ok: "eeprom_ok demo_base (ch_cells demo_chip) demo_eeprom [7, 0xFF]"
  by (simp add: eeprom_ok_def demo_eeprom_eq demo_chip_def demo_find EEPROM_MAX_SIZE_def EEPROM_PAGE_SIZE_def)

text \<open>
  A supply that fails in the second call, the program of the header page, after the magic
  and the serial number: the size is still erased.
\<close>

definition demo_fed :: fed_chip where
  "demo_fed = \<lparr>sp_chip = demo_chip, sp_on = True, sp_left = 1,
     sp_torn = (\<lambda>x. if unat (x - demo_base) < 8
       then page_image (commit_header demo_eeprom [7, 0xFF]) [7, 0xFF] 2 (unat (x - demo_base)) else erased_byte x)\<rparr>"

lemma demo_tear:
  assumes "sp_torn s = sp_torn demo_fed"
  shows "ch_cells (sp_chip (tear demo_base 256 s)) =
      (\<lambda>x. if unat (x - demo_base) < 256 then sp_torn demo_fed x else ch_cells (sp_chip s) x)"
    "word_at (ch_cells (sp_chip (tear demo_base 256 s))) demo_base = EEPROM_MAGIC"
proof -
  let ?c = "\<lambda>x. if unat (x - demo_base) < 256 then sp_torn demo_fed x else ch_cells (sp_chip s) x"
  let ?h = "commit_header demo_eeprom [7, 0xFF]"
  have "unat (demo_base + 8 + 1 - demo_base) = 9" "unat (demo_base + 8 - demo_base) = 8"
    "unat (demo_base + 8 + 2 - demo_base) = 10" "unat (demo_base + 8 + 3 - demo_base) = 11"
    by (simp_all add: demo_base_def)
  then have "word_at ?c (demo_base + 8) = 0xE339E339"
    by (simp add: word_at_eq demo_fed_def erased_byte_def le_bytes_def FLASH_ERASED_WORD_def demo_base_def)
  then have "\<not> page_ok ?c demo_base"
    by (auto simp: page_ok_def header_at_def Let_def EEPROM_MAX_SIZE_def EEPROM_PAGE_SIZE_def)
  then show t: "ch_cells (sp_chip (tear demo_base 256 s)) = ?c"
    unfolding tear_def assms Let_def by simp
  have "unat (demo_base + 1 - demo_base) = 1" "unat (demo_base + 2 - demo_base) = 2" "unat (demo_base + 3 - demo_base) = 3"
    by (simp_all add: demo_base_def)
  then have "word_at ?c demo_base = EEPROM_MAGIC"
    by (simp add: word_at_eq demo_fed_def page_image_def header_bytes_def le_bytes_def commit_header_def Let_def
        EEPROM_MAGIC_def)
  then show "word_at (ch_cells (sp_chip (tear demo_base 256 s))) demo_base = EEPROM_MAGIC" by (simp only: t)
qed

theorem eeprom_survives_power_cut_witness:
  "\<exists>d'. eeprom_commit supply_er supply_wr demo_base (demo_eeprom, demo_fed) = Some (False, demo_eeprom, d') \<and>
     \<not> sp_on d' \<and> word_at (ch_cells (sp_chip d')) demo_base = EEPROM_MAGIC \<and>
     (let load = (\<lambda>d. eeprom_load (ch_cells (sp_chip d)) demo_base 2)
      in load d' = load demo_fed \<or> load d' = fit 2 [7, 0xFF])"
proof -
  obtain d1 where d1: "flash_erase chip V5F demo_base 0x2000 demo_chip = Some (True, d1)"
    using chip_erase [of V5F demo_base demo_chip] by (auto simp: demo_base_def)
  let ?s1 = "demo_fed\<lparr>sp_chip := d1, sp_left := 0\<rparr>" and ?buf = "commit_buf (commit_header demo_eeprom [7, 0xFF]) [7, 0xFF] 2 0"
  have er: "supply_er demo_base demo_fed = Some (True, ?s1)"
    using d1 by (simp add: supply_er_def supplied_def demo_fed_def)
  have wr: "supply_wr demo_base ?buf ?s1 = Some (False, tear demo_base 256 ?s1)"
    using commit_buf_image(1) by (simp add: supply_wr_def supplied_def demo_fed_def)
  have p: "commit_pages 2 = Suc 0" by (simp add: commit_pages_def LL_PROG_PAGE_def)
  have t: "page_address demo_base (commit_target demo_eeprom) = demo_base"
    by (simp add: commit_target_def demo_eeprom_eq)
  have m: "ee_mirror demo_eeprom = Some [7, 0xFF]" "ee_dirty demo_eeprom" "ee_size demo_eeprom = 2"
    "ee_serial demo_eeprom \<noteq> - 1" by (simp_all add: demo_eeprom_eq)
  have c: "eeprom_commit supply_er supply_wr demo_base (demo_eeprom, demo_fed) =
      Some (False, demo_eeprom, tear demo_base 256 ?s1)"
    using er wr by (simp add: eeprom_commit_def m t p Let_def)
  have ok: "eeprom_ok demo_base (ch_cells (sp_chip demo_fed)) demo_eeprom [7, 0xFF]"
    using demo_ok by (simp add: demo_fed_def)
  have tn: "sp_torn ?s1 = sp_torn demo_fed" by simp
  show ?thesis
    using eeprom_survives_power_cut [OF fed.supplied_device_axioms ok m(4,2), of 2] c demo_tear(2) [OF tn]
    by (simp add: Let_def)
qed

theorem eeprom_commit_reads_back_witness:
  "\<exists>e' d'. eeprom_commit (\<lambda>a. flash_erase chip V5F a 0x2000) (\<lambda>a bs. flash_write chip V5F a bs 256) demo_base
      (demo_eeprom, demo_chip) = Some (True, e', d') \<and>
    eeprom_begin True demo_base (ch_cells d') 2 eeprom_zero = (True, e') \<and> ee_mirror e' = Some [7, 0xFF]"
proof -
  let ?er = "\<lambda>a. flash_erase chip V5F a 0x2000" and ?wr = "\<lambda>a bs. flash_write chip V5F a bs 256"
  obtain d1 where d1: "flash_erase chip V5F demo_base 0x2000 demo_chip = Some (True, d1)"
    using chip_erase [of V5F demo_base demo_chip] by (auto simp: demo_base_def)
  let ?buf = "commit_buf (commit_header demo_eeprom [7, 0xFF]) [7, 0xFF] 2 0"
  obtain d2 where d2: "flash_write chip V5F demo_base ?buf 256 d1 = Some (True, d2)"
    using chip_write [OF commit_buf_image(1), of V5F demo_base "commit_header demo_eeprom [7, 0xFF]" "[7, 0xFF]" 2 0 d1]
    by (auto simp: demo_base_def)
  have p: "commit_pages 2 = Suc 0" by (simp add: commit_pages_def LL_PROG_PAGE_def)
  have t: "page_address demo_base (commit_target demo_eeprom) = demo_base"
    by (simp add: commit_target_def demo_eeprom_eq)
  have m: "ee_mirror demo_eeprom = Some [7, 0xFF]" "ee_dirty demo_eeprom" "ee_size demo_eeprom = 2"
    by (simp_all add: demo_eeprom_eq)
  obtain e' where c: "eeprom_commit ?er ?wr demo_base (demo_eeprom, demo_chip) = Some (True, e', d2)"
    using d1 d2 by (simp add: eeprom_commit_def m t p Let_def)
  have "ee_serial demo_eeprom \<noteq> - 1" by (simp add: demo_eeprom_eq)
  from eeprom_commit_reads_back [OF chip.flash_device_axioms demo_ok this m(2) c]
  show ?thesis using c m(3) by auto
qed

end
