(* ===== verification/Rtc.thy ===== *)
theory Rtc
  imports Timing
begin

text \<open>
  The real-time clock and the C library's view of the time (\<^verbatim>\<open>ch32h4_rtc.c\<close>,
  \<^verbatim>\<open>ch32h4_fatfs_time.c\<close>).  \<open>time_t\<close> is an integer; \<open>K\<close> names the vendor's
  constants.
\<close>

section \<open>Bounded waits\<close>

definition RTC_LSE_HZ :: u32 where "RTC_LSE_HZ = 32768"
definition RTC_LSI_HZ :: u32 where "RTC_LSI_HZ = 40000"
definition RTC_STARTUP_MS :: u32 where "RTC_STARTUP_MS = 1500"
definition RTC_REG_MS :: u32 where "RTC_REG_MS = 100"
definition RTC_EPOCH_OFFSET :: u32 where "RTC_EPOCH_OFFSET = 946684800"
definition RTC_SET_THRESHOLD :: u32 where "RTC_SET_THRESHOLD = 757382400"

definition SRC_NONE :: u8 where "SRC_NONE = 0"
definition SRC_LSE :: u8 where "SRC_LSE = 1"
definition SRC_LSI :: u8 where "SRC_LSI = 2"
definition SRC_HSE :: u8 where "SRC_HSE = 3"

definition BDCTLR :: reg where "BDCTLR = REG ''RCC.BDCTLR''"
definition CTLRL :: reg where "CTLRL = REG ''RTC.CTLRL''"

definition RTC_HSE_HZ :: "(string \<Rightarrow> u32) \<Rightarrow> u32" where
  "RTC_HSE_HZ K = K ''HSE_VALUE'' div 512"

definition bdctlr_try :: "'d machine \<Rightarrow> u32 \<Rightarrow> u32 \<Rightarrow> 'd \<Rightarrow> bool \<times> 'd" where
  "bdctlr_try M clear sets d =
     (case m_rd M BDCTLR d of (v, d) \<Rightarrow>
      case m_rd M BDCTLR (m_wr M BDCTLR ((v AND NOT clear) OR sets) d) of (w, d) \<Rightarrow>
        (w AND clear AND NOT sets = 0 \<and> w AND sets = sets, d))"

definition bdctlr_write :: "'d machine \<Rightarrow> u32 \<Rightarrow> u32 \<Rightarrow> 'd \<Rightarrow> (bool \<times> 'd) option" where
  "bdctlr_write M clear sets = wait_until M (bdctlr_try M clear sets) RTC_REG_MS"

definition rtc_flag_set :: "'d machine \<Rightarrow> u32 \<Rightarrow> 'd \<Rightarrow> bool \<times> 'd" where
  "rtc_flag_set M flag d = (case m_rd M CTLRL d of (v, d) \<Rightarrow> (v AND flag \<noteq> 0, d))"

definition rtc_wait_flag :: "'d machine \<Rightarrow> u32 \<Rightarrow> 'd \<Rightarrow> (bool \<times> 'd) option" where
  "rtc_wait_flag M flag = wait_until M (rtc_flag_set M flag) RTC_REG_MS"

definition rtc_wait_write :: "'d machine \<Rightarrow> (string \<Rightarrow> u32) \<Rightarrow> 'd \<Rightarrow> (bool \<times> 'd) option" where
  "rtc_wait_write M K = rtc_wait_flag M (K ''RTC_FLAG_RTOFF'')"

definition rtc_wait_sync :: "'d machine \<Rightarrow> (string \<Rightarrow> u32) \<Rightarrow> 'd \<Rightarrow> (bool \<times> 'd) option" where
  "rtc_wait_sync M K d =
     rtc_wait_flag M (K ''RTC_FLAG_RSF'') (m_and M CTLRL (ucast (ucast (NOT (K ''RTC_FLAG_RSF'')) :: u16)) d)"

section \<open>Starting the clock\<close>

record rtc =
  s_source :: u8
  s_hz :: u32

definition rtc_zero :: rtc where "rtc_zero = \<lparr>s_source = 0, s_hz = 0\<rparr>"

definition source_hz :: "(string \<Rightarrow> u32) \<Rightarrow> u8 \<Rightarrow> u32" where
  "source_hz K source = (if source = SRC_LSE then RTC_LSE_HZ else if source = SRC_LSI then RTC_LSI_HZ else RTC_HSE_HZ K)"

definition rtc_source :: "'d machine \<Rightarrow> (string \<Rightarrow> u32) \<Rightarrow> 'd \<Rightarrow> u8 \<times> 'd" where
  "rtc_source M K d = (case m_rd M BDCTLR d of (bd, d) \<Rightarrow>
     (if bd AND K ''RCC_RTCEN'' = 0 then SRC_NONE
      else (let s = bd AND K ''RCC_RTCSEL'' in
            if s = K ''RCC_RTCCLKSource_LSE'' then SRC_LSE
            else if s = K ''RCC_RTCCLKSource_LSI'' then SRC_LSI
            else if s = K ''RCC_RTCCLKSource_HSE_Div512'' then SRC_HSE else SRC_NONE), d))"

definition rtc_hz :: "rtc \<Rightarrow> u32" where "rtc_hz st = s_hz st"
definition rtc_running :: "rtc \<Rightarrow> bool" where "rtc_running st \<longleftrightarrow> s_source st \<noteq> SRC_NONE"

definition rcc_flag :: "'d machine \<Rightarrow> string \<Rightarrow> 'd \<Rightarrow> bool \<times> 'd" where
  "rcc_flag M f d = (case m_ask M (Call ''RCC_GetFlagStatus'' [Sym f]) d of (v, d) \<Rightarrow> (v \<noteq> 0, d))"

definition start_oscillator :: "'d machine \<Rightarrow> (string \<Rightarrow> u32) \<Rightarrow> u8 \<Rightarrow> 'd \<Rightarrow> (bool \<times> 'd) option" where
  "start_oscillator M K source d =
     (if source = SRC_HSE then Some (rcc_flag M ''RCC_FLAG_HSERDY'' d)
      else do { (ok, d) \<leftarrow> (if source = SRC_LSI then Some (True, m_call M (Call ''RCC_LSICmd'' [Sym ''ENABLE'']) d)
                            else bdctlr_write M (K ''RCC_LSEBYP'') (K ''RCC_LSEON'') d);
                if \<not> ok then Some (False, d)
                else wait_until M (rcc_flag M (if source = SRC_LSI then ''RCC_FLAG_LSIRDY'' else ''RCC_FLAG_LSERDY''))
                       RTC_STARTUP_MS d })"

text \<open>\<open>if (!a || !b || ...) return false;\<close>: the steps up to the first that fails.\<close>

fun all_of :: "('d \<Rightarrow> (bool \<times> 'd) option) list \<Rightarrow> 'd \<Rightarrow> (bool \<times> 'd) option" where
  "all_of [] d = Some (True, d)"
| "all_of (f # fs) d = do { (ok, d) \<leftarrow> f d; if ok then all_of fs d else Some (False, d) }"

definition rtcsel :: "(string \<Rightarrow> u32) \<Rightarrow> u8 \<Rightarrow> u32" where
  "rtcsel K source = (if source = SRC_LSE then K ''RCC_RTCCLKSource_LSE''
     else if source = SRC_LSI then K ''RCC_RTCCLKSource_LSI'' else K ''RCC_RTCCLKSource_HSE_Div512'')"

definition configure_steps :: "'d machine \<Rightarrow> (string \<Rightarrow> u32) \<Rightarrow> u8 \<Rightarrow> ('d \<Rightarrow> (bool \<times> 'd) option) list" where
  "configure_steps M K source =
     [bdctlr_write M 0 (K ''RCC_BDRST''), bdctlr_write M (K ''RCC_BDRST'') 0,
      \<lambda>d. start_oscillator M K source (m_call M (Call ''PWR_BackupAccessCmd'' [Sym ''ENABLE'']) d),
      bdctlr_write M (K ''RCC_RTCSEL'') (rtcsel K source), bdctlr_write M 0 (K ''RCC_RTCEN''),
      rtc_wait_write M K, rtc_wait_sync M K, rtc_wait_write M K,
      \<lambda>d. rtc_wait_write M K (m_call M (Call ''RTC_SetPrescaler'' [Num (source_hz K source - 1)]) d)]"

definition configure_inner :: "'d machine \<Rightarrow> (string \<Rightarrow> u32) \<Rightarrow> u8 \<Rightarrow> rtc \<times> 'd \<Rightarrow> (bool \<times> rtc \<times> 'd) option" where
  "configure_inner M K source s = (case s of (st, d) \<Rightarrow>
     (let d = do_all
        [m_call M (Call ''RCC_HB1PeriphClockCmd'' [Num (K ''RCC_HB1Periph_PWR'' OR K ''RCC_HB1Periph_BKP''), Sym ''ENABLE'']),
         m_touch M (REG ''RCC.HB1PCENR''), m_call M (Call ''PWR_BackupAccessCmd'' [Sym ''ENABLE''])] d in
      case rtc_source M K d of (cur, d) \<Rightarrow>
        do { (ok, d) \<leftarrow> (if cur = source then rtc_wait_sync M K d else all_of (configure_steps M K source) d);
             Some (ok, if ok then \<lparr>s_source = source, s_hz = source_hz K source\<rparr> else st, d) }))"

definition rtc_begin :: "'d machine \<Rightarrow> (string \<Rightarrow> u32) \<Rightarrow> u8 \<Rightarrow> rtc \<times> 'd \<Rightarrow> (bool \<times> rtc \<times> 'd) option" where
  "rtc_begin M K src s =
     (if src = SRC_NONE then Some (False, s)
      else do { (ok, st, d) \<leftarrow> configure_inner M K src s;
                if ok then Some (True, st, d)
                else do { (_, d) \<leftarrow> bdctlr_write M (K ''RCC_BDRST'') 0 d;
                          Some (False, \<lparr>s_source = SRC_NONE, s_hz = 0\<rparr>, d) } })"

section \<open>The time\<close>

definition get_counter :: "'d machine \<Rightarrow> 'd \<Rightarrow> u32 \<times> 'd" where
  "get_counter M = m_ask M (Call ''RTC_GetCounter'' [])"

definition get_divider :: "'d machine \<Rightarrow> 'd \<Rightarrow> u32 \<times> 'd" where
  "get_divider M = m_ask M (Call ''RTC_GetDivider'' [])"

definition rtc_ticks :: "'d machine \<Rightarrow> rtc \<times> 'd \<Rightarrow> u32 \<times> 'd" where
  "rtc_ticks M s = (case s of (st, d) \<Rightarrow> if s_source st \<noteq> 0 then get_counter M d else (0, d))"

text \<open>\<open>do { cnt; div; again; } while (cnt != again);\<close>\<close>

partial_function (option) rtc_sample :: "'d machine \<Rightarrow> 'd \<Rightarrow> ((u32 \<times> u32) \<times> 'd) option" where
  "rtc_sample M d =
     (case get_counter M d of (cnt, d) \<Rightarrow> case get_divider M d of (dv, d) \<Rightarrow> case get_counter M d of (again, d) \<Rightarrow>
        if cnt \<noteq> again then rtc_sample M d else Some ((cnt, dv), d))"

declare rtc_sample.simps [code]

definition rtc_seconds :: "u32 \<Rightarrow> int" where
  "rtc_seconds cnt = uint (cnt + RTC_EPOCH_OFFSET)"

definition rtc_micros :: "u32 \<Rightarrow> u32 \<Rightarrow> u32" where
  "rtc_micros hz dv =
     (let prl = hz - 1; elapsed = (if dv > prl then 0 else prl - dv)
      in ucast ((ucast elapsed * 1000000 :: u64) div ucast hz))"

definition rtc_get :: "'d machine \<Rightarrow> rtc \<times> 'd \<Rightarrow> ((int \<times> u32) option \<times> 'd) option" where
  "rtc_get M s = (case s of (st, d) \<Rightarrow>
     if s_source st = SRC_NONE then Some (None, d)
     else do { ((cnt, dv), d) \<leftarrow> rtc_sample M d; Some (Some (rtc_seconds cnt, rtc_micros (s_hz st) dv), d) })"

definition rtc_set :: "'d machine \<Rightarrow> (string \<Rightarrow> u32) \<Rightarrow> int \<Rightarrow> rtc \<times> 'd \<Rightarrow> (bool \<times> 'd) option" where
  "rtc_set M K seconds s = (case s of (st, d) \<Rightarrow>
     if s_source st = SRC_NONE then Some (False, d)
     else if seconds < uint RTC_EPOCH_OFFSET then Some (False, d)
     else do { (ok, d) \<leftarrow> rtc_wait_write M K d;
               if \<not> ok then Some (False, d)
               else rtc_wait_write M K
                 (m_call M (Call ''RTC_SetCounter'' [Num (word_of_int seconds - RTC_EPOCH_OFFSET)]) d) })"

definition rtc_is_set :: "'d machine \<Rightarrow> rtc \<times> 'd \<Rightarrow> bool \<times> 'd" where
  "rtc_is_set M s = (case s of (st, d) \<Rightarrow>
     if s_source st = SRC_NONE then (False, d)
     else (case get_counter M d of (c, d) \<Rightarrow> (c \<ge> RTC_SET_THRESHOLD, d)))"

text \<open>The result and, where the pointer is not null, what is stored through it.\<close>

definition gettimeofday :: "'d machine \<Rightarrow> bool \<Rightarrow> rtc \<times> 'd \<Rightarrow> (int \<times> (int \<times> u32) option \<times> 'd) option" where
  "gettimeofday M tv s =
     (if \<not> tv then Some (-1, None, snd s)
      else do { (r, d) \<leftarrow> rtc_get M s;
                Some (case r of None \<Rightarrow> (-1, Some (0, 0), d) | Some x \<Rightarrow> (0, Some x, d)) })"

definition settimeofday :: "'d machine \<Rightarrow> (string \<Rightarrow> u32) \<Rightarrow> int option \<Rightarrow> rtc \<times> 'd \<Rightarrow> (int \<times> 'd) option" where
  "settimeofday M K tv s = (case tv of None \<Rightarrow> Some (-1, snd s)
     | Some sec \<Rightarrow> do { (ok, d) \<leftarrow> rtc_set M K sec s; Some (if ok then 0 else -1, d) })"

section \<open>File timestamps\<close>

record tm =
  tm_year :: int
  tm_mon :: int
  tm_mday :: int
  tm_hour :: int
  tm_min :: int
  tm_sec :: int

text \<open>\<open>g\<close>: the C library's \<open>gmtime_r\<close> of \<open>time(NULL)\<close>, when the clock is set.\<close>

definition FF_NORTC_MON :: u32 where "FF_NORTC_MON = 1"
definition FF_NORTC_MDAY :: u32 where "FF_NORTC_MDAY = 1"
definition FF_NORTC_YEAR :: u32 where "FF_NORTC_YEAR = 2026"

definition get_fattime :: "bool \<Rightarrow> tm option \<Rightarrow> u32" where
  "get_fattime is_set g =
     (case (if is_set then g else None) of
        Some t \<Rightarrow>
          if tm_year t \<ge> 80
          then push_bit 25 (word_of_int (tm_year t - 80)) OR push_bit 21 (word_of_int (tm_mon t + 1)) OR
               push_bit 16 (word_of_int (tm_mday t)) OR push_bit 11 (word_of_int (tm_hour t)) OR
               push_bit 5 (word_of_int (tm_min t)) OR word_of_int (tm_sec t div 2)
          else push_bit 25 (FF_NORTC_YEAR - 1980) OR push_bit 21 (FF_NORTC_MON) OR push_bit 16 (FF_NORTC_MDAY)
      | None \<Rightarrow> push_bit 25 (FF_NORTC_YEAR - 1980) OR push_bit 21 (FF_NORTC_MON) OR push_bit 16 (FF_NORTC_MDAY))"

section \<open>No call hangs\<close>

text \<open>Every step returns, and time does not run backwards.\<close>

definition returns :: "('d \<Rightarrow> nat) \<Rightarrow> ('d \<Rightarrow> (bool \<times> 'd) option) \<Rightarrow> bool" where
  "returns T f \<longleftrightarrow> (\<forall>d. \<exists>ok d'. f d = Some (ok, d') \<and> T d \<le> T d')"

lemma returns_after: "returns T f \<Longrightarrow> goes_on T R n g \<Longrightarrow> returns T (\<lambda>d. f (g d))"
  unfolding returns_def by (meson goes_on_mono le_trans)

lemma returns_all_of: "list_all (returns T) fs \<Longrightarrow> returns T (all_of fs)"
proof (induction fs)
  case (Cons f fs)
  show ?case unfolding returns_def
  proof
    fix d
    have "returns T f" "returns T (all_of fs)" using Cons by simp_all
    then obtain ok d1 ok' d2 where f: "f d = Some (ok, d1)" "T d \<le> T d1" "all_of fs d1 = Some (ok', d2)" "T d1 \<le> T d2"
      unfolding returns_def by metis
    have "all_of (f # fs) d = (if ok then Some (ok', d2) else Some (False, d1))" using f by simp
    moreover have "T d \<le> T d2" using f(2,4) by simp
    ultimately show "\<exists>ok d'. all_of (f # fs) d = Some (ok, d') \<and> T d \<le> T d'" using f(2)
      by (intro exI [of _ "ok \<and> ok'"] exI [of _ "if ok then d2 else d1"]) simp
  qed
qed (auto simp: returns_def intro: exI [of _ True])

lemma rtc_conditions:
  assumes M: "clock_runs T R M"
  shows "goes_on T R 3 (\<lambda>d. snd (bdctlr_try M clear sets d))" "goes_on T R 3 (\<lambda>d. snd (rtc_flag_set M flag d))"
    "goes_on T R 3 (\<lambda>d. snd (rcc_flag M f d))" "goes_on T R 2 (m_and M r x)" "goes_on T R 1 (m_touch M r)"
proof -
  note g = clock_runs_goes_on [OF M]
  have two: "goes_on T R 2 (\<lambda>d. m_wr M r (h (fst (m_rd M r d))) (snd (m_rd M r d)))" for r h
    unfolding goes_on_def
  proof
    fix d
    let ?v = "h (fst (m_rd M r d))" and ?d = "snd (m_rd M r d)"
    show "T d \<le> T (m_wr M r ?v ?d) \<and> T (m_wr M r ?v ?d) \<le> T d + 2 * 67108863 \<and>
        (T (m_wr M r ?v ?d) = T d \<longrightarrow> R (m_wr M r ?v ?d) \<le> R d)"
      using g(1) [unfolded goes_on_def, rule_format, of d r] g(2) [unfolded goes_on_def, rule_format, of ?d r ?v] by auto
  qed
  show "goes_on T R 3 (\<lambda>d. snd (bdctlr_try M clear sets d))"
    using goes_on_comp [OF two [where h = "\<lambda>v. (v AND NOT clear) OR sets" and r = BDCTLR] g(1)]
    by (simp add: bdctlr_try_def split_beta)
  show "goes_on T R 2 (m_and M r x)" using two [where h = "\<lambda>v. v AND x" and r = r] by (simp add: m_and_def [abs_def] split_beta)
  show "goes_on T R 3 (\<lambda>d. snd (rtc_flag_set M flag d))" using goes_on_more [OF g(1)] by (simp add: rtc_flag_set_def split_beta)
  show "goes_on T R 3 (\<lambda>d. snd (rcc_flag M f d))" using goes_on_more [OF g(4)] by (simp add: rcc_flag_def split_beta)
  show "goes_on T R 1 (m_touch M r)" using g(1) by (simp add: m_touch_def [abs_def])
qed

lemma rtc_waits_return:
  assumes M: "clock_runs T R M"
  shows "returns T (bdctlr_write M clear sets)" "returns T (rtc_wait_flag M flag)" "returns T (rtc_wait_write M K)"
    "returns T (rtc_wait_sync M K)" "returns T (start_oscillator M K source)"
proof -
  note w = wait_until_returns [OF M] and c = rtc_conditions [OF M]
  have m: "unat RTC_REG_MS < 1073741824" "unat RTC_STARTUP_MS < 1073741824"
    by (simp_all add: RTC_REG_MS_def RTC_STARTUP_MS_def)
  show b: "returns T (bdctlr_write M clear sets)" for clear sets
    unfolding returns_def bdctlr_write_def using w [OF c(1) m(1)] by blast
  show f: "returns T (rtc_wait_flag M flag)" for flag
    unfolding returns_def rtc_wait_flag_def using w [OF c(2) m(1)] by blast
  show "returns T (rtc_wait_write M K)" using f by (simp add: rtc_wait_write_def)
  show "returns T (rtc_wait_sync M K)" using returns_after [OF f c(4)] by (simp add: rtc_wait_sync_def [abs_def])
  show "returns T (start_oscillator M K source)" unfolding returns_def
  proof
    fix d
    have osc: "\<exists>ok d'. wait_until M (rcc_flag M n) RTC_STARTUP_MS d = Some (ok, d') \<and> T d \<le> T d'" for n d
      using w [OF c(3) m(2)] by blast
    obtain ok d1 where l: "(if source = SRC_LSI then Some (True, m_call M (Call ''RCC_LSICmd'' [Sym ''ENABLE'']) d)
        else bdctlr_write M (K ''RCC_LSEBYP'') (K ''RCC_LSEON'') d) = Some (ok, d1)" "T d \<le> T d1"
      using b [unfolded returns_def] goes_on_mono [OF clock_runs_goes_on(3) [OF M]] by (metis (full_types))
    have h: "T d \<le> T (snd (rcc_flag M n d))" for n by (rule goes_on_mono [OF c(3)])
    show "\<exists>ok d'. start_oscillator M K source d = Some (ok, d') \<and> T d \<le> T d'"
    proof (cases "source = SRC_HSE \<or> \<not> ok")
      case True
      have hse: "start_oscillator M K source d = Some (rcc_flag M ''RCC_FLAG_HSERDY'' d)" if "source = SRC_HSE"
        using that by (simp add: start_oscillator_def)
      have fail: "start_oscillator M K source d = Some (False, d1)" if "source \<noteq> SRC_HSE"
        using that True l(1) by (simp add: start_oscillator_def)
      show ?thesis using hse fail l(2) h [of "''RCC_FLAG_HSERDY''"]
        by (cases "source = SRC_HSE"; cases "rcc_flag M ''RCC_FLAG_HSERDY'' d") auto
    next
      case False
      obtain ok2 d2 where "wait_until M (rcc_flag M (if source = SRC_LSI then ''RCC_FLAG_LSIRDY'' else ''RCC_FLAG_LSERDY''))
          RTC_STARTUP_MS d1 = Some (ok2, d2)" "T d1 \<le> T d2" using osc by blast
      then show ?thesis using False l by (simp add: start_oscillator_def)
    qed
  qed
qed

lemma configure_inner_returns:
  assumes M: "clock_runs T R M"
  shows "\<exists>ok st' d'. configure_inner M K source (st, d) = Some (ok, st', d') \<and> T d \<le> T d' \<and>
    st' = (if ok then \<lparr>s_source = source, s_hz = source_hz K source\<rparr> else st)"
proof -
  let ?d = "do_all [m_call M (Call ''RCC_HB1PeriphClockCmd'' [Num (K ''RCC_HB1Periph_PWR'' OR K ''RCC_HB1Periph_BKP''), Sym ''ENABLE'']),
         m_touch M (REG ''RCC.HB1PCENR''), m_call M (Call ''PWR_BackupAccessCmd'' [Sym ''ENABLE''])] d"
  note g = clock_runs_goes_on [OF M] and w = rtc_waits_return [OF M]
  have t: "T d \<le> T ?d"
    using goes_on_mono [OF g(3)] goes_on_mono [OF rtc_conditions(5) [OF M]] by (simp, meson le_trans)
  obtain cur d1 where c: "rtc_source M K ?d = (cur, d1)" by fastforce
  have t1: "T ?d \<le> T d1"
    using c goes_on_mono [OF g(1), of ?d BDCTLR] by (auto simp: rtc_source_def split: prod.splits)
  have "returns T (all_of (configure_steps M K source))"
    by (rule returns_all_of) (use w in \<open>auto simp: configure_steps_def intro: returns_after g(3)\<close>)
  then obtain ok d2 where r: "(if cur = source then rtc_wait_sync M K d1 else all_of (configure_steps M K source) d1) = Some (ok, d2)"
    "T d1 \<le> T d2"
    using w(4) unfolding returns_def by (metis (full_types))
  have "configure_inner M K source (st, d) = Some (ok, if ok then \<lparr>s_source = source, s_hz = source_hz K source\<rparr> else st, d2)"
    using c r(1) by (simp add: configure_inner_def Let_def)
  moreover have "T d \<le> T d2" using t t1 r(2) by linarith
  ultimately show ?thesis by blast
qed

text \<open>
  C39.  Starting the clock never hangs.  With a running tick \<open>ch32h4_rtc_begin\<close> returns,
  whatever the oscillator, the backup domain and the RTC's flags do.  On success the source
  asked for is recorded with its rate; on failure no source is, and the backup domain's
  reset has just been read back as released unless the whole register timeout passed trying.
\<close>

theorem rtc_begin_never_hangs:
  assumes "clock_runs T R M"
  shows "\<exists>ok st' d'. rtc_begin M K src (st, d) = Some (ok, st', d') \<and> T d \<le> T d' \<and>
    (ok \<longrightarrow> src \<noteq> SRC_NONE \<and> st' = \<lparr>s_source = src, s_hz = source_hz K src\<rparr>) \<and>
    (\<not> ok \<and> src \<noteq> SRC_NONE \<longrightarrow> \<not> rtc_running st' \<and>
       ((\<exists>d0. bdctlr_try M (K ''RCC_BDRST'') 0 d0 = (True, d')) \<or> T d + 100 < T d'))"
proof (cases "src = SRC_NONE")
  case True
  then show ?thesis by (intro exI [of _ False] exI [of _ st] exI [of _ d]) (simp add: rtc_begin_def)
next
  case False
  obtain ok st1 d1 where c: "configure_inner M K src (st, d) = Some (ok, st1, d1)" "T d \<le> T d1"
    "st1 = (if ok then \<lparr>s_source = src, s_hz = source_hz K src\<rparr> else st)"
    using configure_inner_returns [OF assms] by blast
  have m: "unat RTC_REG_MS < 1073741824" "unat RTC_REG_MS = 100" by (simp_all add: RTC_REG_MS_def)
  obtain ok2 d2 where b: "bdctlr_write M (K ''RCC_BDRST'') 0 d1 = Some (ok2, d2)" "T d1 \<le> T d2"
    "if ok2 then \<exists>d0. bdctlr_try M (K ''RCC_BDRST'') 0 d0 = (True, d2) else T d1 + 100 < T d2"
    using wait_until_returns [OF assms rtc_conditions(1) [OF assms] m(1)] m(2)
    unfolding bdctlr_write_def by metis
  show ?thesis
  proof (cases ok)
    case True
    then have "rtc_begin M K src (st, d) = Some (True, st1, d1)" using False c(1) by (simp add: rtc_begin_def)
    then show ?thesis using True False c(2,3) by (intro exI [of _ True] exI [of _ st1] exI [of _ d1]) simp
  next
    case False2: False
    have "rtc_begin M K src (st, d) = Some (False, \<lparr>s_source = SRC_NONE, s_hz = 0\<rparr>, d2)"
      using False False2 c(1) b(1) by (simp add: rtc_begin_def)
    then show ?thesis using c(2) b(2,3) by (cases ok2) (auto simp: rtc_running_def)
  qed
qed

theorem rtc_begin_never_hangs_witness:
  "\<exists>ok st' d'. rtc_begin (sim_machine (\<lambda>_. None)) (\<lambda>_. 1) SRC_LSE (rtc_zero, sim_init) = Some (ok, st', d') \<and>
     now sim_init \<le> now d' \<and> (if ok then s_source st' = SRC_LSE else \<not> rtc_running st')"
proof -
  have "clock_runs now (\<lambda>_. 0) (sim_machine (\<lambda>_. None))"
    by (simp add: clock_runs_def goes_on_def sim_machine_def)
  from rtc_begin_never_hangs [OF this, of "\<lambda>_. 1" SRC_LSE rtc_zero sim_init]
  obtain ok st' d' where r: "rtc_begin (sim_machine (\<lambda>_. None)) (\<lambda>_. 1) SRC_LSE (rtc_zero, sim_init) = Some (ok, st', d')"
    "now sim_init \<le> now d'" "ok \<longrightarrow> st' = \<lparr>s_source = SRC_LSE, s_hz = source_hz (\<lambda>_. 1) SRC_LSE\<rparr>"
    "\<not> ok \<and> SRC_LSE \<noteq> SRC_NONE \<longrightarrow> \<not> rtc_running st'" by blast
  moreover have "SRC_LSE \<noteq> SRC_NONE" by (simp add: SRC_LSE_def SRC_NONE_def)
  ultimately show ?thesis by (cases ok) auto
qed

section \<open>Reading a consistent time\<close>

text \<open>
  The running counter: \<open>N\<close> is the number of oscillator periods since second zero, \<open>h\<close> the
  periods per second; the two registers show its quotient and what is left of the second.
  One register access takes less than a sixth of a second.
\<close>

definition rtc_runs :: "('d \<Rightarrow> nat) \<Rightarrow> nat \<Rightarrow> 'd machine \<Rightarrow> bool" where
  "rtc_runs N h M \<longleftrightarrow>
     (\<forall>d. fst (get_counter M d) = word_of_nat (N d div h)) \<and>
     (\<forall>d. fst (get_divider M d) = word_of_nat (h - 1 - N d mod h)) \<and>
     (\<forall>d. N d \<le> N (snd (get_counter M d)) \<and> 6 * N (snd (get_counter M d)) < 6 * N d + h) \<and>
     (\<forall>d. N d \<le> N (snd (get_divider M d)) \<and> 6 * N (snd (get_divider M d)) < 6 * N d + h) \<and>
     (\<forall>v d. N (m_call M (Call ''RTC_SetCounter'' [Num v]) d) div h = unat v) \<and>
     (\<forall>r d. N d \<le> N (snd (m_rd M r d))) \<and> (\<forall>d. N d \<le> N (snd (m_millis M d)))"

lemma div_next:
  fixes a b h :: nat
  assumes "a \<le> b" "b < a + h"
  shows "b div h = a div h \<or> b div h = a div h + 1 \<and> b mod h + h = a mod h + (b - a)"
proof -
  have h: "0 < h" using assms by simp
  have e: "a = h * (a div h) + a mod h" "b = h * (b div h) + b mod h" by simp_all
  have l: "a div h \<le> b div h" using assms(1) by (rule div_le_mono)
  have "b div h \<le> (a + h) div h" using assms(2) by (intro div_le_mono) simp
  moreover have "(a + h) div h = a div h + 1" using h by (simp add: div_add_self2)
  ultimately have u: "b div h \<le> a div h + 1" by simp
  have "b mod h + h = a mod h + (b - a)" if q: "b div h = a div h + 1"
  proof -
    have "b = h * (a div h) + h + b mod h" using e(2) by (simp only: q add_mult_distrib2 mult_1_right)
    then show ?thesis using e(1) assms(1) by linarith
  qed
  then show ?thesis using l u by linarith
qed

lemma word_succ_neq: "word_of_nat (n + 1) \<noteq> (word_of_nat n :: u32)"
  by simp

lemma rtc_sample_returns:
  assumes M: "rtc_runs N h M" and h: "0 < h"
  shows "\<exists>n d'. rtc_sample M d = Some ((word_of_nat (n div h), word_of_nat (h - 1 - n mod h)), d') \<and> N d \<le> n \<and> n \<le> N d'"
proof -
  define D1 where "D1 = (\<lambda>d. snd (get_counter M d))"
  define D2 where "D2 = (\<lambda>d. snd (get_divider M (D1 d)))"
  define D3 where "D3 = (\<lambda>d. snd (get_counter M (D2 d)))"
  have n: "N d \<le> N (D1 d)" "N (D1 d) \<le> N (D2 d)" "N (D2 d) \<le> N (D3 d)" "6 * N (D1 d) < 6 * N d + h"
    "6 * N (D2 d) < 6 * N (D1 d) + h" "6 * N (D3 d) < 6 * N (D2 d) + h" for d
    using M by (auto simp: rtc_runs_def D1_def D2_def D3_def)
  have s: "rtc_sample M d = (if word_of_nat (N d div h) \<noteq> (word_of_nat (N (D2 d) div h) :: u32) then rtc_sample M (D3 d)
      else Some ((word_of_nat (N d div h), word_of_nat (h - 1 - N (D1 d) mod h)), D3 d))" for d
    using M by (subst rtc_sample.simps) (simp add: rtc_runs_def split_beta D1_def D2_def D3_def)
  have ok: "\<exists>n d'. rtc_sample M d = Some ((word_of_nat (n div h), word_of_nat (h - 1 - n mod h)), d') \<and> N d \<le> n \<and> n \<le> N d'"
    if "N (D2 d) div h = N d div h" for d
  proof -
    have "N d div h \<le> N (D1 d) div h" "N (D1 d) div h \<le> N (D2 d) div h" using n by (auto intro: div_le_mono)
    then have "N (D1 d) div h = N d div h" using that by simp
    moreover have "N (D1 d) \<le> N (D3 d)" using n [of d] by linarith
    ultimately show ?thesis using s [of d] n [of d] that by (intro exI [of _ "N (D1 d)"] exI [of _ "D3 d"]) simp
  qed
  show ?thesis
  proof (cases "N (D2 d) div h = N d div h")
    case True
    then show ?thesis by (rule ok)
  next
    case False
    have "N d \<le> N (D2 d)" "N (D2 d) < N d + h" using n [of d] by auto
    from div_next [OF this] False have c: "N (D2 d) div h = N d div h + 1" "N (D2 d) mod h + h = N d mod h + (N (D2 d) - N d)"
      by auto
    have "N d mod h < h" using h by simp
    then have m: "6 * (N (D2 d) mod h) < 2 * h" using c(2) n [of d] by linarith
    let ?e = "D3 d"
    have r: "rtc_sample M d = rtc_sample M ?e" using s [of d] c(1) by simp
    have k: "N (D2 ?e) - N (D2 d) + N (D2 d) mod h < h" "N ?e - N (D2 d) + N (D2 d) mod h < h" "N (D2 d) \<le> N ?e" "N ?e \<le> N (D2 ?e)"
      using m n [of d] n [of ?e] by auto
    have same: "x div h = N (D2 d) div h" if "N (D2 d) \<le> x" "x - N (D2 d) + N (D2 d) mod h < h" for x
    proof -
      have "x < N (D2 d) + h" using that by linarith
      from div_next [OF that(1) this] that(2) show ?thesis by linarith
    qed
    have "N (D2 ?e) div h = N ?e div h" using same [of "N (D2 ?e)"] same [of "N ?e"] k by simp
    from ok [OF this] obtain m' d' where "rtc_sample M ?e = Some ((word_of_nat (m' div h), word_of_nat (h - 1 - m' mod h)), d')"
      "N ?e \<le> m'" "m' \<le> N d'" by blast
    then show ?thesis using r n [of d] by (intro exI [of _ m'] exI [of _ d']) auto
  qed
qed

lemma unat_rtc_micros:
  assumes "unat hz = h" "0 < h" "m < h"
  shows "unat (rtc_micros hz (word_of_nat (h - 1 - m))) = m * 1000000 div h"
proof -
  define v :: u32 where "v = word_of_nat (h - 1 - m)"
  have h: "h < 4294967296" using assms(1) by (metis unat_lt_2p32)
  have p: "unat (hz - 1) = h - 1" using assms(1,2) by (simp add: unat_sub_le word_le_nat_alt)
  have dv: "unat v = h - 1 - m"
    using h by (simp add: v_def unsigned_of_nat take_bit_nat_eq_self)
  have le: "\<not> v > hz - 1" using p dv by (simp add: word_less_nat_alt)
  have e: "unat (hz - 1 - v) = m"
    using p dv assms(3) by (subst unat_sub_le) (auto simp: word_le_nat_alt)
  let ?e = "hz - 1 - v"
  have "m * 1000000 < 18446744073709551616" using assms(3) h by simp
  then have m64: "unat (ucast ?e * 1000000 :: u64) = m * 1000000"
    by (simp add: unat_word_ariths unsigned_ucast_eq e take_bit_nat_eq_self)
  have h64: "unat (ucast hz :: u64) = h" using h assms(1) by (simp add: unsigned_ucast_eq take_bit_nat_eq_self)
  have "m * 1000000 div h < 1000000" using assms(2,3) by (simp add: div_less_iff_less_mult)
  moreover have "unat ((ucast ?e * 1000000 :: u64) div ucast hz) = m * 1000000 div h"
    by (simp only: unat_div m64 h64)
  ultimately have "unat (ucast ((ucast ?e * 1000000 :: u64) div ucast hz) :: u32) = m * 1000000 div h"
    by (simp add: unsigned_ucast_eq take_bit_nat_eq_self del: unat_div)
  then show ?thesis using le unfolding v_def [symmetric] by (simp add: rtc_micros_def Let_def)
qed

lemma rtc_set_sets:
  assumes M: "rtc_runs N h M" and s: "rtc_set M K t (st, d) = Some (True, d1)"
  shows "946684800 \<le> t \<and> (\<exists>n0 \<le> N d1. int (n0 div h) = (t - 946684800) mod 4294967296)"
proof -
  have mono: "N d \<le> N (snd (m_millis M d))" "N d \<le> N (snd (m_rd M r d))" for r d
    using M by (simp_all add: rtc_runs_def)
  have keep: "N d \<le> N d'" if "rtc_wait_write M K d = Some (ok, d')" for d ok d'
  proof -
    show ?thesis
      by (rule wait_until_inv [where P = "\<lambda>x. N d \<le> N x", OF that [unfolded rtc_wait_write_def rtc_wait_flag_def]])
         (use mono in \<open>auto simp: rtc_flag_set_def split_beta intro: le_trans\<close>)
  qed
  have t: "946684800 \<le> t" "s_source st \<noteq> SRC_NONE"
    using s by (auto simp: rtc_set_def RTC_EPOCH_OFFSET_def split: if_splits)
  let ?w = "word_of_int t - RTC_EPOCH_OFFSET"
  obtain d2 where d2: "rtc_wait_write M K d = Some (True, d2)"
    "rtc_wait_write M K (m_call M (Call ''RTC_SetCounter'' [Num ?w]) d2) = Some (True, d1)"
    using s t by (auto simp: rtc_set_def RTC_EPOCH_OFFSET_def split: Option.bind_splits if_splits)
  let ?n = "N (m_call M (Call ''RTC_SetCounter'' [Num ?w]) d2)"
  have "?w = word_of_int (t - 946684800)" by (simp add: RTC_EPOCH_OFFSET_def)
  then have "int (unat ?w) = (t - 946684800) mod 4294967296"
    by (simp only: unsigned_of_int) (simp add: take_bit_eq_mod)
  moreover have "?n div h = unat ?w" using M by (simp add: rtc_runs_def)
  moreover have "?n \<le> N d1" by (rule keep [OF d2(2)])
  ultimately show ?thesis using t(1) by auto
qed

text \<open>
  C40.  A time that is set is read back.  After a successful set, a get always returns, and
  what it returns is the time at one moment between its first access and its end: the
  seconds set plus the whole seconds that have passed, modulo \<open>2 ^ 32\<close>, and the
  microseconds of the current second, rounded down and below a million; no get pairs one
  second with another's fraction.  A time before 2000 is refused.
\<close>

theorem rtc_set_then_get:
  assumes "rtc_runs N (unat (s_hz st)) M" "0 < s_hz st" "rtc_set M K t (st, d) = Some (True, d1)"
  shows "946684800 \<le> t \<and> (\<exists>n0 n s us d2. rtc_get M (st, d1) = Some (Some (s, us), d2) \<and>
    n0 \<le> N d1 \<and> N d1 \<le> n \<and> n \<le> N d2 \<and> int (n0 div unat (s_hz st)) = (t - 946684800) mod 4294967296 \<and>
    s = (t + int (n div unat (s_hz st) - n0 div unat (s_hz st))) mod 4294967296 \<and>
    unat us = n mod unat (s_hz st) * 1000000 div unat (s_hz st) \<and> unat us < 1000000)"
proof -
  let ?h = "unat (s_hz st)"
  have h: "0 < ?h" using assms(2) by (simp add: word_less_nat_alt)
  obtain n0 where n0: "946684800 \<le> t" "n0 \<le> N d1" "int (n0 div ?h) = (t - 946684800) mod 4294967296"
    using rtc_set_sets [OF assms(1,3)] by blast
  have src: "s_source st \<noteq> SRC_NONE" using assms(3) by (auto simp: rtc_set_def split: if_splits)
  obtain n d2 where n: "rtc_sample M d1 = Some ((word_of_nat (n div ?h), word_of_nat (?h - 1 - n mod ?h)), d2)"
    "N d1 \<le> n" "n \<le> N d2"
    using rtc_sample_returns [OF assms(1) h] by blast
  let ?us = "rtc_micros (s_hz st) (word_of_nat (?h - 1 - n mod ?h))"
  have g: "rtc_get M (st, d1) = Some (Some (rtc_seconds (word_of_nat (n div ?h)), ?us), d2)"
    using n(1) src by (simp add: rtc_get_def)
  have us: "unat ?us = n mod ?h * 1000000 div ?h" by (rule unat_rtc_micros [OF refl h]) (simp add: h)
  have "n mod ?h * 1000000 div ?h < 1000000" using h by (simp add: div_less_iff_less_mult)
  have "n0 div ?h \<le> n div ?h" using n0(2) n(2) by (intro div_le_mono) simp
  then have q: "int (n div ?h) = int (n0 div ?h) + int (n div ?h - n0 div ?h)" by simp
  have "rtc_seconds (word_of_nat (n div ?h)) = (int (n div ?h) + 946684800) mod 4294967296"
  proof -
    have "word_of_nat (n div ?h) + RTC_EPOCH_OFFSET = (word_of_int (int (n div ?h) + 946684800) :: u32)"
      by (simp add: RTC_EPOCH_OFFSET_def)
    then show ?thesis unfolding rtc_seconds_def by (simp only: uint_word_of_int) simp
  qed
  also have "\<dots> = ((t - 946684800) mod 4294967296 + int (n div ?h - n0 div ?h) + 946684800) mod 4294967296"
    by (simp only: q n0(3))
  also have "\<dots> = (t + int (n div ?h - n0 div ?h)) mod 4294967296"
  proof -
    have "((t - 946684800) mod 4294967296 + x + 946684800) mod 4294967296 = (t - 946684800 + (x + 946684800)) mod 4294967296" for x :: int
      by (simp only: add.assoc mod_add_left_eq)
    then show ?thesis by simp
  qed
  finally show ?thesis using g n0 n us h
    by (intro conjI exI [of _ n0] exI [of _ n] exI [of _ "rtc_seconds (word_of_nat (n div ?h))"] exI [of _ ?us] exI [of _ d2])
       (simp_all add: div_less_iff_less_mult)
qed

text \<open>The addition of the epoch wraps in 2106, although the counter itself runs to 2136.\<close>

lemma rtc_seconds_wraps: "rtc_seconds (word_of_int 4294967296 - RTC_EPOCH_OFFSET) = 0"
  by (simp add: rtc_seconds_def RTC_EPOCH_OFFSET_def)

text \<open>A clock whose oscillator advances one period per access, at 32768 Hz.\<close>

definition rtc_demo :: "nat machine" where
  "rtc_demo = \<lparr>m_rd = (\<lambda>r d. (- 1, d)), m_wr = (\<lambda>r v d. d), m_millis = (\<lambda>d. (0, d)),
     m_call = (\<lambda>c d. case c of Call n as \<Rightarrow>
        if n = ''RTC_SetCounter'' then (case as of [Num v] \<Rightarrow> unat v * 32768 | _ \<Rightarrow> d) else d),
     m_ask = (\<lambda>c d. (if c = Call ''RTC_GetCounter'' [] then word_of_nat (d div 32768)
        else word_of_nat (32767 - d mod 32768), d + 1))\<rparr>"

lemma rtc_demo_runs: "rtc_runs (\<lambda>d. d) 32768 rtc_demo"
  by (simp add: rtc_runs_def rtc_demo_def get_counter_def get_divider_def)

theorem rtc_set_then_get_witness:
  "\<exists>d1 s us d2. rtc_set rtc_demo (\<lambda>_. 1) 1000000000 (\<lparr>s_source = SRC_LSE, s_hz = 32768\<rparr>, 0) = Some (True, d1) \<and>
     rtc_get rtc_demo (\<lparr>s_source = SRC_LSE, s_hz = 32768\<rparr>, d1) = Some (Some (s, us), d2) \<and> unat us < 1000000"
proof -
  let ?st = "\<lparr>s_source = SRC_LSE, s_hz = 32768\<rparr>"
  have w: "rtc_wait_write rtc_demo (\<lambda>_. 1) d = Some (True, d)" for d
    by (simp add: rtc_wait_write_def rtc_wait_flag_def wait_until_def wait_for_def rtc_flag_set_def rtc_demo_def)
       (subst poll.simps, simp)
  have "rtc_set rtc_demo (\<lambda>_. 1) 1000000000 (?st, 0) =
      Some (True, m_call rtc_demo (Call ''RTC_SetCounter'' [Num (word_of_int 1000000000 - RTC_EPOCH_OFFSET)]) 0)"
    by (simp add: rtc_set_def w SRC_LSE_def SRC_NONE_def RTC_EPOCH_OFFSET_def)
  then obtain d1 where d1: "rtc_set rtc_demo (\<lambda>_. 1) 1000000000 (?st, 0) = Some (True, d1)" by blast
  have "rtc_runs (\<lambda>d. d) (unat (s_hz ?st)) rtc_demo" using rtc_demo_runs by simp
  from rtc_set_then_get [OF this _ d1] show ?thesis using d1 by auto
qed

end
