(* ===== verification/Sdmmc.thy ===== *)
theory Sdmmc
  imports Timing "HOL-Library.Sublist"
begin

text \<open>
  The SD card block device (\<^verbatim>\<open>ch32h4_sdmmc.c\<close>).  \<open>K\<close> names the vendor's constants and the
  address of \<open>sd_dma_buf\<close>, \<open>tk\<close> is the tick calibration the delays use.  An operation returns
  the driver's error code; \<open>None\<close> is a call that never returns or divides by zero.  A buffer
  of the caller is a list of bytes; the two DMA buffers are memory, which the controller
  writes as well.
\<close>

section \<open>Constants and state\<close>

definition SD_BLOCK_SIZE :: u32 where "SD_BLOCK_SIZE = 512"
definition SD_OK :: int where "SD_OK = 0"
definition SD_ETIMEDOUT :: int where "SD_ETIMEDOUT = -1"
definition SD_EIO :: int where "SD_EIO = -2"
definition SD_ENODEV :: int where "SD_ENODEV = -3"
definition SD_ERANGE :: int where "SD_ERANGE = -4"
definition SD_EVOLTAGE :: int where "SD_EVOLTAGE = -5"
definition SD_EPARAM :: int where "SD_EPARAM = -6"
definition SD_LOG_MAX :: nat where "SD_LOG_MAX = 24"
definition SD_SWITCH_STATUS_SIZE :: u32 where "SD_SWITCH_STATUS_SIZE = 64"
definition SD_BOUNCE_BLOCKS :: u32 where "SD_BOUNCE_BLOCKS = 8"
definition SD_R1_ERROR_MASK :: u32 where "SD_R1_ERROR_MASK = 0xFDF98008"

lemmas sd_codes = SD_OK_def SD_ETIMEDOUT_def SD_EIO_def SD_ENODEV_def SD_ERANGE_def SD_EVOLTAGE_def SD_EPARAM_def

definition GO_IDLE_STATE :: u8 where "GO_IDLE_STATE = 0"
definition ALL_SEND_CID :: u8 where "ALL_SEND_CID = 2"
definition SEND_RELATIVE_ADDR :: u8 where "SEND_RELATIVE_ADDR = 3"
definition SWITCH_FUNC :: u8 where "SWITCH_FUNC = 6"
definition SELECT_CARD :: u8 where "SELECT_CARD = 7"
definition SEND_IF_COND :: u8 where "SEND_IF_COND = 8"
definition SEND_CSD :: u8 where "SEND_CSD = 9"
definition STOP_TRANSMISSION :: u8 where "STOP_TRANSMISSION = 12"
definition SEND_STATUS :: u8 where "SEND_STATUS = 13"
definition SET_BLOCKLEN :: u8 where "SET_BLOCKLEN = 16"
definition READ_SINGLE_BLOCK :: u8 where "READ_SINGLE_BLOCK = 17"
definition READ_MULTIPLE_BLOCK :: u8 where "READ_MULTIPLE_BLOCK = 18"
definition WRITE_BLOCK :: u8 where "WRITE_BLOCK = 24"
definition WRITE_MULTIPLE_BLOCK :: u8 where "WRITE_MULTIPLE_BLOCK = 25"
definition APP_CMD :: u8 where "APP_CMD = 55"
definition SET_BUS_WIDTH :: u8 where "SET_BUS_WIDTH = 6"
definition SEND_OP_COND :: u8 where "SEND_OP_COND = 41"

definition RESP_NONE :: u32 where "RESP_NONE = 0x0000"
definition RESP_R1 :: u32 where "RESP_R1 = 0x0200 OR 0x0400 OR 0x0800"
definition RESP_R1B :: u32 where "RESP_R1B = 0x0300 OR 0x0400 OR 0x0800"
definition RESP_R2 :: u32 where "RESP_R2 = 0x0100 OR 0x0400"
definition RESP_R3 :: u32 where "RESP_R3 = 0x0200"

datatype sd_card_type = CARD_NONE | CARD_SDSC | CARD_SDHC

record sd =
  block_count :: u32
  freq :: u32
  rca :: u16
  width :: u8
  card_type :: sd_card_type
  initialised :: bool
  high_speed :: bool
  cid :: "u32 list"
  csd :: "u32 list"

record sd_log_entry =
  le_cmd :: u8
  le_flags :: u16
  le_resp :: u32

text \<open>\<open>sd_log\<close> is the part of the trace array that \<open>ch32h4_sd_log_n\<close> says is filled.\<close>

record sdmmc =
  sd_self :: sd
  sd_log :: "sd_log_entry list"
  sd_clk_hz :: u32
  sd_dma_half :: u8

type_synonym 'd sdst = "sdmmc \<times> 'd"

definition sdmmc_zero :: sdmmc where
  "sdmmc_zero = \<lparr>sd_self = \<lparr>block_count = 0, freq = 0, rca = 0, width = 0, card_type = CARD_NONE, initialised = False,
     high_speed = False, cid = [0, 0, 0, 0], csd = [0, 0, 0, 0]\<rparr>, sd_log = [], sd_clk_hz = 400000, sd_dma_half = 0\<rparr>"

definition upd_self :: "(sd \<Rightarrow> sd) \<Rightarrow> 'd sdst \<Rightarrow> 'd sdst" where
  "upd_self f s = (case s of (st, d) \<Rightarrow> (st\<lparr>sd_self := f (sd_self st)\<rparr>, d))"

definition on_hw :: "('d \<Rightarrow> 'd) \<Rightarrow> 'd sdst \<Rightarrow> 'd sdst" where
  "on_hw f s = (case s of (st, d) \<Rightarrow> (st, f d))"

definition rd_hw :: "'d machine \<Rightarrow> reg \<Rightarrow> 'd sdst \<Rightarrow> u32 \<times> 'd sdst" where
  "rd_hw M r s = (case s of (st, d) \<Rightarrow> case m_rd M r d of (v, d) \<Rightarrow> (v, (st, d)))"

definition CONTROL :: reg where "CONTROL = REG ''SDMMC.CONTROL''"
definition TIMEOUT :: reg where "TIMEOUT = REG ''SDMMC.TIMEOUT''"
definition INT_EN :: reg where "INT_EN = REG ''SDMMC.INT_EN''"
definition INT_FG :: reg where "INT_FG = REG ''SDMMC.INT_FG''"
definition TRAN_MODE :: reg where "TRAN_MODE = REG ''SDMMC.TRAN_MODE''"
definition BLOCK_CFG :: reg where "BLOCK_CFG = REG ''SDMMC.BLOCK_CFG''"
definition CLK_DIV :: reg where "CLK_DIV = REG ''SDMMC.CLK_DIV''"
definition STATUS :: reg where "STATUS = REG ''SDMMC.STATUS''"
definition ARGUMENT :: reg where "ARGUMENT = REG ''SDMMC.ARGUMENT''"
definition CMD_SET :: reg where "CMD_SET = REG ''SDMMC.CMD_SET''"
definition DMA_BEG1 :: reg where "DMA_BEG1 = REG ''SDMMC.DMA_BEG1''"
definition WRITE_CONT :: reg where "WRITE_CONT = REG ''SDMMC.WRITE_CONT''"
definition RESPONSE :: "nat \<Rightarrow> reg" where
  "RESPONSE i = REG (''SDMMC.RESPONSE'' @ (if i = 0 then ''0'' else if i = 1 then ''1'' else if i = 2 then ''2'' else ''3''))"

lemmas sd_regs = CONTROL_def TIMEOUT_def INT_EN_def INT_FG_def TRAN_MODE_def BLOCK_CFG_def CLK_DIV_def STATUS_def
  ARGUMENT_def CMD_SET_def DMA_BEG1_def WRITE_CONT_def RESPONSE_def

definition low16 :: "u32 \<Rightarrow> u32" where "low16 v = ucast (ucast v :: u16)"

text \<open>\<open>ret = f(); if (ret != 0) return ret;\<close> and a chain of them.\<close>

definition sd_then :: "('d sdst \<Rightarrow> (int \<times> 'd sdst) option) \<Rightarrow> ('d sdst \<Rightarrow> (int \<times> 'd sdst) option) \<Rightarrow>
    'd sdst \<Rightarrow> (int \<times> 'd sdst) option" where
  "sd_then f g s = do { (ret, s) \<leftarrow> f s; if ret \<noteq> 0 then Some (ret, s) else g s }"

section \<open>The controller\<close>

definition sd_cmd_gap :: "'d machine \<Rightarrow> systick \<Rightarrow> 'd sdst \<Rightarrow> 'd sdst option" where
  "sd_cmd_gap M tk s = (case s of (st, d) \<Rightarrow>
     if sd_clk_hz st = 0 then None
     else (let us = (8000000 + sd_clk_hz st - 1) div sd_clk_hz st
           in do { d \<leftarrow> delayMicroseconds M tk (if us < 1 then 1 else us) d; Some (st, d) }))"

text \<open>The mode, the divisor and the frequency they give; \<open>hz\<close> is never 0.\<close>

definition sd_clock_choice :: "(string \<Rightarrow> u32) \<Rightarrow> u32 \<Rightarrow> u32 \<Rightarrow> u32 \<times> u32 \<times> u32" where
  "sd_clock_choice K src hz =
     (let clamp = (\<lambda>dv. let dv = (if dv < 2 then 2 else dv) in if dv > 31 then 31 else dv) in
      if hz \<ge> src div 31
      then (let dv = clamp ((src + hz - 1) div hz) in (K ''SDMMC_CLKMode'', dv, src div dv))
      else (let low = src div 64; dv = clamp ((low + hz - 1) div hz) in (0, dv, low div dv)))"

definition sd_set_clock :: "'d machine \<Rightarrow> (string \<Rightarrow> u32) \<Rightarrow> u32 \<Rightarrow> 'd sdst \<Rightarrow> u32 \<times> 'd sdst" where
  "sd_set_clock M K hz s = (case s of (st, d) \<Rightarrow> case sysclk M d of (src, d) \<Rightarrow>
     case sd_clock_choice K src hz of (md, dv, actual) \<Rightarrow>
       (actual, st\<lparr>sd_clk_hz := actual\<rparr>, m_wr M CLK_DIV (low16 (md OR dv OR K ''SDMMC_CLKOE'')) d))"

definition sd_pin_af :: "'d machine \<Rightarrow> string \<Rightarrow> string \<Rightarrow> 'd \<Rightarrow> 'd" where
  "sd_pin_af M port pin = m_call M (Call ''GPIO_Init'' [Sym port, Sym pin, Sym ''GPIO_Mode_AF_PP'', Sym ''GPIO_Speed_Very_High''])"

definition sd_pin_release :: "'d machine \<Rightarrow> string \<Rightarrow> string \<Rightarrow> 'd \<Rightarrow> 'd" where
  "sd_pin_release M port pin = m_call M (Call ''GPIO_Init'' [Sym port, Sym pin, Sym ''GPIO_Mode_IPU'', Sym ''GPIO_Speed_Low''])"

definition sd_pins :: "u8 \<Rightarrow> (string \<times> string) list" where
  "sd_pins w = [(''GPIOC'', ''GPIO_Pin_12''), (''GPIOD'', ''GPIO_Pin_2''), (''GPIOC'', ''GPIO_Pin_8'')] @
     (if w = 4 then [(''GPIOC'', ''GPIO_Pin_9''), (''GPIOC'', ''GPIO_Pin_10''), (''GPIOC'', ''GPIO_Pin_11'')] else [])"

definition sd_controller_reset :: "'d machine \<Rightarrow> (string \<Rightarrow> u32) \<Rightarrow> u8 \<Rightarrow> 'd \<Rightarrow> 'd" where
  "sd_controller_reset M K w = do_all
     [m_call M (Call ''RCC_HBPeriphClockCmd'' [Sym ''RCC_HBPeriph_SDMMC'', Sym ''ENABLE'']),
      m_touch M (REG ''RCC.HBPCENR''),
      m_call M (Call ''RCC_HB1PeriphClockCmd'' [Sym ''RCC_HB1Periph_SWPMI'', Sym ''ENABLE'']),
      m_touch M (REG ''RCC.HB1PCENR''),
      m_or M (REG ''SWPMI.OR'') (push_bit 0 1),
      m_call M (Call ''RCC_HBPeriphResetCmd'' [Sym ''RCC_HBPeriph_SDMMC'', Sym ''ENABLE'']),
      m_touch M (REG ''RCC.HBRSTR''),
      m_call M (Call ''RCC_HBPeriphResetCmd'' [Sym ''RCC_HBPeriph_SDMMC'', Sym ''DISABLE'']),
      m_touch M (REG ''RCC.HBRSTR''),
      m_wr M CONTROL (low16 ((if w = 4 then K ''SDMMC_LW_MASK_0'' else 0) OR K ''SDMMC_DMAEN'' OR K ''SDMMC_NEGSMP'')),
      m_wr M TIMEOUT 0x0F, m_wr M INT_EN 0, m_wr M INT_FG 0xFFFF, m_wr M TRAN_MODE 0, m_wr M BLOCK_CFG 0]"

definition dat0_high :: "'d machine \<Rightarrow> (string \<Rightarrow> u32) \<Rightarrow> 'd \<Rightarrow> bool \<times> 'd" where
  "dat0_high M K d = (case m_rd M STATUS d of (v, d) \<Rightarrow> (v AND K ''SDMMC_DAT0STA'' \<noteq> 0, d))"

definition sd_wait_dat0 :: "'d machine \<Rightarrow> (string \<Rightarrow> u32) \<Rightarrow> 'd sdst \<Rightarrow> (int \<times> 'd sdst) option" where
  "sd_wait_dat0 M K s = (case s of (st, d) \<Rightarrow>
     do { (ok, d) \<leftarrow> wait_until M (dat0_high M K) 1000 d; Some (if ok then 0 else SD_ETIMEDOUT, st, d) })"

section \<open>Commands\<close>

definition cmd_flags :: "(string \<Rightarrow> u32) \<Rightarrow> u32" where
  "cmd_flags K = K ''SDMMC_IF_CMDDONE'' OR K ''SDMMC_IF_RE_TMOUT'' OR K ''SDMMC_IF_RECRC_WR'' OR
     K ''SDMMC_IF_REIDX_ER'' OR K ''SDMMC_IF_DATTMO''"

text \<open>One look at the flags: the flag word when one of \<open>sel\<close> is set.\<close>

definition flags_seen :: "'d machine \<Rightarrow> u32 \<Rightarrow> 'd \<Rightarrow> u32 option \<times> 'd" where
  "flags_seen M sel d = (case m_rd M INT_FG d of (v, d) \<Rightarrow> (if low16 v AND sel \<noteq> 0 then Some (low16 v) else None, d))"

definition sd_cmd_log :: "'d machine \<Rightarrow> u8 \<Rightarrow> u32 \<Rightarrow> 'd sdst \<Rightarrow> 'd sdst" where
  "sd_cmd_log M idx fg s = (case s of (st, d) \<Rightarrow>
     if length (sd_log st) < SD_LOG_MAX
     then (case m_rd M (RESPONSE 3) d of (r, d) \<Rightarrow>
        (st\<lparr>sd_log := sd_log st @ [\<lparr>le_cmd = idx, le_flags = ucast fg, le_resp = r\<rparr>]\<rparr>, d))
     else (st, d))"

definition sd_cmd_result :: "(string \<Rightarrow> u32) \<Rightarrow> u32 \<Rightarrow> u32 \<Rightarrow> int" where
  "sd_cmd_result K resp fg =
     (if resp = RESP_NONE then 0
      else if fg AND (K ''SDMMC_IF_RE_TMOUT'' OR K ''SDMMC_IF_DATTMO'') \<noteq> 0 then SD_ETIMEDOUT
      else if fg AND (K ''SDMMC_IF_RECRC_WR'' OR K ''SDMMC_IF_REIDX_ER'') \<noteq> 0 then SD_EIO
      else 0)"

definition sd_cmd :: "'d machine \<Rightarrow> (string \<Rightarrow> u32) \<Rightarrow> systick \<Rightarrow> u8 \<Rightarrow> u32 \<Rightarrow> u32 \<Rightarrow> 'd sdst \<Rightarrow> (int \<times> 'd sdst) option" where
  "sd_cmd M K tk idx a resp s =
     do { (st, d) \<leftarrow> sd_cmd_gap M tk s;
          let d = do_all [m_wr M INT_FG (cmd_flags K), m_wr M ARGUMENT a,
                    m_wr M CMD_SET (low16 ((ucast idx AND K ''SDMMC_CMDIDX_MASK'') OR resp))] d;
          (r, d) \<leftarrow> wait_for M (flags_seen M (cmd_flags K)) 1000 d;
          (case r of
             None \<Rightarrow> Some (SD_ETIMEDOUT, st, d)
           | Some fg \<Rightarrow> Some (sd_cmd_result K resp fg, sd_cmd_log M idx fg (st, d))) }"

definition sd_resp_short :: "'d machine \<Rightarrow> 'd sdst \<Rightarrow> u32 \<times> 'd sdst" where
  "sd_resp_short M = rd_hw M (RESPONSE 3)"

definition sd_resp_long :: "'d machine \<Rightarrow> 'd sdst \<Rightarrow> u32 list \<times> 'd sdst" where
  "sd_resp_long M s =
     (case rd_hw M (RESPONSE 3) s of (a, s) \<Rightarrow> case rd_hw M (RESPONSE 2) s of (b, s) \<Rightarrow>
      case rd_hw M (RESPONSE 1) s of (c, s) \<Rightarrow> case rd_hw M (RESPONSE 0) s of (e, s) \<Rightarrow> ([a, b, c, e], s))"

definition sd_cmd_r1 :: "'d machine \<Rightarrow> (string \<Rightarrow> u32) \<Rightarrow> systick \<Rightarrow> u8 \<Rightarrow> u32 \<Rightarrow> u32 \<Rightarrow> 'd sdst \<Rightarrow> (int \<times> 'd sdst) option" where
  "sd_cmd_r1 M K tk idx a resp = sd_then (sd_cmd M K tk idx a resp)
     (\<lambda>s. case sd_resp_short M s of (v, s) \<Rightarrow> Some (if v AND SD_R1_ERROR_MASK \<noteq> 0 then SD_EIO else 0, s))"

definition rca_arg :: "'d sdst \<Rightarrow> u32" where
  "rca_arg s = push_bit 16 (ucast (rca (sd_self (fst s))))"

definition sd_app_cmd :: "'d machine \<Rightarrow> (string \<Rightarrow> u32) \<Rightarrow> systick \<Rightarrow> u8 \<Rightarrow> u32 \<Rightarrow> u32 \<Rightarrow> 'd sdst \<Rightarrow> (int \<times> 'd sdst) option" where
  "sd_app_cmd M K tk idx a resp s =
     sd_then (sd_cmd_r1 M K tk APP_CMD (rca_arg s) RESP_R1) (sd_cmd M K tk idx a resp) s"

section \<open>Data transfer\<close>

partial_function (option) sd_ready_loop :: "'d machine \<Rightarrow> (string \<Rightarrow> u32) \<Rightarrow> systick \<Rightarrow> u32 \<Rightarrow> 'd sdst \<Rightarrow> (int \<times> 'd sdst) option" where
  "sd_ready_loop M K tk deadline s =
     do { (ret, s) \<leftarrow> sd_cmd M K tk SEND_STATUS (rca_arg s) RESP_R1 s;
          if ret \<noteq> 0 then Some (ret, s)
          else (case sd_resp_short M s of (status, s) \<Rightarrow>
            if status AND SD_R1_ERROR_MASK \<noteq> 0 then Some (SD_EIO, s)
            else if status AND push_bit 8 1 \<noteq> 0 then Some (0, s)
            else (case s of (st, d) \<Rightarrow> case m_millis M d of (t, d) \<Rightarrow>
              if timed_out deadline t then Some (SD_ETIMEDOUT, st, d) else sd_ready_loop M K tk deadline (st, d))) }"

definition sd_wait_ready :: "'d machine \<Rightarrow> (string \<Rightarrow> u32) \<Rightarrow> systick \<Rightarrow> 'd sdst \<Rightarrow> (int \<times> 'd sdst) option" where
  "sd_wait_ready M K tk s = (case s of (st, d) \<Rightarrow> case m_millis M d of (t, d) \<Rightarrow> sd_ready_loop M K tk (t + 1000) (st, d))"

definition data_flags :: "(string \<Rightarrow> u32) \<Rightarrow> u32" where
  "data_flags K = K ''SDMMC_IF_TRANDONE'' OR K ''SDMMC_IF_BKGAP'' OR K ''SDMMC_IF_TRANERR'' OR K ''SDMMC_IF_DATTMO'' OR
     K ''SDMMC_IF_FIFO_OV''"

definition sd_wait_data_flag :: "'d machine \<Rightarrow> (string \<Rightarrow> u32) \<Rightarrow> 'd \<Rightarrow> (u32 \<times> 'd) option" where
  "sd_wait_data_flag M K d =
     do { (r, d) \<leftarrow> wait_for M (flags_seen M (data_flags K)) 2000 d;
          Some (case r of None \<Rightarrow> 0 | Some fg \<Rightarrow> fg AND data_flags K, d) }"

definition sd_data_flag_error :: "(string \<Rightarrow> u32) \<Rightarrow> u32 \<Rightarrow> int" where
  "sd_data_flag_error K fg =
     (if fg = 0 then SD_ETIMEDOUT
      else if fg AND K ''SDMMC_IF_DATTMO'' \<noteq> 0 then SD_ETIMEDOUT
      else if fg AND (K ''SDMMC_IF_TRANERR'' OR K ''SDMMC_IF_FIFO_OV'') \<noteq> 0 then SD_EIO
      else 0)"

definition sd_blocks_done :: "'d machine \<Rightarrow> (string \<Rightarrow> u32) \<Rightarrow> 'd \<Rightarrow> u32 \<times> 'd" where
  "sd_blocks_done M K d = (case m_rd M STATUS d of (v, d) \<Rightarrow> (v AND K ''SDMMC_MASK_BLOCK_NUM'', d))"

definition sd_arm :: "'d machine \<Rightarrow> (string \<Rightarrow> u32) \<Rightarrow> u32 \<Rightarrow> u32 \<Rightarrow> u32 \<Rightarrow> bool \<Rightarrow> 'd \<Rightarrow> 'd" where
  "sd_arm M K buf blocksize nblocks wr = do_all
     [m_call M (Call ''fence'' []), m_wr M BLOCK_CFG 0, m_wr M TRAN_MODE (if wr then K ''SDMMC_DMA_DIR'' else 0),
      m_wr M BLOCK_CFG (push_bit 16 blocksize OR nblocks), m_wr M DMA_BEG1 buf]"

text \<open>
  \<open>sd_read_data\<close>: a controller that raises the block-gap flag for ever is a call that does
  not return; the deadline is per flag.
\<close>

partial_function (option) sd_read_data :: "'d machine \<Rightarrow> (string \<Rightarrow> u32) \<Rightarrow> u32 \<Rightarrow> 'd \<Rightarrow> (int \<times> 'd) option" where
  "sd_read_data M K nblocks d =
     do { (fg, d) \<leftarrow> sd_wait_data_flag M K d;
          let err = sd_data_flag_error K fg;
          if err \<noteq> 0 then Some (err, d)
          else if fg AND K ''SDMMC_IF_TRANDONE'' \<noteq> 0 then Some (0, d)
          else if nblocks = 1 \<and> fg AND K ''SDMMC_IF_BKGAP'' \<noteq> 0 then Some (0, d)
          else sd_read_data M K nblocks (m_wr M INT_FG (K ''SDMMC_IF_BKGAP'') d) }"

partial_function (option) sd_write_loop :: "'d machine \<Rightarrow> (string \<Rightarrow> u32) \<Rightarrow> u32 \<Rightarrow> 'd \<Rightarrow> (int \<times> 'd) option" where
  "sd_write_loop M K nblocks d = (case sd_blocks_done M K d of (n, d) \<Rightarrow>
     if n < nblocks
     then do { (fg, d) \<leftarrow> sd_wait_data_flag M K d;
               let err = sd_data_flag_error K fg;
               if err \<noteq> 0 then Some (err, d)
               else (case sd_blocks_done M K (m_wr M INT_FG fg d) of (n, d) \<Rightarrow>
                 if n \<ge> nblocks then Some (0, m_wr M BLOCK_CFG 0 d)
                 else sd_write_loop M K nblocks (m_wr M WRITE_CONT 0 d)) }
     else Some (0, m_wr M BLOCK_CFG 0 d))"

declare sd_ready_loop.simps [code] sd_read_data.simps [code] sd_write_loop.simps [code]

definition counter_reset :: "'d machine \<Rightarrow> (string \<Rightarrow> u32) \<Rightarrow> 'd \<Rightarrow> bool \<times> 'd" where
  "counter_reset M K d = (case sd_blocks_done M K d of (n, d) \<Rightarrow> (n = 0, d))"

definition sd_write_data :: "'d machine \<Rightarrow> (string \<Rightarrow> u32) \<Rightarrow> u32 \<Rightarrow> 'd \<Rightarrow> (int \<times> 'd) option" where
  "sd_write_data M K nblocks d =
     do { (ok, d) \<leftarrow> wait_until M (counter_reset M K) 200 d;
          if ok then sd_write_loop M K nblocks d else Some (SD_ETIMEDOUT, d) }"

definition lift_hw :: "('d \<Rightarrow> (int \<times> 'd) option) \<Rightarrow> 'd sdst \<Rightarrow> (int \<times> 'd sdst) option" where
  "lift_hw f s = (case s of (st, d) \<Rightarrow> do { (ret, d) \<leftarrow> f d; Some (ret, st, d) })"

text \<open>\<open>memcpy\<close> into and out of a DMA buffer.\<close>

fun dma_put :: "'d machine \<Rightarrow> u32 \<Rightarrow> u8 list \<Rightarrow> 'd \<Rightarrow> 'd" where
  "dma_put M a [] d = d"
| "dma_put M a (b # bs) d = dma_put M (a + 1) bs (m_wr M (MEM8 a) (ucast b) d)"

fun dma_get :: "'d machine \<Rightarrow> u32 \<Rightarrow> nat \<Rightarrow> 'd \<Rightarrow> u8 list \<times> 'd" where
  "dma_get M a 0 d = ([], d)"
| "dma_get M a (Suc n) d =
     (case m_rd M (MEM8 a) d of (v, d) \<Rightarrow> case dma_get M (a + 1) n d of (bs, d) \<Rightarrow> (ucast v # bs, d))"

definition dma_buf :: "(string \<Rightarrow> u32) \<Rightarrow> u8 \<Rightarrow> u32" where
  "dma_buf K half = K ''sd_dma_buf'' + ucast half * (SD_BOUNCE_BLOCKS * SD_BLOCK_SIZE)"

text \<open>\<open>dma = sd_dma_buf[sd_dma_half]; sd_dma_half ^= 1;\<close>\<close>

definition take_half :: "(string \<Rightarrow> u32) \<Rightarrow> 'd sdst \<Rightarrow> u32 \<times> 'd sdst" where
  "take_half K s = (case s of (st, d) \<Rightarrow> (dma_buf K (sd_dma_half st), st\<lparr>sd_dma_half := sd_dma_half st XOR 1\<rparr>, d))"

text \<open>The status block is returned with the code, and only meaningful with code 0.\<close>

definition sd_switch_func :: "'d machine \<Rightarrow> (string \<Rightarrow> u32) \<Rightarrow> systick \<Rightarrow> u32 \<Rightarrow> 'd sdst \<Rightarrow> ((int \<times> u8 list) \<times> 'd sdst) option" where
  "sd_switch_func M K tk a s =
     do { (ret, s) \<leftarrow> sd_wait_dat0 M K s;
          if ret \<noteq> 0 then Some ((ret, []), s)
          else (case take_half K (on_hw (m_wr M INT_FG 0xFFFF) s) of (dma, s) \<Rightarrow>
            do { (ret, s) \<leftarrow> sd_then (sd_cmd_r1 M K tk SWITCH_FUNC a RESP_R1) (lift_hw (sd_read_data M K 1))
                               (on_hw (sd_arm M K dma SD_SWITCH_STATUS_SIZE 1 False) s);
                 if ret \<noteq> 0 then Some ((ret, []), s)
                 else (case s of (st, d) \<Rightarrow> case dma_get M dma (unat SD_SWITCH_STATUS_SIZE) d of (bs, d) \<Rightarrow>
                   Some ((0, bs), st, d)) }) }"

definition sd_try_high_speed :: "'d machine \<Rightarrow> (string \<Rightarrow> u32) \<Rightarrow> systick \<Rightarrow> 'd sdst \<Rightarrow> (bool \<times> 'd sdst) option" where
  "sd_try_high_speed M K tk s =
     do { ((ret, bs), s) \<leftarrow> sd_switch_func M K tk 0x00FFFFF1 s;
          if ret \<noteq> 0 then Some (False, s)
          else if bs ! 13 AND 0x02 = 0 then Some (False, s)
          else do { ((ret, bs), s) \<leftarrow> sd_switch_func M K tk 0x80FFFFF1 s;
                    if ret \<noteq> 0 then Some (False, s)
                    else if bs ! 16 AND 0x0F \<noteq> 1 then Some (False, s)
                    else do { s \<leftarrow> sd_cmd_gap M tk s; Some (True, s) } } }"

definition run_addr :: "sdmmc \<Rightarrow> u32 \<Rightarrow> u32" where
  "run_addr st block = (if card_type (sd_self st) = CARD_SDHC then block else block * SD_BLOCK_SIZE)"

definition run_cmd :: "bool \<Rightarrow> u32 \<Rightarrow> u8" where
  "run_cmd wr nblocks =
     (if wr then if nblocks = 1 then WRITE_BLOCK else WRITE_MULTIPLE_BLOCK
      else if nblocks = 1 then READ_SINGLE_BLOCK else READ_MULTIPLE_BLOCK)"

text \<open>The data phase: the transfer, the stop it owes, and the wait after a write.\<close>

definition sd_finish :: "'d machine \<Rightarrow> (string \<Rightarrow> u32) \<Rightarrow> systick \<Rightarrow> u32 \<Rightarrow> bool \<Rightarrow> int \<times> 'd sdst \<Rightarrow> (int \<times> 'd sdst) option" where
  "sd_finish M K tk nblocks wr x = (case x of (ret, s) \<Rightarrow>
     do { (ret, s) \<leftarrow> (if nblocks > 1
            then do { (stop, s) \<leftarrow> sd_cmd_r1 M K tk STOP_TRANSMISSION 0 RESP_R1B s; Some (if ret = 0 then stop else ret, s) }
            else Some (ret, s));
          if ret = 0 \<and> wr then sd_wait_ready M K tk s else Some (ret, s) })"

definition sd_transfer_dma :: "'d machine \<Rightarrow> (string \<Rightarrow> u32) \<Rightarrow> systick \<Rightarrow> u32 \<Rightarrow> u32 \<Rightarrow> u32 \<Rightarrow> bool \<Rightarrow> 'd sdst \<Rightarrow> (int \<times> 'd sdst) option" where
  "sd_transfer_dma M K tk block dma nblocks wr s =
     (let a = run_addr (fst s) block; cmd = sd_cmd_r1 M K tk (run_cmd wr nblocks) a RESP_R1;
          arm = on_hw (sd_arm M K dma SD_BLOCK_SIZE nblocks wr) in
      do { (ret, s) \<leftarrow> sd_wait_dat0 M K s;
           if ret \<noteq> 0 then Some (ret, s)
           else do { (ret, s) \<leftarrow> cmd ((if wr then (\<lambda>s. s) else arm) (on_hw (m_wr M INT_FG 0xFFFF) s));
                     if ret \<noteq> 0 then Some (ret, s)
                     else do { x \<leftarrow> lift_hw (if wr then sd_write_data M K nblocks else sd_read_data M K nblocks)
                                      ((if wr then arm else (\<lambda>s. s)) s);
                               sd_finish M K tk nblocks wr x } } })"

definition run_length :: "u32 \<Rightarrow> u32 \<Rightarrow> u32" where
  "run_length nblocks done = (if nblocks - done > SD_BOUNCE_BLOCKS then SD_BOUNCE_BLOCKS else nblocks - done)"

lemma run_length_bounds:
  assumes "done < nblocks"
  shows "run_length nblocks done \<le> nblocks - done" "0 < unat (run_length nblocks done)"
proof -
  have "nblocks - done \<noteq> 0" using assms by auto
  then show "run_length nblocks done \<le> nblocks - done" "0 < unat (run_length nblocks done)"
    by (auto simp: run_length_def SD_BOUNCE_BLOCKS_def unat_gt_0)
qed

lemma xfer_step_less:
  assumes "done < nblocks"
  shows "unat (nblocks - (done + run_length nblocks done)) < unat (nblocks - done)"
proof -
  note n = run_length_bounds [OF assms]
  have "unat (nblocks - (done + run_length nblocks done)) = unat (nblocks - done) - unat (run_length nblocks done)"
    using unat_sub_le [OF n(1)] by (simp only: diff_diff_add)
  then show ?thesis using n by (simp add: word_le_nat_alt)
qed

text \<open>
  The loop of \<open>sd_transfer\<close>, from \<open>done\<close> on: the result is the code, the caller's buffer and
  the state.
\<close>

function sd_transfer_loop :: "'d machine \<Rightarrow> (string \<Rightarrow> u32) \<Rightarrow> systick \<Rightarrow> u32 \<Rightarrow> u32 \<Rightarrow> bool \<Rightarrow> u32 \<Rightarrow> u8 list \<Rightarrow> 'd sdst \<Rightarrow>
    (int \<times> u8 list \<times> 'd sdst) option" where
  "sd_transfer_loop M K tk block nblocks wr done buf s =
     (if done < nblocks
      then (let n = run_length nblocks done; off = unat (done * SD_BLOCK_SIZE); len = unat (n * SD_BLOCK_SIZE) in
            case take_half K s of (dma, s) \<Rightarrow>
            do { (ret, s) \<leftarrow> sd_transfer_dma M K tk (block + done) dma n wr
                   (if wr then on_hw (dma_put M dma (take len (drop off buf))) s else s);
                 if ret \<noteq> 0 then Some (ret, buf, s)
                 else (case s of (st, d) \<Rightarrow>
                   case (if wr then (buf, d)
                         else case dma_get M dma len d of (bs, d) \<Rightarrow> (take off buf @ bs @ drop (off + len) buf, d)) of
                     (buf, d) \<Rightarrow> sd_transfer_loop M K tk block nblocks wr (done + n) buf (st, d)) })
      else Some (0, buf, s))"
  by pat_completeness auto

termination
  by (relation "measure (\<lambda>(M, K, tk, block, nblocks, wr, done, buf, s). unat (nblocks - done))")
    (use xfer_step_less in auto)

declare sd_transfer_loop.simps [simp del]

definition sd_transfer :: "'d machine \<Rightarrow> (string \<Rightarrow> u32) \<Rightarrow> systick \<Rightarrow> u32 \<Rightarrow> u8 list \<Rightarrow> u32 \<Rightarrow> bool \<Rightarrow> 'd sdst \<Rightarrow>
    (int \<times> u8 list \<times> 'd sdst) option" where
  "sd_transfer M K tk block buf nblocks wr s =
     (let self = sd_self (fst s) in
      if \<not> initialised self then Some (SD_ENODEV, buf, s)
      else if block + nblocks > block_count self then Some (SD_ERANGE, buf, s)
      else if nblocks = 0 then Some (0, buf, s)
      else sd_transfer_loop M K tk block nblocks wr 0 buf s)"

definition sd_read_blocks :: "'d machine \<Rightarrow> (string \<Rightarrow> u32) \<Rightarrow> systick \<Rightarrow> u32 \<Rightarrow> u8 list \<Rightarrow> u32 \<Rightarrow> 'd sdst \<Rightarrow>
    (int \<times> u8 list \<times> 'd sdst) option" where
  "sd_read_blocks M K tk block buf nblocks = sd_transfer M K tk block buf nblocks False"

definition sd_write_blocks :: "'d machine \<Rightarrow> (string \<Rightarrow> u32) \<Rightarrow> systick \<Rightarrow> u32 \<Rightarrow> u8 list \<Rightarrow> u32 \<Rightarrow> 'd sdst \<Rightarrow>
    (int \<times> u8 list \<times> 'd sdst) option" where
  "sd_write_blocks M K tk block buf nblocks = sd_transfer M K tk block buf nblocks True"

section \<open>Bringing a card up\<close>

definition sd_capacity_blocks :: "u32 list \<Rightarrow> u32" where
  "sd_capacity_blocks c =
     (if drop_bit 30 (c ! 0) \<ge> 1
      then (push_bit 16 (c ! 1 AND 0x3F) OR drop_bit 16 (c ! 2) + 1) * 1024
      else (let read_bl_len = drop_bit 16 (c ! 1) AND 0x0F;
                c_size = push_bit 2 (c ! 1 AND 0x3FF) OR drop_bit 30 (c ! 2);
                c_size_mult = drop_bit 15 (c ! 2) AND 0x07;
                blocks = push_bit (unat (c_size_mult + 2)) (c_size + 1)
            in if read_bl_len > 9 then push_bit (unat (read_bl_len - 9)) blocks else blocks))"

definition delay_st :: "'d machine \<Rightarrow> u32 \<Rightarrow> 'd sdst \<Rightarrow> (int \<times> 'd sdst) option" where
  "delay_st M ms s = (case s of (st, d) \<Rightarrow> do { d \<leftarrow> delay M ms d; Some (0, st, d) })"

text \<open>CMD8: whether the card is a version 2 one, for the rest of the bring-up.\<close>

definition sd_send_if_cond :: "'d machine \<Rightarrow> (string \<Rightarrow> u32) \<Rightarrow> systick \<Rightarrow> (bool \<Rightarrow> 'd sdst \<Rightarrow> (int \<times> 'd sdst) option) \<Rightarrow>
    'd sdst \<Rightarrow> (int \<times> 'd sdst) option" where
  "sd_send_if_cond M K tk rest s =
     do { (ret, s) \<leftarrow> sd_cmd M K tk SEND_IF_COND 0x1AA RESP_R1 s;
          if ret = 0
          then (case sd_resp_short M s of (v, s) \<Rightarrow> if v AND 0xFFF \<noteq> 0x1AA then Some (SD_EIO, s) else rest True s)
          else sd_then (sd_cmd M K tk GO_IDLE_STATE 0 RESP_NONE) (sd_then (delay_st M 2) (rest False)) s }"

text \<open>ACMD41 until the card has powered up; the answer is the OCR.\<close>

partial_function (option) sd_op_cond_loop :: "'d machine \<Rightarrow> (string \<Rightarrow> u32) \<Rightarrow> systick \<Rightarrow> bool \<Rightarrow> u32 \<Rightarrow> 'd sdst \<Rightarrow>
    ((int \<times> u32) \<times> 'd sdst) option" where
  "sd_op_cond_loop M K tk v2 deadline s =
     do { (ret, s) \<leftarrow> sd_app_cmd M K tk SEND_OP_COND ((if v2 then 0x40000000 else 0) OR 0x00FF8000) RESP_R3 s;
          if ret \<noteq> 0 then Some ((ret, 0), s)
          else (case sd_resp_short M s of (ocr, s) \<Rightarrow>
            if ocr AND 0x80000000 \<noteq> 0 then Some ((0, ocr), s)
            else (case s of (st, d) \<Rightarrow> case m_millis M d of (t, d) \<Rightarrow>
              if timed_out deadline t then Some ((SD_ETIMEDOUT, 0), st, d)
              else do { d \<leftarrow> delay M 1 d; sd_op_cond_loop M K tk v2 deadline (st, d) })) }"

declare sd_op_cond_loop.simps [code]

definition set_width :: "'d machine \<Rightarrow> (string \<Rightarrow> u32) \<Rightarrow> systick \<Rightarrow> 'd sdst \<Rightarrow> (int \<times> 'd sdst) option" where
  "set_width M K tk s =
     (if width (sd_self (fst s)) = 4
      then sd_then (sd_app_cmd M K tk SET_BUS_WIDTH 2 RESP_R1)
             (\<lambda>s. Some (0, on_hw (m_or M CONTROL (K ''SDMMC_LW_MASK_0'')) s)) s
      else Some (0, s))"

definition choose_speed :: "'d machine \<Rightarrow> (string \<Rightarrow> u32) \<Rightarrow> systick \<Rightarrow> 'd sdst \<Rightarrow> (int \<times> 'd sdst) option" where
  "choose_speed M K tk s =
     (let s = upd_self (high_speed_update (\<lambda>_. False)) s in
      do { s \<leftarrow> (if freq (sd_self (fst s)) > 25000000
                 then do { (ok, s) \<leftarrow> sd_try_high_speed M K tk s;
                           Some (if ok then upd_self (high_speed_update (\<lambda>_. True)) s
                                 else upd_self (freq_update (\<lambda>_. 25000000)) s) }
                 else Some s);
           case sd_set_clock M K (freq (sd_self (fst s))) s of (f, s) \<Rightarrow> Some (0, upd_self (freq_update (\<lambda>_. f)) s) })"

definition read_cid :: "'d machine \<Rightarrow> (string \<Rightarrow> u32) \<Rightarrow> systick \<Rightarrow> 'd sdst \<Rightarrow> (int \<times> 'd sdst) option" where
  "read_cid M K tk = sd_then (sd_cmd M K tk ALL_SEND_CID 0 RESP_R2)
     (\<lambda>s. case sd_resp_long M s of (c, s) \<Rightarrow> Some (0, upd_self (cid_update (\<lambda>_. c)) s))"

definition read_rca :: "'d machine \<Rightarrow> (string \<Rightarrow> u32) \<Rightarrow> systick \<Rightarrow> 'd sdst \<Rightarrow> (int \<times> 'd sdst) option" where
  "read_rca M K tk = sd_then (sd_cmd M K tk SEND_RELATIVE_ADDR 0 RESP_R1)
     (\<lambda>s. case sd_resp_short M s of (v, s) \<Rightarrow>
       (let r = ucast (drop_bit 16 v) in Some (if r = 0 then SD_EIO else 0, upd_self (rca_update (\<lambda>_. r)) s)))"

definition read_csd :: "'d machine \<Rightarrow> (string \<Rightarrow> u32) \<Rightarrow> systick \<Rightarrow> 'd sdst \<Rightarrow> (int \<times> 'd sdst) option" where
  "read_csd M K tk s = sd_then (sd_cmd M K tk SEND_CSD (rca_arg s) RESP_R2)
     (\<lambda>s. case sd_resp_long M s of (c, s) \<Rightarrow>
        Some (0, upd_self (\<lambda>x. x\<lparr>csd := c, block_count := sd_capacity_blocks c\<rparr>) s)) s"

definition sd_power_up :: "'d machine \<Rightarrow> (string \<Rightarrow> u32) \<Rightarrow> systick \<Rightarrow> bool \<Rightarrow> 'd sdst \<Rightarrow> (int \<times> 'd sdst) option" where
  "sd_power_up M K tk v2 s = (case s of (st, d) \<Rightarrow> case m_millis M d of (t, d) \<Rightarrow>
     do { ((ret, ocr), s) \<leftarrow> sd_op_cond_loop M K tk v2 (t + 1000) (st, d);
          if ret \<noteq> 0 then Some (ret, s)
          else Some (0, upd_self (card_type_update (\<lambda>_. if ocr AND 0x40000000 \<noteq> 0 then CARD_SDHC else CARD_SDSC)) s) })"

definition sd_card_identify :: "'d machine \<Rightarrow> (string \<Rightarrow> u32) \<Rightarrow> systick \<Rightarrow> 'd sdst \<Rightarrow> (int \<times> 'd sdst) option" where
  "sd_card_identify M K tk s =
     (let s = upd_self (\<lambda>x. x\<lparr>rca := 0, card_type := CARD_NONE\<rparr>) (case s of (st, d) \<Rightarrow> (st\<lparr>sd_log := []\<rparr>, d));
          (_, s) = sd_set_clock M K 400000 s in
      sd_then (delay_st M 2) (sd_then (sd_cmd M K tk GO_IDLE_STATE 0 RESP_NONE) (sd_then (delay_st M 2)
        (sd_send_if_cond M K tk (\<lambda>v2. sd_then (sd_power_up M K tk v2) (sd_then (read_cid M K tk) (sd_then (read_rca M K tk)
          (sd_then (read_csd M K tk) (sd_then (\<lambda>s. sd_cmd_r1 M K tk SELECT_CARD (rca_arg s) RESP_R1B s)
          (sd_then (set_width M K tk) (sd_then (sd_cmd_r1 M K tk SET_BLOCKLEN SD_BLOCK_SIZE RESP_R1)
            (choose_speed M K tk)))))))))))
      s)"

section \<open>Starting and stopping\<close>

definition sd_end :: "'d machine \<Rightarrow> (string \<Rightarrow> u32) \<Rightarrow> 'd sdst \<Rightarrow> 'd sdst option" where
  "sd_end M K s =
     (if \<not> initialised (sd_self (fst s)) then Some s
      else do { (_, s) \<leftarrow> sd_wait_dat0 M K s;
                let s = upd_self (initialised_update (\<lambda>_. False)) s;
                Some (on_hw (do_all
                  ([m_wr M CLK_DIV 0,
                    m_call M (Call ''RCC_HBPeriphResetCmd'' [Sym ''RCC_HBPeriph_SDMMC'', Sym ''ENABLE'']),
                    m_touch M (REG ''RCC.HBRSTR''),
                    m_call M (Call ''RCC_HBPeriphResetCmd'' [Sym ''RCC_HBPeriph_SDMMC'', Sym ''DISABLE'']),
                    m_touch M (REG ''RCC.HBRSTR''),
                    m_call M (Call ''RCC_HBPeriphClockCmd'' [Sym ''RCC_HBPeriph_SDMMC'', Sym ''DISABLE'']),
                    m_touch M (REG ''RCC.HBPCENR'')] @
                   map (\<lambda>(port, pin). sd_pin_release M port pin) (sd_pins (width (sd_self (fst s)))))) s) })"

definition sd_debug :: "'d machine \<Rightarrow> u8 \<Rightarrow> 'd \<Rightarrow> u32 \<times> 'd" where
  "sd_debug M which d =
     (if which = 0 then m_rd M CONTROL d
      else if which = 1 then m_rd M CLK_DIV d
      else if which = 2 then m_rd M STATUS d
      else if which = 3 then m_rd M INT_FG d
      else if which = 4 then m_rd M (REG ''RCC.HBRSTR'') d
      else if which = 5 then m_rd M (REG ''RCC.HBPCENR'') d
      else (0, d))"

text \<open>The identification, with its one retry, and the teardown when both fail.\<close>

definition sd_identify_retry :: "'d machine \<Rightarrow> (string \<Rightarrow> u32) \<Rightarrow> systick \<Rightarrow> u8 \<Rightarrow> 'd sdst \<Rightarrow> (int \<times> 'd sdst) option" where
  "sd_identify_retry M K tk w s =
     do { (ret, s) \<leftarrow> sd_card_identify M K tk (on_hw (sd_controller_reset M K w) s);
          (ret, s) \<leftarrow> (if ret \<noteq> 0 then sd_card_identify M K tk (on_hw (sd_controller_reset M K w) s) else Some (ret, s));
          let s = upd_self (initialised_update (\<lambda>_. True)) s;
          if ret \<noteq> 0 then do { s \<leftarrow> sd_end M K s; Some (ret, s) } else Some (0, s) }"

definition sd_begin :: "'d machine \<Rightarrow> (string \<Rightarrow> u32) \<Rightarrow> systick \<Rightarrow> u8 \<Rightarrow> u32 \<Rightarrow> 'd sdst \<Rightarrow> (int \<times> 'd sdst) option" where
  "sd_begin M K tk w f s =
     (if w \<noteq> 1 \<and> w \<noteq> 4 then Some (SD_EPARAM, s)
      else if f < 100000 then Some (SD_EPARAM, s)
      else if f > 50000000 then Some (SD_EPARAM, s)
      else (let s = on_hw (do_all [m_call M (Call ''RCC_HB1PeriphClockCmd'' [Sym ''RCC_HB1Periph_PWR'', Sym ''ENABLE'']),
                     m_touch M (REG ''RCC.HB1PCENR'')]) s in
            case rd_hw M (REG ''PWR.CTLR'') s of (v, s) \<Rightarrow>
            if drop_bit 10 v AND 7 < 2 then Some (SD_EVOLTAGE, s)
            else do { s \<leftarrow> sd_end M K s;
                      sd_identify_retry M K tk w (on_hw (do_all
                        ([m_call M (Call ''RCC_HB2PeriphClockCmd''
                            [Num (K ''RCC_HB2Periph_GPIOC'' OR K ''RCC_HB2Periph_GPIOD'' OR K ''RCC_HB2Periph_AFIO''), Sym ''ENABLE'']),
                          m_touch M (REG ''RCC.HB2PCENR'')] @
                         map (\<lambda>(port, pin). sd_pin_af M port pin) (sd_pins w)))
                        (upd_self (\<lambda>x. x\<lparr>width := w, freq := f, block_count := 0\<rparr>) s)) }))"

section \<open>The disk layer of the file system\<close>

text \<open>
  \<open>diskio.c\<close> and \<open>ch32h4_sd_disk.c\<close>.  A driver is a record of functions on a state \<open>'s\<close>; a
  control request gives the value it stores through the pointer, if it stores one.
\<close>

datatype dresult = RES_OK | RES_ERROR | RES_WRPRT | RES_NOTRDY | RES_PARERR

definition STA_NOINIT :: u8 where "STA_NOINIT = 1"
definition FF_VOLUMES :: nat where "FF_VOLUMES = 2"
definition PDRV_SD :: u8 where "PDRV_SD = 1"

record 's disk_ops =
  op_status :: "'s \<Rightarrow> u8 \<times> 's"
  op_initialize :: "'s \<Rightarrow> u8 \<times> 's"
  op_read :: "u8 list \<Rightarrow> u32 \<Rightarrow> u32 \<Rightarrow> 's \<Rightarrow> (dresult \<times> u8 list \<times> 's) option"
  op_write :: "u8 list \<Rightarrow> u32 \<Rightarrow> u32 \<Rightarrow> 's \<Rightarrow> (dresult \<times> u8 list \<times> 's) option"
  op_ioctl :: "u8 \<Rightarrow> 's \<Rightarrow> (dresult \<times> u32 option) \<times> 's"

type_synonym 's disks = "'s disk_ops option list"

definition no_disks :: "'s disks" where "no_disks = replicate FF_VOLUMES None"

definition register_disk :: "u8 \<Rightarrow> 's disk_ops option \<Rightarrow> 's disks \<Rightarrow> 's disks" where
  "register_disk pdrv ops D = (if unat pdrv < FF_VOLUMES then D[unat pdrv := ops] else D)"

definition disk_of :: "'s disks \<Rightarrow> u8 \<Rightarrow> 's disk_ops option" where
  "disk_of D pdrv = (if unat pdrv \<ge> FF_VOLUMES then None else D ! unat pdrv)"

definition disk_status :: "'s disks \<Rightarrow> u8 \<Rightarrow> 's \<Rightarrow> u8 \<times> 's" where
  "disk_status D pdrv s = (case disk_of D pdrv of None \<Rightarrow> (STA_NOINIT, s) | Some v \<Rightarrow> op_status v s)"

definition disk_initialize :: "'s disks \<Rightarrow> u8 \<Rightarrow> 's \<Rightarrow> u8 \<times> 's" where
  "disk_initialize D pdrv s = (case disk_of D pdrv of None \<Rightarrow> (STA_NOINIT, s) | Some v \<Rightarrow> op_initialize v s)"

definition disk_read :: "'s disks \<Rightarrow> u8 \<Rightarrow> u8 list \<Rightarrow> u32 \<Rightarrow> u32 \<Rightarrow> 's \<Rightarrow> (dresult \<times> u8 list \<times> 's) option" where
  "disk_read D pdrv buff sector count s =
     (case disk_of D pdrv of None \<Rightarrow> Some (RES_NOTRDY, buff, s) | Some v \<Rightarrow> op_read v buff sector count s)"

definition disk_write :: "'s disks \<Rightarrow> u8 \<Rightarrow> u8 list \<Rightarrow> u32 \<Rightarrow> u32 \<Rightarrow> 's \<Rightarrow> (dresult \<times> u8 list \<times> 's) option" where
  "disk_write D pdrv buff sector count s =
     (case disk_of D pdrv of None \<Rightarrow> Some (RES_NOTRDY, buff, s) | Some v \<Rightarrow> op_write v buff sector count s)"

definition disk_ioctl :: "'s disks \<Rightarrow> u8 \<Rightarrow> u8 \<Rightarrow> 's \<Rightarrow> (dresult \<times> u32 option) \<times> 's" where
  "disk_ioctl D pdrv cmd s =
     (case disk_of D pdrv of None \<Rightarrow> ((RES_NOTRDY, None), s) | Some v \<Rightarrow> op_ioctl v cmd s)"

definition sd_ready :: "'d sdst \<Rightarrow> bool" where "sd_ready s = initialised (sd_self (fst s))"

definition sd_status :: "'d sdst \<Rightarrow> u8 \<times> 'd sdst" where
  "sd_status s = (if sd_ready s then 0 else STA_NOINIT, s)"

definition sd_initialize :: "'d sdst \<Rightarrow> u8 \<times> 'd sdst" where "sd_initialize = sd_status"

definition to_dresult :: "int \<times> u8 list \<times> 'd sdst \<Rightarrow> dresult \<times> u8 list \<times> 'd sdst" where
  "to_dresult x = (case x of (ret, y) \<Rightarrow> (if ret = 0 then RES_OK else RES_ERROR, y))"

definition sd_read :: "'d machine \<Rightarrow> (string \<Rightarrow> u32) \<Rightarrow> systick \<Rightarrow> u8 list \<Rightarrow> u32 \<Rightarrow> u32 \<Rightarrow> 'd sdst \<Rightarrow>
    (dresult \<times> u8 list \<times> 'd sdst) option" where
  "sd_read M K tk buff sector count s =
     (if \<not> sd_ready s then Some (RES_NOTRDY, buff, s)
      else map_option to_dresult (sd_read_blocks M K tk sector buff count s))"

definition sd_write :: "'d machine \<Rightarrow> (string \<Rightarrow> u32) \<Rightarrow> systick \<Rightarrow> u8 list \<Rightarrow> u32 \<Rightarrow> u32 \<Rightarrow> 'd sdst \<Rightarrow>
    (dresult \<times> u8 list \<times> 'd sdst) option" where
  "sd_write M K tk buff sector count s =
     (if \<not> sd_ready s then Some (RES_NOTRDY, buff, s)
      else map_option to_dresult (sd_write_blocks M K tk sector buff count s))"

definition CTRL_SYNC :: u8 where "CTRL_SYNC = 0"
definition GET_SECTOR_COUNT :: u8 where "GET_SECTOR_COUNT = 1"
definition GET_SECTOR_SIZE :: u8 where "GET_SECTOR_SIZE = 2"
definition GET_BLOCK_SIZE :: u8 where "GET_BLOCK_SIZE = 3"

definition sd_ioctl :: "u8 \<Rightarrow> 'd sdst \<Rightarrow> (dresult \<times> u32 option) \<times> 'd sdst" where
  "sd_ioctl cmd s =
     (if \<not> sd_ready s then (RES_NOTRDY, None)
      else if cmd = CTRL_SYNC then (RES_OK, None)
      else if cmd = GET_SECTOR_COUNT then (RES_OK, Some (block_count (sd_self (fst s))))
      else if cmd = GET_SECTOR_SIZE then (RES_OK, Some SD_BLOCK_SIZE)
      else if cmd = GET_BLOCK_SIZE then (RES_OK, Some 1)
      else (RES_PARERR, None), s)"

definition s_sd_ops :: "'d machine \<Rightarrow> (string \<Rightarrow> u32) \<Rightarrow> systick \<Rightarrow> 'd sdst disk_ops" where
  "s_sd_ops M K tk = \<lparr>op_status = sd_status, op_initialize = sd_initialize, op_read = sd_read M K tk,
     op_write = sd_write M K tk, op_ioctl = sd_ioctl\<rparr>"

definition sd_disk_register :: "'d machine \<Rightarrow> (string \<Rightarrow> u32) \<Rightarrow> systick \<Rightarrow> 'd sdst disks \<Rightarrow> 'd sdst disks" where
  "sd_disk_register M K tk = register_disk PDRV_SD (Some (s_sd_ops M K tk))"

section \<open>What a watcher on the bus sees\<close>

text \<open>
  \<open>watched K M\<close> is the machine \<open>M\<close>, of any behaviour, beside a record of what the driver
  does to it: the last argument, geometry and direction written, the bytes the driver
  stored in memory, and the commands and DMA starts in order.  A DMA start of a write
  records the bytes the controller will find at the address.
\<close>

datatype sd_event = Cmd u32 u32 | Arm bool nat nat u32 "u8 list"

record bus =
  b_arg :: u32
  b_cfg :: u32
  b_dir :: u32
  b_mem :: "u32 \<Rightarrow> u8"
  b_events :: "sd_event list"

definition bus_idle :: bus where
  "bus_idle = \<lparr>b_arg = 0, b_cfg = 0, b_dir = 0, b_mem = (\<lambda>_. 0), b_events = []\<rparr>"

definition mem_bytes :: "(u32 \<Rightarrow> u8) \<Rightarrow> u32 \<Rightarrow> nat \<Rightarrow> u8 list" where
  "mem_bytes m a n = map (\<lambda>i. m (a + word_of_nat i)) [0..<n]"

definition arm_event :: "(string \<Rightarrow> u32) \<Rightarrow> bus \<Rightarrow> u32 \<Rightarrow> sd_event" where
  "arm_event K b a =
     (let wr = b_dir b AND K ''SDMMC_DMA_DIR'' \<noteq> 0; size = unat (drop_bit 16 (b_cfg b)); n = unat (b_cfg b AND 0xFFFF)
      in Arm wr size n a (if wr then mem_bytes (b_mem b) a (n * size) else []))"

fun bus_write :: "(string \<Rightarrow> u32) \<Rightarrow> reg \<Rightarrow> u32 \<Rightarrow> bus \<Rightarrow> bus" where
  "bus_write K (MEM8 a) v b = b\<lparr>b_mem := (b_mem b)(a := ucast v)\<rparr>"
| "bus_write K (REG r) v b =
     (if REG r = ARGUMENT then b\<lparr>b_arg := v\<rparr>
      else if REG r = BLOCK_CFG then b\<lparr>b_cfg := v\<rparr>
      else if REG r = TRAN_MODE then b\<lparr>b_dir := v\<rparr>
      else if REG r = CMD_SET then b\<lparr>b_events := b_events b @ [Cmd (v AND 0x3F) (b_arg b)]\<rparr>
      else if REG r = DMA_BEG1 then b\<lparr>b_events := b_events b @ [arm_event K b v]\<rparr>
      else b)"
| "bus_write K r v b = b"

definition watched :: "(string \<Rightarrow> u32) \<Rightarrow> 'd machine \<Rightarrow> ('d \<times> bus) machine" where
  "watched K M =
     \<lparr>m_rd = \<lambda>r x. (case m_rd M r (fst x) of (v, d) \<Rightarrow> (v, (d, snd x))),
      m_wr = \<lambda>r v x. (m_wr M r v (fst x), bus_write K r v (snd x)),
      m_millis = \<lambda>x. (case m_millis M (fst x) of (v, d) \<Rightarrow> (v, (d, snd x))),
      m_call = \<lambda>c x. (m_call M c (fst x), snd x),
      m_ask = \<lambda>c x. (case m_ask M c (fst x) of (v, d) \<Rightarrow> (v, (d, snd x)))\<rparr>"

lemma watched_bus [simp]:
  "snd (snd (m_rd (watched K M) r x)) = snd x" "snd (m_wr (watched K M) r v x) = bus_write K r v (snd x)"
  "snd (snd (m_millis (watched K M) x)) = snd x" "snd (m_call (watched K M) c x) = snd x"
  by (simp_all add: watched_def split_beta)

lemma watched_rd: "m_rd (watched K M) r x = (v, y) \<Longrightarrow> snd y = snd x"
  by (metis snd_conv watched_bus(1))

lemma watched_millis: "m_millis (watched K M) x = (v, y) \<Longrightarrow> snd y = snd x"
  by (metis snd_conv watched_bus(3))

lemma bus_write_regs:
  "bus_write K ARGUMENT v b = b\<lparr>b_arg := v\<rparr>" "bus_write K BLOCK_CFG v b = b\<lparr>b_cfg := v\<rparr>"
  "bus_write K TRAN_MODE v b = b\<lparr>b_dir := v\<rparr>" "bus_write K INT_FG v b = b" "bus_write K WRITE_CONT v b = b"
  "bus_write K CMD_SET v b = b\<lparr>b_events := b_events b @ [Cmd (v AND 0x3F) (b_arg b)]\<rparr>"
  "bus_write K DMA_BEG1 v b = b\<lparr>b_events := b_events b @ [arm_event K b v]\<rparr>"
  by (simp_all add: sd_regs)

text \<open>
  Status queries (CMD13) come in any number and are left out.  \<open>seen s s' evs\<close>: from \<open>s\<close>
  to \<open>s'\<close> the driver did \<open>evs\<close> on the bus, and left memory and its own state, the command
  log apart, as they were.
\<close>

fun transfer_event :: "sd_event \<Rightarrow> bool" where
  "transfer_event (Cmd i a) = (i \<noteq> ucast SEND_STATUS)"
| "transfer_event (Arm w k n a bs) = True"

definition transfers :: "bus \<Rightarrow> sd_event list" where
  "transfers b = filter transfer_event (b_events b)"

definition seen :: "('d \<times> bus) sdst \<Rightarrow> ('d \<times> bus) sdst \<Rightarrow> sd_event list \<Rightarrow> bool" where
  "seen s s' evs \<longleftrightarrow> transfers (snd (snd s')) = transfers (snd (snd s)) @ evs \<and>
     b_mem (snd (snd s')) = b_mem (snd (snd s)) \<and> fst s' = (fst s)\<lparr>sd_log := sd_log (fst s')\<rparr>"

lemma seen_refl: "snd (snd s') = snd (snd s) \<Longrightarrow> fst s' = fst s \<Longrightarrow> seen s s' []"
  by (simp add: seen_def)

lemma seen_trans: "seen s s' evs \<Longrightarrow> seen s' s'' evs' \<Longrightarrow> seen s s'' (evs @ evs')"
  unfolding seen_def by (metis (no_types, lifting) append_assoc sdmmc.fold_congs(2) sdmmc.surjective sdmmc.update_convs(2))

lemma seen_self: "seen s s' evs \<Longrightarrow> sd_self (fst s') = sd_self (fst s) \<and> sd_dma_half (fst s') = sd_dma_half (fst s)"
  unfolding seen_def by (metis sdmmc.select_convs(1,4) sdmmc.surjective sdmmc.update_convs(2))

text \<open>The operations of the controller, as seen on the bus.\<close>

lemma sd_wait_dat0_seen:
  assumes "sd_wait_dat0 (watched K M) K s = Some (ret, s')"
  shows "seen s s' []"
proof -
  obtain st x where s: "s = (st, x)" by (cases s)
  obtain ok x' where w: "wait_until (watched K M) (dat0_high (watched K M) K) 1000 x = Some (ok, x')" "s' = (st, x')"
    using assms s by (auto simp: sd_wait_dat0_def bind_eq_Some_conv)
  have "snd x' = snd x"
    using wait_until_inv [OF w(1), of "\<lambda>y. snd y = snd x"] by (simp add: dat0_high_def split_beta)
  then show ?thesis using s w(2) by (simp add: seen_refl)
qed

lemma flags_seen_bus [simp]: "snd (snd (flags_seen (watched K M) sel x)) = snd x"
  by (simp add: flags_seen_def split_beta)

lemma sd_cmd_gap_seen:
  assumes "sd_cmd_gap (watched K M) tk s = Some s'"
  shows "fst s' = fst s" "snd (snd s') = snd (snd s)"
proof -
  obtain st x where s: "s = (st, x)" by (cases s)
  let ?us = "(8000000 + sd_clk_hz st - 1) div sd_clk_hz st"
  obtain x' where d: "delayMicroseconds (watched K M) tk (if ?us < 1 then 1 else ?us) x = Some x'" "s' = (st, x')"
    using assms s by (auto simp: sd_cmd_gap_def Let_def bind_eq_Some_conv split: if_splits)
  have "snd x' = snd x" by (rule delayMicroseconds_inv [OF d(1), of "\<lambda>y. snd y = snd x"]) simp_all
  then show "fst s' = fst s" "snd (snd s') = snd (snd s)" using s d(2) by simp_all
qed

lemma sd_cmd_log_seen: "seen s (sd_cmd_log (watched K M) idx fg s) []"
  by (cases s) (simp add: sd_cmd_log_def seen_def split_beta)

lemma command_words:
  assumes "idx \<in> {STOP_TRANSMISSION, SEND_STATUS, READ_SINGLE_BLOCK, READ_MULTIPLE_BLOCK, WRITE_BLOCK, WRITE_MULTIPLE_BLOCK}"
    "resp \<in> {RESP_R1, RESP_R1B}"
  shows "low16 ((ucast idx AND 0x3F) OR resp) AND 0x3F = ucast idx"
  using assms by (auto simp: low16_def RESP_R1_def RESP_R1B_def STOP_TRANSMISSION_def SEND_STATUS_def READ_SINGLE_BLOCK_def
      READ_MULTIPLE_BLOCK_def WRITE_BLOCK_def WRITE_MULTIPLE_BLOCK_def)

lemma sd_cmd_seen:
  assumes K: "K ''SDMMC_CMDIDX_MASK'' = 0x3F" "low16 ((ucast idx AND 0x3F) OR resp) AND 0x3F = ucast idx"
    and r: "sd_cmd (watched K M) K tk idx a resp s = Some (ret, s')"
  shows "seen s s' (filter transfer_event [Cmd (ucast idx) a])"
proof -
  let ?W = "watched K M"
  obtain st x where g: "sd_cmd_gap ?W tk s = Some (st, x)" using r by (auto simp: sd_cmd_def bind_eq_Some_conv)
  let ?x = "do_all [m_wr ?W INT_FG (cmd_flags K), m_wr ?W ARGUMENT a,
      m_wr ?W CMD_SET (low16 ((ucast idx AND K ''SDMMC_CMDIDX_MASK'') OR resp))] x"
  have b: "snd ?x = (snd x)\<lparr>b_arg := a, b_events := b_events (snd x) @ [Cmd (ucast idx) a]\<rparr>"
    using K by (simp add: bus_write_regs)
  obtain fg x' where w: "wait_for ?W (flags_seen ?W (cmd_flags K)) 1000 ?x = Some (fg, x')"
    "s' = (st, x') \<or> (\<exists>f. s' = sd_cmd_log ?W idx f (st, x'))"
    using r g by (simp add: sd_cmd_def Let_def bind_eq_Some_conv split: option.splits) blast
  have "snd x' = snd ?x" by (rule wait_for_inv [OF w(1), of "\<lambda>y. snd y = snd ?x"]) simp_all
  then have "seen s (st, x') (filter transfer_event [Cmd (ucast idx) a])"
    using sd_cmd_gap_seen [OF g] b by (simp add: seen_def transfers_def)
  moreover have "seen (st, x') s' []" using w(2) sd_cmd_log_seen [of "(st, x')"] by (auto intro: seen_refl)
  ultimately show ?thesis using seen_trans by fastforce
qed

lemma rd_hw_seen: "rd_hw (watched K M) r s = (v, s') \<Longrightarrow> seen s s' []"
  by (cases s) (auto simp: rd_hw_def split: prod.splits dest!: watched_rd intro: seen_refl)

lemma sd_cmd_r1_seen:
  assumes "K ''SDMMC_CMDIDX_MASK'' = 0x3F" "low16 ((ucast idx AND 0x3F) OR resp) AND 0x3F = ucast idx"
    and "sd_cmd_r1 (watched K M) K tk idx a resp s = Some (ret, s')"
  shows "seen s s' (filter transfer_event [Cmd (ucast idx) a])"
proof -
  obtain ret1 s1 where c: "sd_cmd (watched K M) K tk idx a resp s = Some (ret1, s1)"
    "s' = s1 \<or> (\<exists>v. rd_hw (watched K M) (RESPONSE 3) s1 = (v, s'))"
    using assms(3) by (auto simp: sd_cmd_r1_def sd_then_def sd_resp_short_def bind_eq_Some_conv split: if_splits prod.splits)
  have "seen s1 s' []" using c(2) by (auto intro: seen_refl rd_hw_seen)
  then show ?thesis using seen_trans [OF sd_cmd_seen [OF assms(1,2) c(1)]] by fastforce
qed

lemma sd_ready_loop_seen:
  assumes K: "K ''SDMMC_CMDIDX_MASK'' = 0x3F"
    and r: "sd_ready_loop (watched K M) K tk deadline s = Some (ret, s')"
  shows "seen s s' []"
proof -
  let ?W = "watched K M"
  have "N = ?W \<longrightarrow> L = K \<longrightarrow> seen s (snd y) []" if "sd_ready_loop N L tk deadline s = Some y" for N L y
  proof (rule sd_ready_loop.raw_induct [OF _ that])
    fix loop N L tk deadline s y
    assume ih: "\<And>N L tk deadline s y. loop N L tk deadline s = Some y \<Longrightarrow> N = ?W \<longrightarrow> L = K \<longrightarrow> seen s (snd y) []"
      and e: "do { (ret, s) \<leftarrow> sd_cmd N L tk SEND_STATUS (rca_arg s) RESP_R1 s;
          if ret \<noteq> 0 then Some (ret, s)
          else (case sd_resp_short N s of (status, s) \<Rightarrow>
            if status AND SD_R1_ERROR_MASK \<noteq> 0 then Some (SD_EIO, s)
            else if status AND push_bit 8 1 \<noteq> 0 then Some (0, s)
            else (case s of (st, d) \<Rightarrow> case m_millis N d of (t, d) \<Rightarrow>
              if timed_out deadline t then Some (SD_ETIMEDOUT, st, d) else loop N L tk deadline (st, d))) } = Some y"
    show "N = ?W \<longrightarrow> L = K \<longrightarrow> seen s (snd y) []"
    proof (intro impI)
      assume NL: "N = ?W" "L = K"
      obtain ret1 s1 where c: "sd_cmd ?W K tk SEND_STATUS (rca_arg s) RESP_R1 s = Some (ret1, s1)"
        using e NL by (auto simp: bind_eq_Some_conv)
      have "seen s s1 []"
        using sd_cmd_seen [OF K command_words c] by simp
      moreover obtain v st x where v: "rd_hw ?W (RESPONSE 3) s1 = (v, (st, x))" by (metis surj_pair)
      moreover obtain t x' where t: "m_millis ?W x = (t, x')" by (cases "m_millis ?W x")
      ultimately have s: "seen s s1 []" "seen s (st, x) []" "seen s (st, x') []"
        using seen_trans [of s s1 "[]" _ "[]"] rd_hw_seen [OF v] watched_millis [OF t]
        by (auto simp: seen_def)
      have "snd y = s1 \<or> snd y = (st, x) \<or> snd y = (st, x') \<or> loop ?W K tk deadline (st, x') = Some y"
        using e NL c v t by (auto simp: sd_resp_short_def split: if_splits)
      then show "seen s (snd y) []"
        using s ih [of ?W K tk deadline "(st, x')" y] seen_trans [OF s(3), of "snd y" "[]"] by auto
    qed
  qed
  from this [OF r] show ?thesis by simp
qed

lemma sd_wait_ready_seen:
  assumes "K ''SDMMC_CMDIDX_MASK'' = 0x3F" "sd_wait_ready (watched K M) K tk s = Some (ret, s')"
  shows "seen s s' []"
proof -
  obtain st x where s: "s = (st, x)" by (cases s)
  obtain t x' where t: "m_millis (watched K M) x = (t, x')" by (cases "m_millis (watched K M) x")
  have "seen s (st, x') []" using s watched_millis [OF t] by (simp add: seen_refl)
  moreover have "seen (st, x') s' []"
    by (rule sd_ready_loop_seen [where K = K, OF assms(1)]) (use assms(2) s t in \<open>simp add: sd_wait_ready_def\<close>)
  ultimately show ?thesis using seen_trans by fastforce
qed

lemma sd_wait_data_flag_bus: "sd_wait_data_flag (watched K M) K x = Some (fg, x') \<Longrightarrow> snd x' = snd x"
  by (auto simp: sd_wait_data_flag_def bind_eq_Some_conv elim!: wait_for_inv [where P = "\<lambda>y. snd y = snd x"])

lemma sd_blocks_done_bus: "sd_blocks_done (watched K M) K x = (n, x') \<Longrightarrow> snd x' = snd x"
  by (auto simp: sd_blocks_done_def split: prod.splits dest: watched_rd)

lemma sd_read_data_bus:
  assumes "sd_read_data (watched K M) K nblocks x = Some (ret, x')"
  shows "snd x' = snd x"
proof -
  let ?W = "watched K M"
  have "N = ?W \<longrightarrow> L = K \<longrightarrow> snd (snd y) = snd x" if "sd_read_data N L nblocks x = Some y" for N L y
  proof (rule sd_read_data.raw_induct [OF _ that])
    fix loop N L nblocks x y
    assume ih: "\<And>N L nblocks x y. loop N L nblocks x = Some y \<Longrightarrow> N = ?W \<longrightarrow> L = K \<longrightarrow> snd (snd y) = snd x"
      and e: "do { (fg, d) \<leftarrow> sd_wait_data_flag N L x;
          let err = sd_data_flag_error L fg;
          if err \<noteq> 0 then Some (err, d)
          else if fg AND L ''SDMMC_IF_TRANDONE'' \<noteq> 0 then Some (0, d)
          else if nblocks = 1 \<and> fg AND L ''SDMMC_IF_BKGAP'' \<noteq> 0 then Some (0, d)
          else loop N L nblocks (m_wr N INT_FG (L ''SDMMC_IF_BKGAP'') d) } = Some y"
    show "N = ?W \<longrightarrow> L = K \<longrightarrow> snd (snd y) = snd x"
    proof (intro impI)
      assume NL: "N = ?W" "L = K"
      obtain fg d where f: "sd_wait_data_flag ?W K x = Some (fg, d)" using e NL by (auto simp: bind_eq_Some_conv)
      have "snd y = d \<or> loop ?W K nblocks (m_wr ?W INT_FG (K ''SDMMC_IF_BKGAP'') d) = Some y"
        using e NL f by (auto simp: Let_def split: if_splits)
      then show "snd (snd y) = snd x"
        using sd_wait_data_flag_bus [OF f] ih [of ?W K nblocks "m_wr ?W INT_FG (K ''SDMMC_IF_BKGAP'') d" y]
        by (auto simp: bus_write_regs)
    qed
  qed
  from this [OF assms] show ?thesis by simp
qed

text \<open>A write clears the geometry when it is done, and nothing else shows.\<close>

definition geometry_only :: "bus \<Rightarrow> bus \<Rightarrow> bool" where
  "geometry_only b b' \<longleftrightarrow> b' = b \<or> b' = b\<lparr>b_cfg := 0\<rparr>"

lemma sd_write_loop_bus:
  assumes "sd_write_loop (watched K M) K nblocks x = Some (ret, x')"
  shows "geometry_only (snd x) (snd x')"
proof -
  let ?W = "watched K M"
  have "N = ?W \<longrightarrow> L = K \<longrightarrow> geometry_only (snd x) (snd (snd y))" if "sd_write_loop N L nblocks x = Some y" for N L y
  proof (rule sd_write_loop.raw_induct [OF _ that])
    fix loop N L nblocks x y
    assume ih: "\<And>N L nblocks x y. loop N L nblocks x = Some y \<Longrightarrow> N = ?W \<longrightarrow> L = K \<longrightarrow> geometry_only (snd x) (snd (snd y))"
      and e: "(case sd_blocks_done N L x of (n, d) \<Rightarrow>
         if n < nblocks
         then do { (fg, d) \<leftarrow> sd_wait_data_flag N L d;
                   let err = sd_data_flag_error L fg;
                   if err \<noteq> 0 then Some (err, d)
                   else (case sd_blocks_done N L (m_wr N INT_FG fg d) of (n, d) \<Rightarrow>
                     if n \<ge> nblocks then Some (0, m_wr N BLOCK_CFG 0 d)
                     else loop N L nblocks (m_wr N WRITE_CONT 0 d)) }
         else Some (0, m_wr N BLOCK_CFG 0 d)) = Some y"
    show "N = ?W \<longrightarrow> L = K \<longrightarrow> geometry_only (snd x) (snd (snd y))"
    proof (intro impI)
      assume NL: "N = ?W" "L = K"
      obtain n d where c: "sd_blocks_done ?W K x = (n, d)" by (cases "sd_blocks_done ?W K x")
      note b = sd_blocks_done_bus [OF c]
      show "geometry_only (snd x) (snd (snd y))"
      proof (cases "n < nblocks")
        case True
        obtain fg d1 where f: "sd_wait_data_flag ?W K d = Some (fg, d1)"
          using e NL c True by (auto simp: bind_eq_Some_conv)
        obtain n2 d2 where c2: "sd_blocks_done ?W K (m_wr ?W INT_FG fg d1) = (n2, d2)"
          by (cases "sd_blocks_done ?W K (m_wr ?W INT_FG fg d1)")
        have b2: "snd d1 = snd x" "snd d2 = snd x"
          using b sd_wait_data_flag_bus [OF f] sd_blocks_done_bus [OF c2] by (simp_all add: bus_write_regs)
        have "snd y = d1 \<or> snd y = m_wr ?W BLOCK_CFG 0 d2 \<or> loop ?W K nblocks (m_wr ?W WRITE_CONT 0 d2) = Some y"
          using e NL c True f c2 by (auto simp: Let_def split: if_splits)
        then show ?thesis
          using b2 ih [of ?W K nblocks "m_wr ?W WRITE_CONT 0 d2" y] by (auto simp: geometry_only_def bus_write_regs)
      next
        case False
        then show ?thesis using e NL c b by (auto simp: geometry_only_def bus_write_regs)
      qed
    qed
  qed
  from this [OF assms] show ?thesis by simp
qed

lemma sd_write_data_bus:
  assumes "sd_write_data (watched K M) K nblocks x = Some (ret, x')"
  shows "geometry_only (snd x) (snd x')"
proof -
  obtain ok d where w: "wait_until (watched K M) (counter_reset (watched K M) K) 200 x = Some (ok, d)"
    "d = x' \<or> sd_write_loop (watched K M) K nblocks d = Some (ret, x')"
    using assms by (auto simp: sd_write_data_def bind_eq_Some_conv split: if_splits)
  have "snd (snd (counter_reset (watched K M) K y)) = snd y" for y
    by (auto simp: counter_reset_def split: prod.splits dest: sd_blocks_done_bus)
  then have "snd d = snd x" by (intro wait_until_inv [OF w(1), of "\<lambda>y. snd y = snd x"]) simp_all
  then show ?thesis using w(2) sd_write_loop_bus [of K M nblocks d ret x'] by (auto simp: geometry_only_def)
qed

section \<open>One run\<close>

text \<open>The DMA buffers in memory.\<close>

lemma word_offset_inject: "i < 4294967296 \<Longrightarrow> j < 4294967296 \<Longrightarrow> (a :: u32) + word_of_nat i = a + word_of_nat j \<longleftrightarrow> i = j"
proof -
  assume i: "i < 4294967296" "j < 4294967296"
  have u: "unat (word_of_nat n :: u32) = n" if "n < 4294967296" for n
    using that by (simp only: unsigned_of_nat of_nat_id) (simp add: take_bit_nat_eq_self)
  show ?thesis by (metis add_left_cancel u i)
qed

lemma mem_bytes_cong: "(\<And>i. i < n \<Longrightarrow> m (a + word_of_nat i) = m' (a + word_of_nat i)) \<Longrightarrow> mem_bytes m a n = mem_bytes m' a n"
  by (simp add: mem_bytes_def)

lemma mem_bytes_Suc: "mem_bytes m a (Suc n) = m a # mem_bytes m (a + 1) n"
  by (simp add: mem_bytes_def upt_conv_Cons map_Suc_upt [symmetric] del: upt_Suc) (simp add: algebra_simps)

lemma dma_put_bus:
  assumes "length bs \<le> 4294967296"
  shows "mem_bytes (b_mem (snd (dma_put (watched K M) a bs x))) a (length bs) = bs \<and>
    (\<exists>m. snd (dma_put (watched K M) a bs x) = (snd x)\<lparr>b_mem := m\<rparr> \<and>
       (\<forall>j. length bs \<le> j \<longrightarrow> j < 4294967296 \<longrightarrow> m (a + word_of_nat j) = b_mem (snd x) (a + word_of_nat j)))"
  using assms
proof (induction bs arbitrary: a x)
  case Nil
  then show ?case by (auto simp: mem_bytes_def intro: exI [of _ "b_mem (snd x)"])
next
  case (Cons c bs)
  let ?x = "m_wr (watched K M) (MEM8 a) (ucast c) x"
  have l: "length bs \<le> 4294967296" using Cons.prems by simp
  obtain m where m: "snd (dma_put (watched K M) (a + 1) bs ?x) = (snd ?x)\<lparr>b_mem := m\<rparr>"
    "\<And>j. length bs \<le> j \<Longrightarrow> j < 4294967296 \<Longrightarrow> m (a + 1 + word_of_nat j) = b_mem (snd ?x) (a + 1 + word_of_nat j)"
    "mem_bytes m (a + 1) (length bs) = bs"
    using Cons.IH [OF l, of "a + 1" ?x] by auto
  have x: "snd ?x = (snd x)\<lparr>b_mem := (b_mem (snd x))(a := c)\<rparr>" by simp
  have last: "m (a + word_of_nat (Suc j)) = b_mem (snd x) (a + word_of_nat (Suc j))"
    if "length bs \<le> j" "Suc j < 4294967296" for j
    using m(2) [of j] that word_offset_inject [of "Suc j" 0 a] by (simp add: x algebra_simps)
  have first: "m a = c"
  proof -
    have "m (a + 1 + word_of_nat 4294967295) = b_mem (snd ?x) (a + 1 + word_of_nat 4294967295)"
      using m(2) [of 4294967295] Cons.prems by simp
    moreover have "(4294967296 :: u32) = 0" by (simp add: word_unat_eq_iff)
    ultimately show ?thesis by (simp add: x)
  qed
  have "snd (dma_put (watched K M) a (c # bs) x) = (snd x)\<lparr>b_mem := m\<rparr>" using m(1) x by simp
  moreover have "mem_bytes m a (length (c # bs)) = c # bs" using first m(3) by (simp add: mem_bytes_Suc)
  moreover have "m (a + word_of_nat j) = b_mem (snd x) (a + word_of_nat j)"
    if "length (c # bs) \<le> j" "j < 4294967296" for j
    using that last [of "j - 1"] by (cases j) auto
  ultimately show ?case by (auto intro: exI [of _ m])
qed

lemma dma_get_bus: "dma_get (watched K M) a n x = (bs, x') \<Longrightarrow> snd x' = snd x \<and> length bs = n"
proof (induction n arbitrary: a x bs x')
  case (Suc n)
  obtain v y where r: "m_rd (watched K M) (MEM8 a) x = (v, y)" by (cases "m_rd (watched K M) (MEM8 a) x")
  obtain cs z where g: "dma_get (watched K M) (a + 1) n y = (cs, z)" by (cases "dma_get (watched K M) (a + 1) n y")
  show ?case using Suc.IH [OF g] Suc.prems r g watched_rd [OF r] by auto
qed simp

lemma run_geometry:
  assumes "unat (n :: u32) \<le> 8"
  shows "drop_bit 16 (push_bit 16 SD_BLOCK_SIZE OR n) = 512" "(push_bit 16 SD_BLOCK_SIZE OR n) AND 0xFFFF = n"
proof -
  have "unat n = 0 \<or> unat n = 1 \<or> unat n = 2 \<or> unat n = 3 \<or> unat n = 4 \<or> unat n = 5 \<or> unat n = 6 \<or> unat n = 7 \<or> unat n = 8"
    using assms by linarith
  then have "n = 0 \<or> n = 1 \<or> n = 2 \<or> n = 3 \<or> n = 4 \<or> n = 5 \<or> n = 6 \<or> n = 7 \<or> n = 8"
    by (simp add: u32_eq_iff)
  then show "drop_bit 16 (push_bit 16 SD_BLOCK_SIZE OR n) = 512" "(push_bit 16 SD_BLOCK_SIZE OR n) AND 0xFFFF = n"
    by (auto simp: SD_BLOCK_SIZE_def)
qed

lemma sd_arm_bus:
  assumes "K ''SDMMC_DMA_DIR'' \<noteq> 0" "unat n \<le> 8"
  shows "\<exists>c d. snd (sd_arm (watched K M) K dma SD_BLOCK_SIZE n wr x) =
    (snd x)\<lparr>b_cfg := c, b_dir := d, b_events := b_events (snd x) @
       [Arm wr 512 (unat n) dma (if wr then mem_bytes (b_mem (snd x)) dma (unat n * 512) else [])]\<rparr>"
  using assms run_geometry [OF assms(2)]
  by (intro exI [of _ "push_bit 16 SD_BLOCK_SIZE OR n"] exI [of _ "if wr then K ''SDMMC_DMA_DIR'' else 0"])
    (cases wr; simp add: sd_arm_def bus_write_regs arm_event_def Let_def)

text \<open>
  What a run is on the bus: a read arms the engine before its command, a write after it,
  and more than one block end with CMD12.  When the card refuses the command nothing
  follows it.
\<close>

definition run_command :: "bool \<Rightarrow> u32 \<Rightarrow> nat \<Rightarrow> sd_event" where
  "run_command wr a n = Cmd (if wr then if n = 1 then 24 else 25 else if n = 1 then 17 else 18) a"

definition run_refused :: "bool \<Rightarrow> u32 \<Rightarrow> nat \<Rightarrow> u32 \<Rightarrow> sd_event list" where
  "run_refused wr a n dma = (if wr then [run_command wr a n] else [Arm False 512 n dma [], run_command wr a n])"

definition run_whole :: "bool \<Rightarrow> u32 \<Rightarrow> nat \<Rightarrow> u32 \<Rightarrow> u8 list \<Rightarrow> sd_event list" where
  "run_whole wr a n dma data =
     run_refused wr a n dma @ (if wr then [Arm True 512 n dma data] else []) @ (if n > 1 then [Cmd 12 0] else [])"

lemma seen_arm:
  assumes "K ''SDMMC_DMA_DIR'' \<noteq> 0" "unat n \<le> 8"
  shows "seen s (on_hw (sd_arm (watched K M) K dma SD_BLOCK_SIZE n wr) s)
    [Arm wr 512 (unat n) dma (if wr then mem_bytes (b_mem (snd (snd s))) dma (unat n * 512) else [])]"
  using sd_arm_bus [where K = K, OF assms, of M dma wr "snd s"] by (cases s) (auto simp: on_hw_def seen_def transfers_def)

lemma seen_data_phase:
  assumes "lift_hw (if wr then sd_write_data (watched K M) K n else sd_read_data (watched K M) K n) s = Some (ret, s')"
  shows "seen s s' []"
proof -
  obtain st x x' where s: "s = (st, x)" "s' = (st, x')"
    "(if wr then sd_write_data (watched K M) K n x else sd_read_data (watched K M) K n x) = Some (ret, x')"
    using assms by (cases s) (auto simp: lift_hw_def bind_eq_Some_conv split: if_splits)
  have "geometry_only (snd x) (snd x')"
    using s(3) sd_write_data_bus [of K M n x ret x'] sd_read_data_bus [of K M n x ret x']
    by (auto simp: geometry_only_def split: if_splits)
  then show ?thesis using s(1,2) by (auto simp: geometry_only_def seen_def transfers_def)
qed

lemma sd_finish_seen:
  assumes K: "K ''SDMMC_CMDIDX_MASK'' = 0x3F" and r: "sd_finish (watched K M) K tk n wr (ret0, s) = Some (ret, s')"
  shows "seen s s' (if unat n > 1 then [Cmd 12 0] else []) \<and> (ret0 \<noteq> 0 \<longrightarrow> ret \<noteq> 0)"
proof -
  let ?W = "watched K M"
  have gt: "n > 1 \<longleftrightarrow> unat n > 1" by (simp add: word_less_nat_alt)
  obtain ret1 s1 where a: "seen s s1 (if unat n > 1 then [Cmd 12 0] else [])" "ret0 \<noteq> 0 \<longrightarrow> ret1 \<noteq> 0"
    "(if ret1 = 0 \<and> wr then sd_wait_ready ?W K tk s1 else Some (ret1, s1)) = Some (ret, s')"
  proof (cases "n > 1")
    case True
    obtain stop s1 where c: "sd_cmd_r1 ?W K tk STOP_TRANSMISSION 0 RESP_R1B s = Some (stop, s1)"
      using r True by (auto simp: sd_finish_def bind_eq_Some_conv)
    have "seen s s1 [Cmd 12 0]"
      using sd_cmd_r1_seen [where K = K, OF K command_words c] by (simp add: STOP_TRANSMISSION_def SEND_STATUS_def)
    then show ?thesis
      using that [of s1 "if ret0 = 0 then stop else ret0"] r True c gt by (simp add: sd_finish_def split: if_splits)
  next
    case False
    then show ?thesis using that [of s ret0] r gt by (simp add: sd_finish_def seen_refl)
  qed
  have "seen s1 s' []"
    using a(3) sd_wait_ready_seen [where K = K and M = M and tk = tk and s = s1 and ret = ret and s' = s', OF K]
    by (auto simp: seen_refl split: if_splits)
  then show ?thesis using seen_trans [OF a(1)] a(2,3) by (fastforce split: if_splits)
qed

lemma sd_transfer_dma_seen:
  assumes K: "K ''SDMMC_CMDIDX_MASK'' = 0x3F" "K ''SDMMC_DMA_DIR'' \<noteq> 0" and n: "0 < unat n" "unat n \<le> 8"
    and r: "sd_transfer_dma (watched K M) K tk block dma n wr s = Some (ret, s')"
  shows "\<exists>evs. seen s s' evs \<and> (let a = run_addr (fst s) block; data = mem_bytes (b_mem (snd (snd s))) dma (unat n * 512) in
    evs = run_whole wr a (unat n) dma data \<or> ret \<noteq> 0 \<and> (evs = [] \<or> evs = run_refused wr a (unat n) dma))"
proof -
  let ?W = "watched K M" and ?a = "run_addr (fst s) block" and ?m = "b_mem (snd (snd s))"
  let ?data = "mem_bytes ?m dma (unat n * 512)" and ?arm = "on_hw (sd_arm (watched K M) K dma SD_BLOCK_SIZE n wr)"
  let ?armed = "[Arm wr 512 (unat n) dma (if wr then ?data else [])]"
  obtain ret0 s0 where w: "sd_wait_dat0 ?W K s = Some (ret0, s0)"
    using r by (auto simp: sd_transfer_dma_def Let_def bind_eq_Some_conv)
  note w0 = sd_wait_dat0_seen [OF w]
  show ?thesis
  proof (cases "ret0 = 0")
    case False
    then show ?thesis using r w w0 by (auto simp: sd_transfer_dma_def Let_def)
  next
    case True
    let ?s1 = "on_hw (m_wr ?W INT_FG 0xFFFF) s0"
    have s1: "seen s ?s1 []" using w0 by (cases s0) (simp add: on_hw_def seen_def bus_write_regs)
    let ?s2 = "(if wr then (\<lambda>s. s) else ?arm) ?s1"
    have mem: "b_mem (snd (snd ?s1)) = ?m" using s1 by (simp add: seen_def)
    have s2: "seen s ?s2 (if wr then [] else ?armed)"
      using s1 seen_trans [OF s1 seen_arm [where K = K, OF K(2) n(2), of ?s1 M dma False]] by simp
    obtain ret1 s3 where c: "sd_cmd_r1 ?W K tk (run_cmd wr n) ?a RESP_R1 ?s2 = Some (ret1, s3)"
      using r w True by (auto simp: sd_transfer_dma_def Let_def bind_eq_Some_conv)
    have one: "n = 1 \<longleftrightarrow> unat n = 1" by (simp add: u32_eq_iff)
    have cmd: "filter transfer_event [Cmd (ucast (run_cmd wr n)) ?a] = [run_command wr ?a (unat n)]"
      by (simp add: run_cmd_def run_command_def one SEND_STATUS_def READ_SINGLE_BLOCK_def READ_MULTIPLE_BLOCK_def
          WRITE_BLOCK_def WRITE_MULTIPLE_BLOCK_def)
    have "run_cmd wr n \<in> {STOP_TRANSMISSION, SEND_STATUS, READ_SINGLE_BLOCK, READ_MULTIPLE_BLOCK, WRITE_BLOCK, WRITE_MULTIPLE_BLOCK}"
      by (simp add: run_cmd_def)
    then have "seen ?s2 s3 [run_command wr ?a (unat n)]"
      using sd_cmd_r1_seen [where K = K, OF K(1) command_words c] cmd by simp
    from seen_trans [OF s2 this] have s3: "seen s s3 (run_refused wr ?a (unat n) dma)"
      by (cases wr) (simp_all add: run_refused_def)
    show ?thesis
    proof (cases "ret1 = 0")
      case False
      then have "ret = ret1" "s' = s3" using r w True c by (simp_all add: sd_transfer_dma_def Let_def)
      then show ?thesis using s3 False by (auto simp: Let_def)
    next
      case ok: True
      let ?s4 = "(if wr then ?arm else (\<lambda>s. s)) s3"
      have "b_mem (snd (snd s3)) = ?m" using s3 by (simp add: seen_def)
      then have s4: "seen s ?s4 (run_refused wr ?a (unat n) dma @ (if wr then [Arm True 512 (unat n) dma ?data] else []))"
        using s3 seen_trans [OF s3 seen_arm [where K = K, OF K(2) n(2), of s3 M dma True]] by (cases wr) simp_all
      obtain ret2 s5 where l: "lift_hw (if wr then sd_write_data ?W K n else sd_read_data ?W K n) ?s4 = Some (ret2, s5)"
        "sd_finish ?W K tk n wr (ret2, s5) = Some (ret, s')"
        using r w True c ok by (auto simp: sd_transfer_dma_def Let_def bind_eq_Some_conv)
      have "seen s s' (run_whole wr ?a (unat n) dma ?data)"
        using seen_trans [OF seen_trans [OF s4 seen_data_phase [OF l(1)]]] sd_finish_seen [where K = K, OF K(1) l(2)]
        by (simp add: run_whole_def)
      then show ?thesis by (auto simp: Let_def)
    qed
  qed
qed

section \<open>A transfer\<close>

text \<open>
  What a transfer of \<open>n\<close> blocks should be: runs of eight blocks and a shorter last one, each
  from where the one before ended, with the two DMA buffers in turn, and for a write with
  that part of the caller's data in the buffer.
\<close>

definition chunks :: "nat \<Rightarrow> nat" where "chunks n = (n + 7) div 8"
definition chunk_len :: "nat \<Rightarrow> nat \<Rightarrow> nat" where "chunk_len n i = min 8 (n - 8 * i)"
definition half_at :: "u8 \<Rightarrow> nat \<Rightarrow> u8" where "half_at h i = (if even i then h else h XOR 1)"

definition chunk_events :: "(string \<Rightarrow> u32) \<Rightarrow> sdmmc \<Rightarrow> bool \<Rightarrow> u32 \<Rightarrow> nat \<Rightarrow> u8 list \<Rightarrow> nat \<Rightarrow> sd_event list" where
  "chunk_events K st wr block n buf i =
     run_whole wr (run_addr st (block + word_of_nat (8 * i))) (chunk_len n i) (dma_buf K (half_at (sd_dma_half st) i))
       (take (chunk_len n i * 512) (drop (8 * i * 512) buf))"

definition chunk_refused :: "(string \<Rightarrow> u32) \<Rightarrow> sdmmc \<Rightarrow> bool \<Rightarrow> u32 \<Rightarrow> nat \<Rightarrow> nat \<Rightarrow> sd_event list" where
  "chunk_refused K st wr block n i =
     run_refused wr (run_addr st (block + word_of_nat (8 * i))) (chunk_len n i) (dma_buf K (half_at (sd_dma_half st) i))"

definition follows_plan :: "(string \<Rightarrow> u32) \<Rightarrow> sdmmc \<Rightarrow> bool \<Rightarrow> u32 \<Rightarrow> nat \<Rightarrow> u8 list \<Rightarrow> nat \<Rightarrow> int \<Rightarrow> sd_event list \<Rightarrow> bool" where
  "follows_plan K st wr block n buf i ret evs \<longleftrightarrow> (\<exists>k. i \<le> k \<and> k \<le> chunks n \<and> (ret = 0 \<longrightarrow> k = chunks n) \<and>
     (evs = concat (map (chunk_events K st wr block n buf) [i..<k]) \<or>
      ret \<noteq> 0 \<and> k < chunks n \<and>
      evs = concat (map (chunk_events K st wr block n buf) [i..<k]) @ chunk_refused K st wr block n k))"

lemma follows_plan_step:
  assumes "follows_plan K st wr block n buf (Suc i) ret evs"
  shows "follows_plan K st wr block n buf i ret (chunk_events K st wr block n buf i @ evs)"
proof -
  obtain k where k: "Suc i \<le> k" "k \<le> chunks n" "ret = 0 \<longrightarrow> k = chunks n"
    "evs = concat (map (chunk_events K st wr block n buf) [Suc i..<k]) \<or>
      ret \<noteq> 0 \<and> k < chunks n \<and>
      evs = concat (map (chunk_events K st wr block n buf) [Suc i..<k]) @ chunk_refused K st wr block n k"
    using assms by (auto simp: follows_plan_def)
  have "[i..<k] = i # [Suc i..<k]" using k(1) by (simp add: upt_conv_Cons)
  then show ?thesis using k unfolding follows_plan_def by (intro exI [of _ k]) auto
qed

lemma unat_small_nat: "n < 4294967296 \<Longrightarrow> unat (word_of_nat n :: u32) = n"
  by (simp only: unsigned_of_nat of_nat_id) (simp add: take_bit_nat_eq_self)

lemma transfer_words:
  assumes "8 * i < unat nblocks" "unat nblocks * 512 < 4294967296"
  defines "done \<equiv> word_of_nat (8 * i) :: u32"
  shows "done < nblocks" "run_length nblocks done = word_of_nat (chunk_len (unat nblocks) i)"
    "unat (run_length nblocks done) = chunk_len (unat nblocks) i" "unat (done * SD_BLOCK_SIZE) = 8 * i * 512"
    "unat (run_length nblocks done * SD_BLOCK_SIZE) = chunk_len (unat nblocks) i * 512"
    "done + run_length nblocks done = word_of_nat (min (8 * Suc i) (unat nblocks))"
proof -
  let ?n = "unat nblocks"
  have d: "unat done = 8 * i" unfolding done_def by (rule unat_small_nat) (use assms(1,2) in linarith)
  show "done < nblocks" using assms(1) d by (simp add: word_less_nat_alt)
  then have "unat (nblocks - done) = ?n - 8 * i" using d by (simp add: unat_sub_le word_less_nat_alt word_le_nat_alt)
  then have "unat (run_length nblocks done) = chunk_len ?n i"
    by (auto simp: run_length_def chunk_len_def SD_BOUNCE_BLOCKS_def word_less_nat_alt)
  then show l: "unat (run_length nblocks done) = chunk_len ?n i" .
  have "chunk_len ?n i < 4294967296" by (simp add: chunk_len_def)
  then show w: "run_length nblocks done = word_of_nat (chunk_len ?n i)" by (simp only: u32_eq_iff l unat_small_nat)
  have c: "chunk_len ?n i \<le> ?n" by (simp add: chunk_len_def)
  show "unat (done * SD_BLOCK_SIZE) = 8 * i * 512"
    using d assms(1,2) by (simp add: SD_BLOCK_SIZE_def unat_word_ariths)
  show "unat (run_length nblocks done * SD_BLOCK_SIZE) = chunk_len ?n i * 512"
    using l c assms(2) by (simp add: SD_BLOCK_SIZE_def unat_word_ariths)
  have m: "min (8 * Suc i) ?n = 8 * i + chunk_len ?n i" using assms(1) by (simp add: chunk_len_def)
  show "done + run_length nblocks done = word_of_nat (min (8 * Suc i) ?n)"
    unfolding m w unfolding done_def by (rule of_nat_add [symmetric])
qed

lemma follows_plan_cong:
  assumes "sd_self st' = sd_self st" "sd_dma_half st' = sd_dma_half st"
  shows "follows_plan K st' = follows_plan K st"
  using assms unfolding follows_plan_def [abs_def] chunk_events_def [abs_def] chunk_refused_def [abs_def] run_addr_def [abs_def]
  by simp

text \<open>
  Of a read: run \<open>j\<close> of the caller's buffer is what the driver read from that run's DMA
  buffer at a moment when the runs up to \<open>j\<close>, and no later one, were over.
\<close>

definition chunk_copied :: "(string \<Rightarrow> u32) \<Rightarrow> 'd machine \<Rightarrow> sdmmc \<Rightarrow> u32 \<Rightarrow> nat \<Rightarrow> u8 list \<Rightarrow> sd_event list \<Rightarrow> nat \<Rightarrow>
    u8 list \<Rightarrow> nat \<Rightarrow> bool" where
  "chunk_copied K M st block n buf T i buf' j \<longleftrightarrow>
     (\<exists>x x'. transfers (snd x) = T @ concat (map (chunk_events K st False block n buf) [i..<Suc j]) \<and>
        dma_get (watched K M) (dma_buf K (half_at (sd_dma_half st) j)) (chunk_len n j * 512) x =
          (take (chunk_len n j * 512) (drop (8 * j * 512) buf'), x'))"

lemma chunk_copied_step:
  assumes "chunk_copied K M st block n buf (T @ chunk_events K st False block n buf i) (Suc i) buf' j" "Suc i \<le> j"
  shows "chunk_copied K M st block n buf T i buf' j"
proof -
  have "[i..<Suc j] = i # [Suc i..<Suc j]" using assms(2) by (simp add: upt_conv_Cons)
  then show ?thesis using assms(1) by (simp add: chunk_copied_def)
qed

lemma chunk_copied_now:
  assumes "dma_get (watched K M) (dma_buf K (half_at (sd_dma_half st) i)) (chunk_len n i * 512) x = (bs, x')"
    and "transfers (snd x) = T @ chunk_events K st False block n buf i"
    and "take (8 * Suc i * 512) buf' = take (8 * Suc i * 512) (take (8 * i * 512) b @ bs @ c)"
    and "8 * i * 512 \<le> length b" "length bs = chunk_len n i * 512"
  shows "chunk_copied K M st block n buf T i buf' i" "take (8 * i * 512) buf' = take (8 * i * 512) b"
proof -
  let ?l = "chunk_len n i * 512" and ?o = "8 * i * 512"
  have l: "?o + ?l \<le> 8 * Suc i * 512" by (simp add: chunk_len_def)
  have t: "take k buf' = take k (take ?o b @ bs @ c)" if "k \<le> 8 * Suc i * 512" for k
    using arg_cong [OF assms(3), of "take k"] by (simp only: take_take min_absorb1 [OF that])
  have "take ?l (drop ?o buf') = drop ?o (take (?o + ?l) buf')" by (simp add: take_drop add.commute)
  also have "\<dots> = drop ?o (take (?o + ?l) (take ?o b @ bs @ c))" by (simp only: t [OF l])
  also have "\<dots> = bs" using assms(4,5) by (simp add: min_absorb2)
  finally have "bs = take ?l (drop ?o buf')" by (rule sym)
  then have "dma_get (watched K M) (dma_buf K (half_at (sd_dma_half st) i)) ?l x = (take ?l (drop ?o buf'), x')"
    using assms(1) by simp
  moreover have "transfers (snd x) = T @ concat (map (chunk_events K st False block n buf) [i..<Suc i])"
    using assms(2) by simp
  ultimately show "chunk_copied K M st block n buf T i buf' i" unfolding chunk_copied_def by blast
  show "take ?o buf' = take ?o b" using t [of ?o] assms(4) by simp
qed

lemma sd_transfer_loop_seen:
  fixes M :: "'d machine"
  assumes K: "K ''SDMMC_CMDIDX_MASK'' = 0x3F" "K ''SDMMC_DMA_DIR'' \<noteq> 0" and n: "unat nblocks * 512 < 4294967296"
    and st: "sd_self (fst s) = sd_self st0" "sd_dma_half (fst s) = half_at (sd_dma_half st0) i"
    and buf: "length buf = unat nblocks * 512" "wr \<longrightarrow> buf = buf0"
    and r: "sd_transfer_loop (watched K M) K tk block nblocks wr (word_of_nat (min (8 * i) (unat nblocks))) buf s = Some (ret, buf', s')"
    and i: "i \<le> chunks (unat nblocks)"
  shows "(\<exists>evs. transfers (snd (snd s')) = transfers (snd (snd s)) @ evs \<and>
      follows_plan K st0 wr block (unat nblocks) buf0 i ret evs) \<and>
    length buf' = length buf \<and> (wr \<longrightarrow> buf' = buf) \<and>
    (\<not> wr \<and> ret = 0 \<longrightarrow> take (8 * i * 512) buf' = take (8 * i * 512) buf \<and>
       (\<forall>j. i \<le> j \<and> j < chunks (unat nblocks) \<longrightarrow>
          chunk_copied K M st0 block (unat nblocks) buf0 (transfers (snd (snd s))) i buf' j))"
  using st buf r i
proof (induction "chunks (unat nblocks) - i" arbitrary: i buf s)
  case 0
  let ?n = "unat nblocks"
  have "i = chunks ?n" using 0 by simp
  moreover have "min (8 * i) ?n = ?n" using calculation by (simp add: chunks_def)
  then have "word_of_nat (min (8 * i) ?n) = nblocks" by simp
  ultimately show ?case
    using 0 by (subst (asm) sd_transfer_loop.simps) (auto simp: follows_plan_def intro!: exI [of _ "chunks ?n"])
next
  case (Suc c)
  let ?n = "unat nblocks" and ?W = "watched K M" and ?h = "half_at (sd_dma_half st0) i"
  let ?done = "word_of_nat (8 * i) :: u32"
  let ?dma = "dma_buf K ?h" and ?l = "chunk_len ?n i"
  have lt: "8 * i < ?n" using Suc.hyps(2) by (simp add: chunks_def)
  note w = transfer_words [OF lt n]
  obtain st x where s: "s = (st, x)" by (cases s)
  let ?st1 = "st\<lparr>sd_dma_half := ?h XOR 1\<rparr>"
  let ?part = "take (?l * 512) (drop (8 * i * 512) buf)"
  let ?s1 = "if wr then on_hw (dma_put ?W ?dma ?part) (?st1, x) else (?st1, x)"
  have mi: "word_of_nat (min (8 * i) ?n) = ?done" using lt by simp
  have half: "take_half K s = (?dma, (?st1, x))" using s Suc.prems(2) by (simp add: take_half_def)
  let ?rl = "run_length nblocks ?done" and ?next = "word_of_nat (min (8 * Suc i) ?n) :: u32"
  have step: "sd_transfer_loop ?W K tk block nblocks wr ?done buf s =
      do { (ret, s) \<leftarrow> sd_transfer_dma ?W K tk (block + ?done) ?dma ?rl wr ?s1;
           if ret \<noteq> 0 then Some (ret, buf, s)
           else (case s of (st, d) \<Rightarrow>
             case (if wr then (buf, d)
                   else case dma_get ?W ?dma (?l * 512) d of (bs, d) \<Rightarrow>
                     (take (8 * i * 512) buf @ bs @ drop (8 * i * 512 + ?l * 512) buf, d)) of
               (buf, d) \<Rightarrow> sd_transfer_loop ?W K tk block nblocks wr ?next buf (st, d)) }"
    by (subst sd_transfer_loop.simps) (simp only: w(1,4,5,6) half Let_def prod.case if_True)
  note r = Suc.prems(5) [unfolded mi step]
  obtain ret1 s2 where t: "sd_transfer_dma ?W K tk (block + ?done) ?dma ?rl wr ?s1 = Some (ret1, s2)"
    using r unfolding bind_eq_Some_conv by (elim exE conjE, metis surj_pair)
  have len: "0 < ?l" "?l \<le> 8" using lt by (simp_all add: chunk_len_def)
  have part: "length ?part = ?l * 512" using Suc.prems(3) lt by (simp add: chunk_len_def)
  have "length ?part \<le> 4294967296" using part len(2) by simp
  then obtain m where m: "snd (dma_put ?W ?dma ?part x) = (snd x)\<lparr>b_mem := m\<rparr>" "mem_bytes m ?dma (?l * 512) = ?part"
    using dma_put_bus [of ?part K M ?dma x] part by auto
  have s1: "transfers (snd (snd ?s1)) = transfers (snd x)" "fst ?s1 = ?st1"
    "wr \<longrightarrow> mem_bytes (b_mem (snd (snd ?s1))) ?dma (?l * 512) = ?part"
    using m by (auto simp: on_hw_def transfers_def)
  have len2: "0 < unat (run_length nblocks ?done)" "unat (run_length nblocks ?done) \<le> 8" using w(3) len by simp_all
  obtain evs where evs: "seen ?s1 s2 evs"
    "evs = run_whole wr (run_addr ?st1 (block + ?done)) ?l ?dma (mem_bytes (b_mem (snd (snd ?s1))) ?dma (?l * 512)) \<or>
      ret1 \<noteq> 0 \<and> (evs = [] \<or> evs = run_refused wr (run_addr ?st1 (block + ?done)) ?l ?dma)"
    using sd_transfer_dma_seen [OF K len2 t] s1(2) w(3) by (auto simp: Let_def)
  have addr: "run_addr ?st1 = run_addr st0" using Suc.prems(1) s by (simp add: run_addr_def [abs_def])
  have whole: "run_whole wr (run_addr ?st1 (block + ?done)) ?l ?dma (mem_bytes (b_mem (snd (snd ?s1))) ?dma (?l * 512)) =
      chunk_events K st0 wr block ?n buf0 i"
    using s1(3) Suc.prems(4) unfolding chunk_events_def addr by (cases wr) (simp_all add: run_whole_def)
  have refused: "run_refused wr (run_addr ?st1 (block + ?done)) ?l ?dma = chunk_refused K st0 wr block ?n i"
    unfolding chunk_refused_def addr ..
  have i: "i < chunks ?n" using Suc.hyps(2) by linarith
  have s2: "transfers (snd (snd s2)) = transfers (snd (snd s)) @ evs" using evs(1) s1(1) s by (simp add: seen_def)
  have self: "sd_self (fst s2) = sd_self st0" "sd_dma_half (fst s2) = half_at (sd_dma_half st0) (Suc i)"
    using seen_self [OF evs(1)] s1(2) Suc.prems(1) s by (auto simp: half_at_def xor.assoc)
  show ?case
  proof (cases "ret1 = 0")
    case False
    then have o: "ret = ret1" "buf' = buf" "s' = s2" using r t by simp_all
    have "follows_plan K st0 wr block ?n buf0 i ret1 evs"
      using evs(2) False i unfolding whole refused follows_plan_def
      by (elim disjE conjE) (intro exI [of _ "Suc i"], simp, (intro exI [of _ i], simp)+)
    then show ?thesis using s2 o False by auto
  next
    case True
    obtain st2 x2 where x2: "s2 = (st2, x2)" by (cases s2)
    obtain bs x3 where g: "dma_get ?W ?dma (?l * 512) x2 = (bs, x3)" by (cases "dma_get ?W ?dma (?l * 512) x2")
    let ?buf = "if wr then buf else take (8 * i * 512) buf @ bs @ drop (8 * i * 512 + ?l * 512) buf"
    let ?x = "if wr then x2 else x3"
    have bus: "snd ?x = snd x2" "length bs = ?l * 512" using dma_get_bus [OF g] by simp_all
    have "sd_transfer_loop ?W K tk block nblocks wr ?next ?buf (st2, ?x) = Some (ret, buf', s')"
      using r t True x2 g by (cases wr) simp_all
    moreover have lb: "length ?buf = ?n * 512" using Suc.prems(3) bus(2) lt by (simp add: chunk_len_def)
    moreover have "wr \<longrightarrow> ?buf = buf0" using Suc.prems(4) by simp
    moreover have "c = chunks ?n - Suc i" "Suc i \<le> chunks ?n" using Suc.hyps(2) i by simp_all
    ultimately have ih: "(\<exists>evs. transfers (snd (snd s')) = transfers (snd (snd (st2, ?x))) @ evs \<and>
        follows_plan K st0 wr block ?n buf0 (Suc i) ret evs) \<and> length buf' = length ?buf \<and> (wr \<longrightarrow> buf' = ?buf) \<and>
        (\<not> wr \<and> ret = 0 \<longrightarrow> take (8 * Suc i * 512) buf' = take (8 * Suc i * 512) ?buf \<and>
          (\<forall>j. Suc i \<le> j \<and> j < chunks ?n \<longrightarrow>
             chunk_copied K M st0 block ?n buf0 (transfers (snd (snd (st2, ?x)))) (Suc i) buf' j))"
      using Suc.hyps(1) [of "Suc i" "(st2, ?x)" ?buf] self x2 by simp
    obtain rest where rest: "transfers (snd (snd s')) = transfers (snd x2) @ rest"
      "follows_plan K st0 wr block ?n buf0 (Suc i) ret rest"
      using ih bus(1) by auto
    have "evs = chunk_events K st0 wr block ?n buf0 i" using evs(2) True whole by simp
    then have e: "transfers (snd x2) = transfers (snd (snd s)) @ chunk_events K st0 wr block ?n buf0 i"
      using s2 x2 by simp
    have copied: "take (8 * i * 512) buf' = take (8 * i * 512) buf \<and>
        chunk_copied K M st0 block ?n buf0 (transfers (snd (snd s))) i buf' j"
      if "\<not> wr" "ret = 0" "i \<le> j" "j < chunks ?n" for j
    proof -
      have o: "8 * i * 512 \<le> length buf" using Suc.prems(3) lt by simp
      have t: "take (8 * Suc i * 512) buf' =
          take (8 * Suc i * 512) (take (8 * i * 512) buf @ bs @ drop (8 * i * 512 + ?l * 512) buf)"
        using ih that by simp
      have e': "transfers (snd x2) = transfers (snd (snd s)) @ chunk_events K st0 False block ?n buf0 i"
        using e that(1) by simp
      note now = chunk_copied_now [OF g e' t o bus(2)]
      show ?thesis
      proof (cases "j = i")
        case False
        then have "chunk_copied K M st0 block ?n buf0 (transfers (snd x2)) (Suc i) buf' j"
          using ih that bus(1) by simp
        then show ?thesis using now(2) chunk_copied_step [of K M st0 block ?n buf0] e' that False by simp
      qed (use now in simp)
    qed
    have "\<exists>evs. transfers (snd (snd s')) = transfers (snd (snd s)) @ evs \<and>
        follows_plan K st0 wr block ?n buf0 i ret evs"
      using follows_plan_step [OF rest(2)] rest(1) e by (auto simp: append_assoc)
    moreover have "length buf' = length buf \<and> (wr \<longrightarrow> buf' = buf)" using ih lb Suc.prems(3) by auto
    ultimately show ?thesis using copied i by blast
  qed
qed


text \<open>A controller and card that answer at once, with a counter that moves between readings.\<close>

definition sd_sim :: "bool machine" where
  "sd_sim = \<lparr>m_rd = (\<lambda>r d. if r = INT_FG then (3, d) else if r = STATUS then (1, d) else if r = RESPONSE 3 then (0x900, d)
       else if r = STK_CNT then (if d then 5000 else 0, \<not> d) else (0, d)),
     m_wr = (\<lambda>r v d. d), m_millis = (\<lambda>d. (0, d)), m_call = (\<lambda>c d. d), m_ask = (\<lambda>c d. (0, d))\<rparr>"

definition sd_consts :: "string \<Rightarrow> u32" where
  "sd_consts n = (if n = ''SDMMC_CMDIDX_MASK'' then 0x3F else if n = ''SDMMC_DMA_DIR'' then 1 else if n = ''SDMMC_DAT0STA'' then 1
     else if n = ''SDMMC_IF_CMDDONE'' then 1 else if n = ''SDMMC_IF_TRANDONE'' then 2 else if n = ''SDMMC_IF_DATTMO'' then 4
     else if n = ''SDMMC_IF_TRANERR'' then 8 else if n = ''sd_dma_buf'' then 0x20100000 else 0)"

abbreviation sd_watched_sim :: "(bool \<times> bus) machine" where "sd_watched_sim \<equiv> watched sd_consts sd_sim"

definition sd_card_up :: sdmmc where
  "sd_card_up = sdmmc_zero\<lparr>sd_self := (sd_self sdmmc_zero)\<lparr>block_count := 1000, card_type := CARD_SDHC, initialised := True\<rparr>\<rparr>"

lemma sd_sim_rd:
  "m_rd sd_watched_sim INT_FG x = (3, x)" "m_rd sd_watched_sim STATUS x = (1, x)" "m_rd sd_watched_sim (RESPONSE 3) x = (0x900, x)"
  "m_millis sd_watched_sim x = (0, x)" "m_rd sd_watched_sim STK_CNT x = (if fst x then 5000 else 0, (\<not> fst x, snd x))"
  by (simp_all add: watched_def sd_sim_def sd_regs STK_CNT_def)

lemma sd_sim_gap:
  "sd_clk_hz st = 400000 \<Longrightarrow> \<exists>d'. sd_cmd_gap sd_watched_sim systick_zero (st, x) = Some (st, d')"
  by (subst sd_cmd_gap_def) (simp add: delayMicroseconds_def delay_us_loop.simps sd_sim_rd systick_zero_def Let_def)

lemma sd_sim_cmd:
  assumes "sd_clk_hz st = 400000" "resp \<noteq> RESP_NONE"
  shows "\<exists>log d'. sd_cmd_r1 sd_watched_sim sd_consts systick_zero idx a resp (st, x) = Some (0, st\<lparr>sd_log := log\<rparr>, d')"
proof -
  obtain d' where g: "sd_cmd_gap sd_watched_sim systick_zero (st, x) = Some (st, d')" using sd_sim_gap [OF assms(1)] by blast
  have f: "flags_seen sd_watched_sim (cmd_flags sd_consts) y = (Some 3, y)" for y
    by (simp add: flags_seen_def sd_sim_rd cmd_flags_def sd_consts_def low16_def)
  let ?log = "if length (sd_log st) < SD_LOG_MAX then sd_log st @ [\<lparr>le_cmd = idx, le_flags = 3, le_resp = 0x900\<rparr>] else sd_log st"
  have l: "sd_cmd_log sd_watched_sim idx 3 (st, y) = (st\<lparr>sd_log := ?log\<rparr>, y)" for y
    by (simp add: sd_cmd_log_def sd_sim_rd)
  show ?thesis
    by (subst sd_cmd_r1_def, subst sd_then_def, subst sd_cmd_def, rule exI [of _ ?log])
      (simp add: g f l wait_for_def sd_sim_rd poll.simps Let_def sd_cmd_result_def sd_consts_def
        sd_resp_short_def rd_hw_def SD_R1_ERROR_MASK_def)
qed

lemma sd_sim_dma:
  assumes "sd_clk_hz st = 400000"
  shows "\<exists>log d'. sd_transfer_dma sd_watched_sim sd_consts systick_zero block dma n False (st, x) = Some (0, st\<lparr>sd_log := log\<rparr>, d')"
proof -
  have dat0: "sd_wait_dat0 sd_watched_sim sd_consts (st, y) = Some (0, st, y)" for y
    by (simp add: sd_wait_dat0_def wait_until_def wait_for_def poll.simps dat0_high_def sd_sim_rd sd_consts_def)
  have rd: "sd_read_data sd_watched_sim sd_consts n y = Some (0, y)" for y
    by (subst sd_read_data.simps)
      (simp add: sd_wait_data_flag_def wait_for_def poll.simps flags_seen_def sd_sim_rd data_flags_def sd_consts_def low16_def
        sd_data_flag_error_def Let_def)
  have r: "RESP_R1 \<noteq> RESP_NONE" "RESP_R1B \<noteq> RESP_NONE" by (simp_all add: RESP_R1_def RESP_R1B_def RESP_NONE_def)
  let ?y = "snd (on_hw (sd_arm sd_watched_sim sd_consts dma SD_BLOCK_SIZE n False) (on_hw (m_wr sd_watched_sim INT_FG 0xFFFF) (st, x)))"
  obtain log1 d1 where c: "sd_cmd_r1 sd_watched_sim sd_consts systick_zero (run_cmd False n) (run_addr st block) RESP_R1 (st, ?y)
      = Some (0, st\<lparr>sd_log := log1\<rparr>, d1)"
    using sd_sim_cmd [OF assms r(1)] by blast
  obtain log2 d2 where e: "sd_cmd_r1 sd_watched_sim sd_consts systick_zero STOP_TRANSMISSION 0 RESP_R1B (st\<lparr>sd_log := log1\<rparr>, d1)
      = Some (0, st\<lparr>sd_log := log2\<rparr>, d2)"
    using sd_sim_cmd [OF _ r(2), of "st\<lparr>sd_log := log1\<rparr>" STOP_TRANSMISSION 0 d1] assms by auto
  have f: "sd_finish sd_watched_sim sd_consts systick_zero n False (0, st\<lparr>sd_log := log1\<rparr>, d1) =
      Some (0, st\<lparr>sd_log := if n > 1 then log2 else log1\<rparr>, if n > 1 then d2 else d1)"
    by (simp add: sd_finish_def e)
  have "sd_transfer_dma sd_watched_sim sd_consts systick_zero block dma n False (st, x) =
      Some (0, st\<lparr>sd_log := if n > 1 then log2 else log1\<rparr>, if n > 1 then d2 else d1)"
    using c f by (simp add: sd_transfer_dma_def dat0 Let_def on_hw_def lift_hw_def rd)
  then show ?thesis by blast
qed

lemma sd_sim_loop:
  assumes "sd_clk_hz st = 400000"
  shows "\<exists>buf' s'. sd_transfer_loop sd_watched_sim sd_consts systick_zero block nblocks False done buf (st, x) = Some (0, buf', s')"
  using assms
proof (induction "unat (nblocks - done)" arbitrary: "done" buf st x rule: less_induct)
  case less
  show ?case
  proof (cases "done < nblocks")
    case True
    let ?n = "run_length nblocks done" and ?dma = "dma_buf sd_consts (sd_dma_half st)"
    let ?st = "st\<lparr>sd_dma_half := sd_dma_half st XOR 1\<rparr>"
    obtain log d where t: "sd_transfer_dma sd_watched_sim sd_consts systick_zero (block + done) ?dma ?n False (?st, x) =
        Some (0, ?st\<lparr>sd_log := log\<rparr>, d)"
      using sd_sim_dma [of ?st] less.prems by fastforce
    obtain bs d1 where g: "dma_get sd_watched_sim ?dma (unat (?n * SD_BLOCK_SIZE)) d = (bs, d1)"
      by (cases "dma_get sd_watched_sim ?dma (unat (?n * SD_BLOCK_SIZE)) d")
    show ?thesis
      using less.hyps [OF xfer_step_less [OF True]] less.prems True t g
      by (subst sd_transfer_loop.simps) (simp add: take_half_def Let_def)
  next
    case False
    then show ?thesis by (subst sd_transfer_loop.simps) simp
  qed
qed


text \<open>
  The two DMA buffers take turns so that the start address always changes.  A transfer that
  fails before the engine is armed takes its turn all the same, and the next one starts
  from the address used last.
\<close>

lemma sd_half_taken_without_dma:
  assumes "initialised (sd_self st)" "block + nblocks \<le> block_count (sd_self st)" "nblocks \<noteq> 0"
    and "sd_wait_dat0 M K (st\<lparr>sd_dma_half := sd_dma_half st XOR 1\<rparr>, d) = Some (SD_ETIMEDOUT, s')"
  shows "sd_transfer M K tk block buf nblocks False (st, d) = Some (SD_ETIMEDOUT, buf, s') \<and>
    sd_dma_half (fst s') = sd_dma_half st XOR 1"
proof -
  have "0 < nblocks" using assms(3) by (simp add: word_neq_0_conv)
  moreover have "\<not> block_count (sd_self st) < block + nblocks" using assms(2) by (simp only: not_less)
  ultimately have "sd_transfer M K tk block buf nblocks False (st, d) = Some (SD_ETIMEDOUT, buf, s')"
    using assms(1,3,4) by (subst sd_transfer_def, subst sd_transfer_loop.simps)
      (simp add: Let_def take_half_def sd_transfer_dma_def SD_ETIMEDOUT_def)
  moreover have "fst s' = st\<lparr>sd_dma_half := sd_dma_half st XOR 1\<rparr>"
    using assms(4) by (auto simp: sd_wait_dat0_def bind_eq_Some_conv)
  ultimately show ?thesis by simp
qed

text \<open>The range check is in 32 bits: a block number near the top passes it.\<close>

lemma sd_range_check_wraps:
  assumes "initialised (sd_self (fst s))" "block_count (sd_self (fst s)) = 1"
  shows "sd_transfer M K tk 0xFFFFFFFF buf 2 wr s = sd_transfer_loop M K tk 0xFFFFFFFF 2 wr 0 buf s"
  using assms by (simp add: sd_transfer_def Let_def)

end
