(* ===== verification/Boot.thy ===== *)
theory Boot
  imports Console Park Fifo Timing
begin

text \<open>
  Starting up and crashing (\<^verbatim>\<open>main_v3f.c\<close>, \<^verbatim>\<open>main_v5f.c\<close>, \<^verbatim>\<open>ch32h4_fault.c\<close>): what the V3F does
  after a reset with the fault records the last run left in shared memory, what a fault on
  the V5F leaves there, and that a sketch which crashes on every boot is not restarted for
  ever.  \<open>K\<close> names the vendor's and the linker's constants and the build's trace magic.
\<close>

section \<open>State\<close>

definition FAULT_LOG_MAGIC :: u32 where "FAULT_LOG_MAGIC = 0xF01DFA11"
definition FAULT_REBOOT_LIMIT :: u32 where "FAULT_REBOOT_LIMIT = 3"
definition RUNTIME_READY_MAGIC :: u32 where "RUNTIME_READY_MAGIC = 0x5F5FA5A5"

definition RUNTIME_READY :: reg where "RUNTIME_READY = REG ''ch32h4_runtime_ready''"

record fault_log =
  fl_magic :: u32
  fl_mcause :: u32
  fl_mepc :: u32
  fl_mtval :: u32
  fl_mstatus :: u32
  fl_sp :: u32
  fl_irq_eth :: u32
  fl_irq_systick :: u32
  fl_irq_usbfs :: u32
  fl_irq_usart1 :: u32
  fl_irq_max_nesting :: u32
  fl_boot_faults :: u32
  fl_ra :: u32
  fl_a0 :: u32
  fl_a1 :: u32

record 'd sys =
  sy_con :: "'d con"
  sy_fifos :: fifos
  sy_clk :: clock_src
  sy_log :: fault_log
  sy_log_v3f :: fault_log
  sy_irq :: irq_trace
  sy_trace_magic :: u32
  sy_confirmed :: bool

definition sys_hw :: "('d \<Rightarrow> 'd) \<Rightarrow> 'd sys \<Rightarrow> 'd sys" where
  "sys_hw f s = s\<lparr>sy_con := on_hw f (sy_con s)\<rparr>"

definition sys_rd :: "'d machine \<Rightarrow> reg \<Rightarrow> 'd sys \<Rightarrow> u32 \<times> 'd sys" where
  "sys_rd M r s = (case m_rd M r (hw (lk (sy_con s))) of (v, d) \<Rightarrow> (v, sys_hw (\<lambda>_. d) s))"

definition irq_zero :: irq_trace where
  "irq_zero = \<lparr>iq_count = (\<lambda>_. 0), iq_max_nesting = 0, iq_nesting = 0\<rparr>"

section \<open>Console output in a row\<close>

datatype item = Str string | Chr char | Hex u32 | Dec u32

fun print_item :: "(core \<Rightarrow> 'd machine) \<Rightarrow> ('d xc \<Rightarrow> 'd xc) \<Rightarrow> core \<Rightarrow> item \<Rightarrow> 'd con \<Rightarrow> 'd con option" where
  "print_item M env c (Str t) = console_puts M env c t"
| "print_item M env c (Chr ch) = console_putc M c ch"
| "print_item M env c (Hex v) = console_puthex M env c v"
| "print_item M env c (Dec v) = console_putu M env c v"

fun print_items :: "(core \<Rightarrow> 'd machine) \<Rightarrow> ('d xc \<Rightarrow> 'd xc) \<Rightarrow> core \<Rightarrow> item list \<Rightarrow> 'd con \<Rightarrow> 'd con option" where
  "print_items M env c [] s = Some s"
| "print_items M env c (i # is) s = do { s \<leftarrow> print_item M env c i s; print_items M env c is s }"

definition say :: "(core \<Rightarrow> 'd machine) \<Rightarrow> ('d xc \<Rightarrow> 'd xc) \<Rightarrow> core \<Rightarrow> item list \<Rightarrow> 'd sys \<Rightarrow> 'd sys option" where
  "say M env c is s = do { k \<leftarrow> print_items M env c is (sy_con s); Some (s\<lparr>sy_con := k\<rparr>) }"

definition flush :: "(core \<Rightarrow> 'd machine) \<Rightarrow> core \<Rightarrow> 'd sys \<Rightarrow> 'd sys" where
  "flush M c s = s\<lparr>sy_con := console_flush M c (sy_con s)\<rparr>"

text \<open>A line break in the source's strings.\<close>

abbreviation NL :: string where "NL \<equiv> [CHR 0x0A]"

section \<open>A fault\<close>

record csrs =
  c_mcause :: u32
  c_mepc :: u32
  c_mtval :: u32
  c_mstatus :: u32
  c_sp :: u32
  c_ra :: u32
  c_a0 :: u32
  c_a1 :: u32

text \<open>The naked entry of \<open>HardFault_Handler\<close>: the stores into the record.\<close>

definition hard_fault_entry :: "csrs \<Rightarrow> fault_log \<Rightarrow> fault_log" where
  "hard_fault_entry c l = l\<lparr>fl_mcause := c_mcause c, fl_mepc := c_mepc c, fl_mtval := c_mtval c, fl_mstatus := c_mstatus c,
     fl_sp := c_sp c, fl_ra := c_ra c, fl_a0 := c_a0 c, fl_a1 := c_a1 c, fl_magic := FAULT_LOG_MAGIC\<rparr>"

definition raw_uart_bringup :: "'d machine \<Rightarrow> (string \<Rightarrow> u32) \<Rightarrow> 'd \<Rightarrow> 'd" where
  "raw_uart_bringup M K d = (case m_rd M (REG ''USART1.CTLR1'') d of (v, d) \<Rightarrow>
     if v AND K ''USART_CTLR1_UE'' \<noteq> 0 then d
     else do_all
       [m_or M (REG ''RCC.HB2PCENR'') (K ''RCC_HB2Periph_GPIOA'' OR K ''RCC_HB2Periph_USART1'' OR K ''RCC_HB2Periph_AFIO''),
        m_touch M (REG ''RCC.HB2PCENR''),
        \<lambda>d. case m_rd M (REG ''AFIO.GPIOA_AFHR'') d of (v, d) \<Rightarrow>
              m_wr M (REG ''AFIO.GPIOA_AFHR'') ((v AND NOT (push_bit 4 0xF)) OR push_bit 4 7) d,
        \<lambda>d. case m_rd M (REG ''GPIOA.CFGHR'') d of (v, d) \<Rightarrow>
              m_wr M (REG ''GPIOA.CFGHR'') ((v AND NOT (push_bit 4 0xF)) OR push_bit 4 0xB) d,
        m_wr M (REG ''USART1.BRR'') (ucast (ucast (((100000000 div 16) * 16 + 115200 div 2) div 115200 :: u32) :: u16)),
        m_wr M (REG ''USART1.CTLR1'') (K ''USART_CTLR1_UE'' OR K ''USART_CTLR1_TE''),
        m_wr M (REG ''USART1.CTLR2'') 0, m_wr M (REG ''USART1.CTLR3'') 0] d)"

definition raw_txe :: "'d machine \<Rightarrow> (string \<Rightarrow> u32) \<Rightarrow> 'd \<Rightarrow> bool \<times> 'd" where
  "raw_txe M K d = (case m_rd M (REG ''USART1.STATR'') d of (v, d) \<Rightarrow> (v AND K ''USART_STATR_TXE'' \<noteq> 0, d))"

definition putc_raw :: "'d machine \<Rightarrow> (string \<Rightarrow> u32) \<Rightarrow> char \<Rightarrow> 'd \<Rightarrow> 'd" where
  "putc_raw M K ch d = m_wr M (REG ''USART1.DATAR'') (word_of_nat (of_char ch)) (snd (guarded (raw_txe M K) 1000000 d))"

fun puts_raw :: "'d machine \<Rightarrow> (string \<Rightarrow> u32) \<Rightarrow> string \<Rightarrow> 'd \<Rightarrow> 'd" where
  "puts_raw M K [] d = d"
| "puts_raw M K (ch # chs) d =
     puts_raw M K chs (putc_raw M K ch (if ch = CHR 0x0A then putc_raw M K (CHR 0x0D) d else d))"

definition puthex_raw :: "'d machine \<Rightarrow> (string \<Rightarrow> u32) \<Rightarrow> u32 \<Rightarrow> 'd \<Rightarrow> 'd" where
  "puthex_raw M K v d = do_all (map (putc_raw M K) (hex_digits v)) (puts_raw M K ''0x'' d)"

definition code_or_ram :: "u32 \<Rightarrow> bool" where
  "code_or_ram w \<longleftrightarrow> w < 0x00100000 \<or> 0x08000000 \<le> w \<and> w < 0x08100000 \<or> 0x20000000 \<le> w \<and> w < 0x20180000"

definition dump_word :: "'d machine \<Rightarrow> (string \<Rightarrow> u32) \<Rightarrow> u32 \<Rightarrow> nat \<Rightarrow> 'd \<Rightarrow> 'd" where
  "dump_word M K sp i d = (case m_rd M (MEM32 (sp + 4 * word_of_nat i)) d of (w, d) \<Rightarrow>
     if code_or_ram w then puthex_raw M K w (puts_raw M K '' '' d) else d)"

text \<open>
  The dump, up to the system reset; \<open>sp\<close> is \<open>ch32h4_fault_sp\<close>.  The delay loop before the
  reset touches nothing.
\<close>

definition fault_dump :: "'d machine \<Rightarrow> (string \<Rightarrow> u32) \<Rightarrow> u32 \<Rightarrow> 'd sys \<Rightarrow> 'd sys" where
  "fault_dump M K sp s =
     (let s = sys_hw (m_call M (Call ''__disable_irq'' [])) s; q = sy_irq s;
          l = (sy_log s)\<lparr>fl_irq_eth := iq_count q Irq_eth, fl_irq_systick := iq_count q Irq_systick,
                fl_irq_usbfs := iq_count q Irq_usbfs, fl_irq_usart1 := iq_count q Irq_usart1,
                fl_irq_max_nesting := iq_max_nesting q\<rparr>
      in sys_hw (do_all
        ([raw_uart_bringup M K,
          puts_raw M K (NL @ NL @ ''=== TRAP ==='' @ NL @ ''mcause=''), puthex_raw M K (fl_mcause l),
          puts_raw M K '' mepc='', puthex_raw M K (fl_mepc l), puts_raw M K '' mtval='', puthex_raw M K (fl_mtval l),
          puts_raw M K '' mstatus='', puthex_raw M K (fl_mstatus l), puts_raw M K (NL @ ''sp=''), puthex_raw M K sp,
          puts_raw M K '' ra='', puthex_raw M K (fl_ra l), puts_raw M K '' a0='', puthex_raw M K (fl_a0 l),
          puts_raw M K '' a1='', puthex_raw M K (fl_a1 l), puts_raw M K (NL @ ''stack:'')] @
         map (dump_word M K sp) [0..<24] @
         [puts_raw M K NL,
          if fl_mcause l AND 0x7FFFFFFF = 2 then puts_raw M K (''illegal instruction'' @ NL) else (\<lambda>d. d),
          m_call M (Call ''NVIC_SystemReset'' [])]))
        (s\<lparr>sy_log := l\<rparr>))"

definition HardFault_Handler :: "(core \<Rightarrow> 'd machine) \<Rightarrow> (string \<Rightarrow> u32) \<Rightarrow> csrs \<Rightarrow> 'd sys \<Rightarrow> 'd sys" where
  "HardFault_Handler M K c s = fault_dump (M V5F) K (c_sp c) (s\<lparr>sy_log := hard_fault_entry c (sy_log s)\<rparr>)"

section \<open>The V3F after a reset\<close>

definition vio18_init :: "'d machine \<Rightarrow> 'd \<Rightarrow> 'd" where
  "vio18_init M d =
     (case m_rd M (REG ''PWR.CTLR'')
         (do_all [m_call M (Call ''RCC_HB1PeriphClockCmd'' [Sym ''RCC_HB1Periph_PWR'', Sym ''ENABLE'']),
            m_touch M (REG ''RCC.HB1PCENR'')] d) of
        (ctlr, d) \<Rightarrow> m_wr M (REG ''PWR.CTLR'') ((ctlr AND NOT (push_bit 10 7)) OR (push_bit 10 3 OR push_bit 9 1)) d)"

definition reset_cause_text :: "(string \<Rightarrow> u32) \<Rightarrow> u32 \<Rightarrow> item list" where
  "reset_cause_text K rst =
     (let flags = rst AND 0xFC000000 in
      [Str ''rst='', Hex flags] @
      concat (map (\<lambda>(b, t). if flags AND K b \<noteq> 0 then [Str t] else [])
        [(''RCC_LOCKUPRSTF'', '' lockup''), (''RCC_WWDGRSTF'', '' wwdg''), (''RCC_IWDGRSTF'', '' iwdg''),
         (''RCC_SFTRSTF'', '' soft''), (''RCC_PORRSTF'', '' por''), (''RCC_PINRSTF'', '' pin'')]) @
      (if flags = 0 then [Str '' none''] else []) @ [Str NL])"

definition print_reset_cause :: "(core \<Rightarrow> 'd machine) \<Rightarrow> ('d xc \<Rightarrow> 'd xc) \<Rightarrow> (string \<Rightarrow> u32) \<Rightarrow> u32 \<Rightarrow> 'd sys \<Rightarrow> 'd sys option" where
  "print_reset_cause M env K rst s =
     do { s \<leftarrow> say M env V3F (reset_cause_text K rst) s;
          Some (sys_hw (m_or (M V3F) (REG ''RCC.RSTSCKR'') (K ''RCC_RMVF'')) s) }"

text \<open>The records are only believed when the magic word is this build's.\<close>

definition check_records :: "(string \<Rightarrow> u32) \<Rightarrow> 'd sys \<Rightarrow> 'd sys" where
  "check_records K s =
     (let s = (if sy_trace_magic s \<noteq> K ''CH32H4_TRACE_MAGIC''
               then s\<lparr>sy_trace_magic := K ''CH32H4_TRACE_MAGIC'', sy_log := (sy_log s)\<lparr>fl_magic := 0, fl_boot_faults := 0\<rparr>,
                      sy_log_v3f := (sy_log_v3f s)\<lparr>fl_magic := 0\<rparr>, sy_irq := irq_zero\<rparr>
               else s)
      in if fl_boot_faults (sy_log s) > FAULT_REBOOT_LIMIT then s\<lparr>sy_log := (sy_log s)\<lparr>fl_boot_faults := 0\<rparr>\<rparr> else s)"

definition count_fault :: "'d sys \<Rightarrow> 'd sys" where
  "count_fault s = s\<lparr>sy_log := (sy_log s)\<lparr>fl_boot_faults := fl_boot_faults (sy_log s) + 1\<rparr>\<rparr>"

definition count_lockup :: "(string \<Rightarrow> u32) \<Rightarrow> u32 \<Rightarrow> 'd sys \<Rightarrow> 'd sys" where
  "count_lockup K rst s = (if rst AND K ''RCC_LOCKUPRSTF'' \<noteq> 0 then count_fault s else s)"

definition replay_v3f :: "(core \<Rightarrow> 'd machine) \<Rightarrow> ('d xc \<Rightarrow> 'd xc) \<Rightarrow> 'd sys \<Rightarrow> 'd sys option" where
  "replay_v3f M env s =
     (let l = sy_log_v3f s in
      if fl_magic l = FAULT_LOG_MAGIC
      then do { s \<leftarrow> say M env V3F
                  [Str ''v3f trap: mcause='', Hex (fl_mcause l), Str '' mepc='', Hex (fl_mepc l), Str '' mtval='', Hex (fl_mtval l),
                   Str '' mstatus='', Hex (fl_mstatus l), Str '' sp='', Hex (fl_sp l), Str '' ra='', Hex (fl_irq_eth l),
                   Str '' stack='', Hex (fl_irq_systick l), Chr (CHR '',''), Hex (fl_irq_usbfs l), Chr (CHR '',''),
                   Hex (fl_irq_usart1 l), Chr (CHR '',''), Hex (fl_irq_max_nesting l), Str NL] s;
                Some (count_fault ((flush M V3F s)\<lparr>sy_log_v3f := l\<lparr>fl_magic := 0\<rparr>\<rparr>)) }
      else Some s)"

definition replay_v5f :: "(core \<Rightarrow> 'd machine) \<Rightarrow> ('d xc \<Rightarrow> 'd xc) \<Rightarrow> 'd sys \<Rightarrow> 'd sys option" where
  "replay_v5f M env s =
     (let l = sy_log s in
      if fl_magic l = FAULT_LOG_MAGIC
      then do { s \<leftarrow> say M env V3F
                  [Str ''v5f fault: mcause='', Hex (fl_mcause l), Str '' mepc='', Hex (fl_mepc l), Str '' mtval='', Hex (fl_mtval l),
                   Str '' mstatus='', Hex (fl_mstatus l), Str '' sp='', Hex (fl_sp l), Str NL,
                   Str ''irq eth='', Dec (fl_irq_eth l), Str '' systick='', Dec (fl_irq_systick l), Str '' usbfs='',
                   Dec (fl_irq_usbfs l), Str '' usart1='', Dec (fl_irq_usart1 l), Str '' max_nesting='',
                   Dec (fl_irq_max_nesting l), Str '' boot_faults='', Dec (fl_boot_faults l + 1), Str NL] s;
                Some (count_fault ((flush M V3F s)\<lparr>sy_log := l\<lparr>fl_magic := 0\<rparr>\<rparr>)) }
      else Some s)"

definition report_irqs :: "(core \<Rightarrow> 'd machine) \<Rightarrow> ('d xc \<Rightarrow> 'd xc) \<Rightarrow> 'd sys \<Rightarrow> 'd sys option" where
  "report_irqs M env s =
     (let q = sy_irq s in
      do { s \<leftarrow> (if iq_count q Irq_systick \<noteq> 0
                 then say M env V3F [Str ''irq eth='', Dec (iq_count q Irq_eth), Str '' systick='', Dec (iq_count q Irq_systick),
                        Str '' usbfs='', Dec (iq_count q Irq_usbfs), Str '' usart1='', Dec (iq_count q Irq_usart1),
                        Str '' max_nesting='', Dec (iq_max_nesting q), Str NL] s
                 else Some s);
           Some (s\<lparr>sy_irq := irq_zero\<rparr>) })"

definition clock_nominal :: "(core \<Rightarrow> 'd machine) \<Rightarrow> 'd sys \<Rightarrow> bool \<times> 'd sys" where
  "clock_nominal M s = (case clock_is_nominal (M V3F) (sy_clk s) (hw (lk (sy_con s))) of (ok, d) \<Rightarrow> (ok, sys_hw (\<lambda>_. d) s))"

definition report_clock :: "(core \<Rightarrow> 'd machine) \<Rightarrow> ('d xc \<Rightarrow> 'd xc) \<Rightarrow> 'd sys \<Rightarrow> 'd sys option" where
  "report_clock M env s =
     do { s \<leftarrow> say M env V3F [Str ((if sy_clk s = SRC_HSE then ''sysclk_src=hse'' else ''sysclk_src=hsi'') @ NL), Str ''hclk=''] s;
          (let (h, s) = sys_rd (M V3F) (REG ''HCLKClock'') s in
           do { s \<leftarrow> say M env V3F [Dec h, Str (NL @ ''sysclk='')] s;
                (let (f, s) = sys_rd (M V3F) (REG ''SystemClock'') s in
                 do { s \<leftarrow> say M env V3F [Dec f, Str NL] s;
                      (let (ok, s) = clock_nominal M s in
                       if ok then Some s
                       else say M env V3F [Str (''WARNING: degraded clock -- Ethernet and USB will not work'' @ NL)] s) }) }) }"

definition xcore_init :: "'d machine \<Rightarrow> 'd sys \<Rightarrow> 'd sys" where
  "xcore_init M s = sys_hw (do_all [m_wr M (PARK_REQ V3F) 0, m_wr M (PARK_REQ V5F) 0, m_wr M (PARK_ACK V3F) 0,
       m_wr M (PARK_ACK V5F) 0, m_wr M (PARK_LIVE V3F) 0, m_wr M (PARK_LIVE V5F) 0])
     (s\<lparr>sy_fifos := fifo_init (sy_fifos s), sy_con := (sy_con s)\<lparr>lk := mutex_init (lk (sy_con s))\<rparr>\<rparr>)"

text \<open>
  How the start ends: in one of the two waits that keep the V5F asleep, or with the V5F
  woken and this core asleep or running the sketch's second loop.
\<close>

datatype boot_end = Wrong_entry | Not_waking | Woken_asleep | Woken_loop1

definition runtime_ready_seen :: "'d machine \<Rightarrow> 'd \<Rightarrow> bool \<times> 'd" where
  "runtime_ready_seen M d = (case m_rd M RUNTIME_READY d of (v, d) \<Rightarrow> (v = RUNTIME_READY_MAGIC, d))"

text \<open>The wait looks once more after the guard's 200000000 failures.\<close>

definition second_core :: "(core \<Rightarrow> 'd machine) \<Rightarrow> ('d xc \<Rightarrow> 'd xc) \<Rightarrow> 'd sys \<Rightarrow> 'd sys option" where
  "second_core M env s =
     do { s \<leftarrow> say M env V3F [Str (''V3F: waiting for the V5F runtime'' @ NL)] s;
          let s = flush M V3F s;
          let (ok, d) = guarded (runtime_ready_seen (M V3F)) 200000001 (hw (lk (sy_con s)));
          let s = sys_hw (\<lambda>_. d) s;
          s \<leftarrow> (if ok then Some s
                else do { s \<leftarrow> say M env V3F [Str (''V3F: FATAL, V5F never signalled ready'' @ NL)] s; Some (flush M V3F s) });
          s \<leftarrow> say M env V3F [Str (''V3F: running setup1/loop1'' @ NL)] s;
          Some (sys_hw (park_live_here (M V3F) V3F) (flush M V3F s)) }"

text \<open>One turn of the loop around \<open>loop1\<close>, which belongs to the sketch.\<close>

definition loop1_turn :: "'d machine \<Rightarrow> ('d \<Rightarrow> 'd) \<Rightarrow> 'd \<Rightarrow> 'd option" where
  "loop1_turn M loop1 d = map_option loop1 (park_check M V3F d)"

definition wake_v5f :: "(core \<Rightarrow> 'd machine) \<Rightarrow> ('d xc \<Rightarrow> 'd xc) \<Rightarrow> (string \<Rightarrow> u32) \<Rightarrow> bool \<Rightarrow> 'd sys \<Rightarrow> (boot_end \<times> 'd sys) option" where
  "wake_v5f M env K has_loop1 s =
     (let s = xcore_init (M V3F) (sys_hw (m_wr (M V3F) RUNTIME_READY 0) s) in
      do { s \<leftarrow> say M env V3F [Str (''V3F: waking V5F'' @ NL)] s;
           let s = sys_hw (m_call (M V3F) (Call ''NVIC_WakeUp_V5F'' [Num (K ''CH32_V5F_START_ADDR'')])) s;
           if has_loop1 then do { s \<leftarrow> second_core M env s; Some (Woken_loop1, s) }
           else Some (Woken_asleep, sys_hw (do_all
             [m_call (M V3F) (Call ''RCC_HB1PeriphClockCmd'' [Sym ''RCC_HB1Periph_PWR'', Sym ''ENABLE'']),
              m_touch (M V3F) (REG ''RCC.HB1PCENR'')]) s) })"

definition decide :: "(core \<Rightarrow> 'd machine) \<Rightarrow> ('d xc \<Rightarrow> 'd xc) \<Rightarrow> (string \<Rightarrow> u32) \<Rightarrow> bool \<Rightarrow> 'd sys \<Rightarrow> (boot_end \<times> 'd sys) option" where
  "decide M env K has_loop1 s =
     (if K ''_v5f_entry'' \<noteq> K ''CH32_V5F_START_ADDR''
      then do { s \<leftarrow> say M env V3F [Str ''FATAL: _v5f_entry != CH32_V5F_START_ADDR ('', Hex (K ''_v5f_entry''), Str '' vs '',
                      Hex (K ''CH32_V5F_START_ADDR''), Str ('')'' @ NL)] s; Some (Wrong_entry, s) }
      else do { s \<leftarrow> say M env V3F [Str (''boot ok'' @ NL)] s;
                if fl_boot_faults (sy_log s) \<ge> FAULT_REBOOT_LIMIT
                then do { s \<leftarrow> say M env V3F [Str ''V3F: the V5F has faulted '', Dec (fl_boot_faults (sy_log s)),
                              Str ('' boots running. NOT waking it.'' @ NL), Str (''V3F: reflash, or reset twice to try again.'' @ NL)] s;
                          let s = flush M V3F s;
                          Some (Not_waking, s\<lparr>sy_log := (sy_log s)\<lparr>fl_boot_faults := 0\<rparr>\<rparr>) }
                else wake_v5f M env K has_loop1 s })"

definition v3f_main :: "(core \<Rightarrow> 'd machine) \<Rightarrow> ('d xc \<Rightarrow> 'd xc) \<Rightarrow> (string \<Rightarrow> u32) \<Rightarrow> bool \<Rightarrow> 'd sys \<Rightarrow> (boot_end \<times> 'd sys) option" where
  "v3f_main M env K has_loop1 s =
     (let (rst, s) = sys_rd (M V3F) (REG ''RCC.RSTSCKR'') s;
          s = sys_hw (vio18_init (M V3F)) s;
          (src, d) = clock_init (M V3F) K (hw (lk (sy_con s)));
          s = (sys_hw (\<lambda>_. d) s)\<lparr>sy_clk := src\<rparr>;
          s = s\<lparr>sy_con := console_init (M V3F) 115200 (sy_con s)\<rparr> in
      do { s \<leftarrow> say M env V3F [Str (NL @ ''CH32H4 Arduino core'' @ NL)] s;
           s \<leftarrow> print_reset_cause M env K rst s;
           s \<leftarrow> replay_v3f M env (count_lockup K rst (check_records K s));
           s \<leftarrow> replay_v5f M env s;
           s \<leftarrow> report_irqs M env s;
           s \<leftarrow> report_clock M env s;
           decide M env K has_loop1 s })"

section \<open>The V5F\<close>

text \<open>
  \<open>ctors\<close>, \<open>setup\<close> and \<open>loop\<close> are the sketch's; \<open>usb\<close> is whether the USB stack was built in,
  and then \<open>usb_begin\<close> brings it up.  \<open>t\<close> is the tick calibration.  The guard against the
  wrong core ends in a loop that is \<open>None\<close>.
\<close>

definition v5f_start :: "(core \<Rightarrow> 'd machine) \<Rightarrow> ('d xc \<Rightarrow> 'd xc) \<Rightarrow> (string \<Rightarrow> u32) \<Rightarrow> ('d sys \<Rightarrow> 'd sys) \<Rightarrow> ('d \<Rightarrow> bool \<times> 'd) option \<Rightarrow>
    core \<Rightarrow> systick \<times> 'd sys \<Rightarrow> (systick \<times> 'd sys) option" where
  "v5f_start M env K ctors usb c x = (case x of (t, s) \<Rightarrow>
     if c \<noteq> V5F
     then do { s \<leftarrow> say M env c [Chr (CHR 0x0A), Str ''FATAL: V3F entered ch32h4_v5f_main'', Chr (CHR 0x0A)] s; None }
     else (let s = sys_hw (do_all [m_call (M V5F) (Call ''SystemAndCoreClockUpdate'' []), m_call (M V5F) (Call ''FLASH_Unlock'' []),
                     m_call (M V5F) (Call ''FLASH_Enhance_Mode'' [Sym ''ENABLE'']), m_call (M V5F) (Call ''FLASH_Lock'' [])]) s;
               (v, s) = sys_rd (M V5F) (REG ''FLASH.ACTLR'') s in
       do { s \<leftarrow> (if v AND K ''FLASH_ACTLR_ENHANCE_STATUS'' = 0
                  then say M env V5F [Str (''V5F: WARNING flash enhance mode did not take'' @ [CHR 0x0D, CHR 0x0A])] s else Some s);
            let (t, d) = systick_init (M V5F) (t, hw (lk (sy_con s)));
            s \<leftarrow> say M env V5F [Str ''V5F: alive core_id='', Dec (ucast (core_num c)), Str (NL @ ''V5F: sysclk='')] (sys_hw (\<lambda>_. d) s);
            let (f, s) = sys_rd (M V5F) (REG ''SystemClock'') s;
            s \<leftarrow> say M env V5F [Dec f, Str (NL @ ''V5F: coreclk='')] s;
            let (k, s) = sys_rd (M V5F) (REG ''SystemCoreClock'') s;
            s \<leftarrow> say M env V5F [Dec k, Str (NL @ ''V5F: hclk='')] s;
            let (h, s) = sys_rd (M V5F) (REG ''HCLKClock'') s;
            s \<leftarrow> say M env V5F [Dec h, Str NL] s;
            let s = ctors s;
            s \<leftarrow> (case usb of None \<Rightarrow> Some s
                  | Some f \<Rightarrow> (let (ok, d) = f (hw (lk (sy_con s))) in
                      do { s \<leftarrow> say M env V5F [Str (if ok then ''V5F: usb up'' else ''V5F: usb DOWN (needs the crystal)''),
                                   Chr (CHR 0x0A)] (sys_hw (\<lambda>_. d) s);
                           Some (flush M V5F s) }));
            s \<leftarrow> say M env V5F [Str (''V5F: runtime ready'' @ NL)] (sys_hw (m_wr (M V5F) RUNTIME_READY RUNTIME_READY_MAGIC) s);
            Some (t, s) }))"

text \<open>The head of the loop: after three seconds the boot counts as a success.\<close>

definition boot_confirm :: "'d machine \<Rightarrow> 'd sys \<Rightarrow> 'd sys" where
  "boot_confirm M s =
     (if sy_confirmed s then s
      else (let (t, d) = m_millis M (hw (lk (sy_con s))); s = sys_hw (\<lambda>_. d) s in
            if t > 3000 then s\<lparr>sy_confirmed := True, sy_log := (sy_log s)\<lparr>fl_boot_faults := 0\<rparr>\<rparr> else s))"

definition loop_turn :: "'d machine \<Rightarrow> ('d sys \<Rightarrow> 'd sys) \<Rightarrow> ('d \<Rightarrow> 'd) \<Rightarrow> 'd sys \<Rightarrow> 'd sys" where
  "loop_turn M loop yield s = sys_hw yield (loop (boot_confirm M s))"

section \<open>The console always answers\<close>

lemma print_item_returns:
  assumes "uart_ok M env c out" "s_lock_depth s c = 0"
  shows "\<exists>s'. print_item M env c i s = Some s' \<and> s_lock_depth s' c = 0"
proof -
  have d: "s_lock_depth s c \<noteq> - 1" "s_lock_depth s c \<noteq> - 2" using assms(2) by simp_all
  have "\<exists>s' t. print_item M env c i s = Some s' \<and> prints out t s s'"
    using puts_prints [OF assms(1) d(1)] putc_prints [OF assms(1)] putu_prints [OF assms(1) d(1)] puthex_prints [OF assms(1) d]
    by (cases i; simp; blast)
  then show ?thesis using assms(2) by (auto simp: prints_def)
qed

text \<open>A step that prints leaves the records alone and the lock free.\<close>

definition keeps_records :: "'d sys \<Rightarrow> 'd sys \<Rightarrow> bool" where
  "keeps_records s s' \<longleftrightarrow> sy_log s' = sy_log s \<and> sy_log_v3f s' = sy_log_v3f s \<and> sy_trace_magic s' = sy_trace_magic s \<and>
     s_lock_depth (sy_con s') V3F = 0"

lemma keeps_records_trans: "keeps_records s s' \<Longrightarrow> keeps_records s' s'' \<Longrightarrow> keeps_records s s''"
  by (simp add: keeps_records_def)

lemma say_returns:
  assumes "uart_ok M env V3F out" "s_lock_depth (sy_con s) V3F = 0"
  shows "\<exists>s'. say M env V3F is s = Some s' \<and> keeps_records s s' \<and> sy_irq s' = sy_irq s \<and> sy_clk s' = sy_clk s"
proof -
  have "\<exists>k'. print_items M env V3F is k = Some k' \<and> s_lock_depth k' V3F = 0" if "s_lock_depth k V3F = 0" for k
    using that
  proof (induction "is" arbitrary: k)
    case (Cons i "is")
    then show ?case using print_item_returns [OF assms(1), of k i] by fastforce
  qed simp
  from this [OF assms(2)] show ?thesis by (auto simp: say_def keeps_records_def)
qed

lemma sys_hw_keeps: "s_lock_depth (sy_con s) V3F = 0 \<Longrightarrow> keeps_records s (sys_hw f s)"
  by (simp add: keeps_records_def sys_hw_def on_hw_def)

lemma flush_keeps: "s_lock_depth (sy_con s) V3F = 0 \<Longrightarrow> keeps_records s (flush M c s)"
  by (simp add: keeps_records_def flush_def console_flush_def on_hw_def)

lemma sys_rd_keeps: "s_lock_depth (sy_con s) V3F = 0 \<Longrightarrow> keeps_records s (snd (sys_rd M r s))"
  by (simp add: sys_rd_def sys_hw_keeps split_beta)

lemma keeps_records_lock: "keeps_records s s' \<Longrightarrow> s_lock_depth (sy_con s') V3F = 0"
  by (simp add: keeps_records_def)

lemma report_clock_returns:
  assumes u: "uart_ok M env V3F out" and s: "s_lock_depth (sy_con s) V3F = 0"
  shows "\<exists>s'. report_clock M env s = Some s' \<and> keeps_records s s'"
proof -
  note sr = say_returns [OF u]
  obtain s1 where s1: "say M env V3F [Str ((if sy_clk s = SRC_HSE then ''sysclk_src=hse'' else ''sysclk_src=hsi'') @ NL), Str ''hclk=''] s = Some s1"
    "keeps_records s s1" using sr [OF s] by blast
  obtain h s2 where h: "sys_rd (M V3F) (REG ''HCLKClock'') s1 = (h, s2)" by (cases "sys_rd (M V3F) (REG ''HCLKClock'') s1")
  have k2: "keeps_records s s2"
    using keeps_records_trans [OF s1(2) sys_rd_keeps [OF keeps_records_lock [OF s1(2)], of "M V3F" "REG ''HCLKClock''"]] h by simp
  obtain s3 where s3: "say M env V3F [Dec h, Str (NL @ ''sysclk='')] s2 = Some s3" "keeps_records s s3"
    using sr [OF keeps_records_lock [OF k2]] keeps_records_trans [OF k2] by blast
  obtain f s4 where f: "sys_rd (M V3F) (REG ''SystemClock'') s3 = (f, s4)" by (cases "sys_rd (M V3F) (REG ''SystemClock'') s3")
  have k4: "keeps_records s s4"
    using keeps_records_trans [OF s3(2) sys_rd_keeps [OF keeps_records_lock [OF s3(2)], of "M V3F" "REG ''SystemClock''"]] f by simp
  obtain s5 where s5: "say M env V3F [Dec f, Str NL] s4 = Some s5" "keeps_records s s5"
    using sr [OF keeps_records_lock [OF k4]] keeps_records_trans [OF k4] by blast
  obtain ok s6 where c: "clock_nominal M s5 = (ok, s6)" by (cases "clock_nominal M s5")
  have "keeps_records s5 s6"
    using c sys_hw_keeps [OF keeps_records_lock [OF s5(2)]] by (auto simp: clock_nominal_def split: prod.splits)
  with s5(2) have k6: "keeps_records s s6" by (rule keeps_records_trans)
  obtain s7 where s7: "say M env V3F [Str (''WARNING: degraded clock -- Ethernet and USB will not work'' @ NL)] s6 = Some s7" "keeps_records s s7"
    using sr [OF keeps_records_lock [OF k6]] keeps_records_trans [OF k6] by blast
  show ?thesis using s1(1) h s3(1) f s5(1) c s7 k6 by (cases ok) (simp_all add: report_clock_def)
qed

lemma say_if_returns:
  assumes "uart_ok M env V3F out" "s_lock_depth (sy_con s) V3F = 0"
  shows "\<exists>s'. (if P then say M env V3F is s else Some s) = Some s' \<and> keeps_records s s'"
  using say_returns [OF assms, of "is"] assms(2) by (cases P) (auto simp: keeps_records_def)

lemma report_irqs_returns:
  assumes u: "uart_ok M env V3F out" and s: "s_lock_depth (sy_con s) V3F = 0"
  shows "\<exists>s'. report_irqs M env s = Some s' \<and> keeps_records s s'"
proof -
  let ?is = "let q = sy_irq s in [Str ''irq eth='', Dec (iq_count q Irq_eth), Str '' systick='', Dec (iq_count q Irq_systick),
      Str '' usbfs='', Dec (iq_count q Irq_usbfs), Str '' usart1='', Dec (iq_count q Irq_usart1),
      Str '' max_nesting='', Dec (iq_max_nesting q), Str NL]"
  obtain s1 where s1: "(if iq_count (sy_irq s) Irq_systick \<noteq> 0 then say M env V3F ?is s else Some s) = Some s1" "keeps_records s s1"
    using say_if_returns [OF u s] by blast
  have "report_irqs M env s = Some (s1\<lparr>sy_irq := irq_zero\<rparr>)"
    using s1(1) by (simp only: report_irqs_def Let_def bind.bind_lunit)
  then show ?thesis using s1(2) by (auto simp: keeps_records_def)
qed

section \<open>One boot\<close>

lemma replay_v3f_returns:
  assumes u: "uart_ok M env V3F out" and s: "s_lock_depth (sy_con s) V3F = 0"
  shows "\<exists>s'. replay_v3f M env s = Some s' \<and> fl_magic (sy_log_v3f s') \<noteq> FAULT_LOG_MAGIC \<and>
    sy_trace_magic s' = sy_trace_magic s \<and> s_lock_depth (sy_con s') V3F = 0 \<and>
    sy_log s' = (if fl_magic (sy_log_v3f s) = FAULT_LOG_MAGIC then (sy_log s)\<lparr>fl_boot_faults := fl_boot_faults (sy_log s) + 1\<rparr> else sy_log s)"
proof (cases "fl_magic (sy_log_v3f s) = FAULT_LOG_MAGIC")
  case True
  let ?l = "sy_log_v3f s"
  let ?is = "[Str ''v3f trap: mcause='', Hex (fl_mcause ?l), Str '' mepc='', Hex (fl_mepc ?l), Str '' mtval='', Hex (fl_mtval ?l),
                   Str '' mstatus='', Hex (fl_mstatus ?l), Str '' sp='', Hex (fl_sp ?l), Str '' ra='', Hex (fl_irq_eth ?l),
                   Str '' stack='', Hex (fl_irq_systick ?l), Chr (CHR '',''), Hex (fl_irq_usbfs ?l), Chr (CHR '',''),
                   Hex (fl_irq_usart1 ?l), Chr (CHR '',''), Hex (fl_irq_max_nesting ?l), Str NL]"
  obtain s1 where s1: "say M env V3F ?is s = Some s1" "keeps_records s s1" using say_returns [OF u s] by blast
  have "replay_v3f M env s = Some (count_fault ((flush M V3F s1)\<lparr>sy_log_v3f := ?l\<lparr>fl_magic := 0\<rparr>\<rparr>))"
    using s1(1) True by (simp add: replay_v3f_def)
  then show ?thesis
    using True s1(2) flush_keeps [OF keeps_records_lock [OF s1(2)], of M V3F]
    by (simp add: count_fault_def keeps_records_def FAULT_LOG_MAGIC_def)
next
  case False
  then show ?thesis using s by (simp add: replay_v3f_def)
qed

lemma replay_v5f_returns:
  assumes u: "uart_ok M env V3F out" and s: "s_lock_depth (sy_con s) V3F = 0"
  shows "\<exists>s'. replay_v5f M env s = Some s' \<and> fl_magic (sy_log s') \<noteq> FAULT_LOG_MAGIC \<and> sy_log_v3f s' = sy_log_v3f s \<and>
    sy_trace_magic s' = sy_trace_magic s \<and> s_lock_depth (sy_con s') V3F = 0 \<and>
    fl_boot_faults (sy_log s') = (if fl_magic (sy_log s) = FAULT_LOG_MAGIC then fl_boot_faults (sy_log s) + 1 else fl_boot_faults (sy_log s))"
proof (cases "fl_magic (sy_log s) = FAULT_LOG_MAGIC")
  case True
  let ?l = "sy_log s"
  let ?is = "[Str ''v5f fault: mcause='', Hex (fl_mcause ?l), Str '' mepc='', Hex (fl_mepc ?l), Str '' mtval='', Hex (fl_mtval ?l),
                   Str '' mstatus='', Hex (fl_mstatus ?l), Str '' sp='', Hex (fl_sp ?l), Str NL,
                   Str ''irq eth='', Dec (fl_irq_eth ?l), Str '' systick='', Dec (fl_irq_systick ?l), Str '' usbfs='',
                   Dec (fl_irq_usbfs ?l), Str '' usart1='', Dec (fl_irq_usart1 ?l), Str '' max_nesting='',
                   Dec (fl_irq_max_nesting ?l), Str '' boot_faults='', Dec (fl_boot_faults ?l + 1), Str NL]"
  obtain s1 where s1: "say M env V3F ?is s = Some s1" "keeps_records s s1" using say_returns [OF u s] by blast
  have "replay_v5f M env s = Some (count_fault ((flush M V3F s1)\<lparr>sy_log := ?l\<lparr>fl_magic := 0\<rparr>\<rparr>))"
    using s1(1) True by (simp add: replay_v5f_def)
  then show ?thesis
    using True s1(2) flush_keeps [OF keeps_records_lock [OF s1(2)], of M V3F]
    by (simp add: count_fault_def keeps_records_def FAULT_LOG_MAGIC_def)
next
  case False
  then show ?thesis using s by (simp add: replay_v5f_def)
qed

lemma xcore_init_keeps: "s_lock_depth (sy_con s) V3F = 0 \<Longrightarrow> keeps_records s (xcore_init M s)"
  by (simp add: keeps_records_def xcore_init_def sys_hw_def on_hw_def)

lemma second_core_returns:
  assumes u: "uart_ok M env V3F out" and s: "s_lock_depth (sy_con s) V3F = 0"
  shows "\<exists>s'. second_core M env s = Some s' \<and> keeps_records s s'"
proof -
  note sr = say_returns [OF u] and t = keeps_records_trans and l = keeps_records_lock
  obtain s1 where s1: "say M env V3F [Str (''V3F: waiting for the V5F runtime'' @ NL)] s = Some s1" "keeps_records s s1"
    using sr [OF s] by blast
  note k2 = t [OF s1(2) flush_keeps [OF l [OF s1(2)], of M V3F]]
  let ?s2 = "flush M V3F s1"
  obtain ok d where g: "guarded (runtime_ready_seen (M V3F)) 200000001 (hw (lk (sy_con ?s2))) = (ok, d)"
    by (cases "guarded (runtime_ready_seen (M V3F)) 200000001 (hw (lk (sy_con ?s2)))")
  let ?s3 = "sys_hw (\<lambda>_. d) ?s2"
  note k3 = t [OF k2 sys_hw_keeps [OF l [OF k2], of "\<lambda>_. d"]]
  obtain s4 where s4: "say M env V3F [Str (''V3F: FATAL, V5F never signalled ready'' @ NL)] ?s3 = Some s4" "keeps_records s s4"
    using sr [OF l [OF k3]] t [OF k3] by blast
  note k4 = t [OF s4(2) flush_keeps [OF l [OF s4(2)], of M V3F]]
  let ?s5 = "if ok then ?s3 else flush M V3F s4"
  have k5: "keeps_records s ?s5" using k3 k4 by simp
  obtain s6 where s6: "say M env V3F [Str (''V3F: running setup1/loop1'' @ NL)] ?s5 = Some s6" "keeps_records s s6"
    using sr [OF l [OF k5]] t [OF k5] by blast
  note k7 = t [OF s6(2) flush_keeps [OF l [OF s6(2)], of M V3F]]
  have "second_core M env s = Some (sys_hw (park_live_here (M V3F) V3F) (flush M V3F s6))"
    using s1(1) g s4(1) s6(1) by (cases ok) (simp_all add: second_core_def)
  then show ?thesis using t [OF k7 sys_hw_keeps [OF l [OF k7]]] by blast
qed

lemma wake_v5f_returns:
  assumes u: "uart_ok M env V3F out" and s: "s_lock_depth (sy_con s) V3F = 0"
  shows "\<exists>e s'. wake_v5f M env K lp s = Some (e, s') \<and> e \<in> {Woken_asleep, Woken_loop1} \<and> keeps_records s s'"
proof -
  note t = keeps_records_trans and l = keeps_records_lock
  let ?s1 = "xcore_init (M V3F) (sys_hw (m_wr (M V3F) RUNTIME_READY 0) s)"
  note h = sys_hw_keeps [OF s, of "m_wr (M V3F) RUNTIME_READY 0"]
  note k1 = t [OF h xcore_init_keeps [OF l [OF h], of "M V3F"]]
  obtain s2 where s2: "say M env V3F [Str (''V3F: waking V5F'' @ NL)] ?s1 = Some s2" "keeps_records s s2"
    using say_returns [OF u l [OF k1]] t [OF k1] by blast
  let ?s3 = "sys_hw (m_call (M V3F) (Call ''NVIC_WakeUp_V5F'' [Num (K ''CH32_V5F_START_ADDR'')])) s2"
  note k3 = t [OF s2(2) sys_hw_keeps [OF l [OF s2(2)], of "m_call (M V3F) (Call ''NVIC_WakeUp_V5F'' [Num (K ''CH32_V5F_START_ADDR'')])"]]
  obtain s4 where s4: "second_core M env ?s3 = Some s4" "keeps_records s s4"
    using second_core_returns [OF u l [OF k3]] t [OF k3] by blast
  show ?thesis
    using s2(1) s4 t [OF k3 sys_hw_keeps [OF l [OF k3]]] by (cases lp) (auto simp: wake_v5f_def Let_def)
qed

lemma decide_returns:
  assumes u: "uart_ok M env V3F out" and s: "s_lock_depth (sy_con s) V3F = 0" and K: "K ''_v5f_entry'' = K ''CH32_V5F_START_ADDR''"
  shows "\<exists>e s'. decide M env K lp s = Some (e, s') \<and> sy_log_v3f s' = sy_log_v3f s \<and> sy_trace_magic s' = sy_trace_magic s \<and>
    fl_magic (sy_log s') = fl_magic (sy_log s) \<and>
    (if fl_boot_faults (sy_log s) \<ge> FAULT_REBOOT_LIMIT then e = Not_waking \<and> fl_boot_faults (sy_log s') = 0
     else e \<in> {Woken_asleep, Woken_loop1} \<and> fl_boot_faults (sy_log s') = fl_boot_faults (sy_log s))"
proof -
  note t = keeps_records_trans and l = keeps_records_lock
  obtain s1 where s1: "say M env V3F [Str (''boot ok'' @ NL)] s = Some s1" "keeps_records s s1" using say_returns [OF u s] by blast
  have b: "fl_boot_faults (sy_log s1) = fl_boot_faults (sy_log s)" using s1(2) by (simp add: keeps_records_def)
  show ?thesis
  proof (cases "fl_boot_faults (sy_log s) \<ge> FAULT_REBOOT_LIMIT")
    case True
    obtain s2 where s2: "say M env V3F [Str ''V3F: the V5F has faulted '', Dec (fl_boot_faults (sy_log s1)),
        Str ('' boots running. NOT waking it.'' @ NL), Str (''V3F: reflash, or reset twice to try again.'' @ NL)] s1 = Some s2"
      "keeps_records s s2" using say_returns [OF u l [OF s1(2)]] t [OF s1(2)] by blast
    note k3 = t [OF s2(2) flush_keeps [OF l [OF s2(2)], of M V3F]]
    show ?thesis using True s1(1) b s2(1) k3 K by (simp add: decide_def keeps_records_def Let_def)
  next
    case False
    obtain e s2 where "wake_v5f M env K lp s1 = Some (e, s2)" "e \<in> {Woken_asleep, Woken_loop1}" "keeps_records s s2"
      using wake_v5f_returns [OF u l [OF s1(2)]] t [OF s1(2)] by blast
    then show ?thesis using False s1(1) b K by (simp add: decide_def keeps_records_def)
  qed
qed

text \<open>How many faults in a row a boot counts, and what it does about them.\<close>

definition faults_at_boot :: "(string \<Rightarrow> u32) \<Rightarrow> u32 \<Rightarrow> 'd sys \<Rightarrow> u32" where
  "faults_at_boot K rst s =
     (let s = check_records K s in
      fl_boot_faults (sy_log s) + (if rst AND K ''RCC_LOCKUPRSTF'' \<noteq> 0 then 1 else 0) +
      (if fl_magic (sy_log_v3f s) = FAULT_LOG_MAGIC then 1 else 0) + (if fl_magic (sy_log s) = FAULT_LOG_MAGIC then 1 else 0))"

definition reset_cause :: "'d machine \<Rightarrow> 'd sys \<Rightarrow> u32" where
  "reset_cause M s = val M (REG ''RCC.RSTSCKR'') (hw (lk (sy_con s)))"

lemma v3f_main_returns:
  assumes u: "uart_ok M env V3F out" and K: "K ''_v5f_entry'' = K ''CH32_V5F_START_ADDR''"
  shows "\<exists>e s'. v3f_main M env K lp s = Some (e, s') \<and> fl_magic (sy_log_v3f s') \<noteq> FAULT_LOG_MAGIC \<and>
    fl_magic (sy_log s') \<noteq> FAULT_LOG_MAGIC \<and> sy_trace_magic s' = K ''CH32H4_TRACE_MAGIC'' \<and>
    (let n = faults_at_boot K (reset_cause (M V3F) s) s in
     if n \<ge> FAULT_REBOOT_LIMIT then e = Not_waking \<and> fl_boot_faults (sy_log s') = 0
     else e \<in> {Woken_asleep, Woken_loop1} \<and> fl_boot_faults (sy_log s') = n)"
proof -
  let ?rst = "reset_cause (M V3F) s"
  obtain s1 where s1: "sys_rd (M V3F) (REG ''RCC.RSTSCKR'') s = (?rst, s1)" "sy_log s1 = sy_log s" "sy_log_v3f s1 = sy_log_v3f s"
    "sy_trace_magic s1 = sy_trace_magic s"
    by (simp add: sys_rd_def reset_cause_def val_def sys_hw_def split_beta)
  let ?s2 = "sys_hw (vio18_init (M V3F)) s1"
  obtain src d where c: "clock_init (M V3F) K (hw (lk (sy_con ?s2))) = (src, d)"
    by (cases "clock_init (M V3F) K (hw (lk (sy_con ?s2)))")
  let ?s3 = "(sys_hw (\<lambda>_. d) ?s2)\<lparr>sy_clk := src\<rparr>"
  let ?s4 = "?s3\<lparr>sy_con := console_init (M V3F) 115200 (sy_con ?s3)\<rparr>"
  have k4: "s_lock_depth (sy_con ?s4) V3F = 0" by (simp add: console_init_def on_hw_def)
  have r4: "sy_log ?s4 = sy_log s" "sy_log_v3f ?s4 = sy_log_v3f s" "sy_trace_magic ?s4 = sy_trace_magic s"
    using s1 by (simp_all add: sys_hw_def)
  obtain s5 where s5: "say M env V3F [Str (NL @ ''CH32H4 Arduino core'' @ NL)] ?s4 = Some s5" "keeps_records ?s4 s5"
    using say_returns [OF u k4] by blast
  obtain s5' where s5': "say M env V3F (reset_cause_text K ?rst) s5 = Some s5'" "keeps_records ?s4 s5'"
    using say_returns [OF u keeps_records_lock [OF s5(2)], of "reset_cause_text K ?rst"] keeps_records_trans [OF s5(2)] by blast
  define s6 where "s6 = sys_hw (m_or (M V3F) (REG ''RCC.RSTSCKR'') (K ''RCC_RMVF'')) s5'"
  have s6: "print_reset_cause M env K ?rst s5 = Some s6" "keeps_records ?s4 s6"
    unfolding s6_def using s5' keeps_records_trans [OF s5'(2) sys_hw_keeps [OF keeps_records_lock [OF s5'(2)]]]
    by (simp_all add: print_reset_cause_def)
  let ?s7 = "count_lockup K ?rst (check_records K s6)"
  have r6: "sy_log s6 = sy_log s" "sy_log_v3f s6 = sy_log_v3f s" "sy_trace_magic s6 = sy_trace_magic s"
    "s_lock_depth (sy_con s6) V3F = 0" using s6(2) r4 by (simp_all add: keeps_records_def)
  have r7: "sy_log_v3f ?s7 = sy_log_v3f (check_records K s)" "fl_magic (sy_log ?s7) = fl_magic (sy_log (check_records K s))"
    "fl_boot_faults (sy_log ?s7) = fl_boot_faults (sy_log (check_records K s)) + (if ?rst AND K ''RCC_LOCKUPRSTF'' \<noteq> 0 then 1 else 0)"
    "sy_trace_magic ?s7 = K ''CH32H4_TRACE_MAGIC''" "s_lock_depth (sy_con ?s7) V3F = 0"
    using r6 by (simp_all add: count_lockup_def count_fault_def check_records_def Let_def)
  obtain s8 where s8: "replay_v3f M env ?s7 = Some s8" "fl_magic (sy_log_v3f s8) \<noteq> FAULT_LOG_MAGIC"
    "sy_trace_magic s8 = sy_trace_magic ?s7" "s_lock_depth (sy_con s8) V3F = 0"
    "sy_log s8 = (if fl_magic (sy_log_v3f ?s7) = FAULT_LOG_MAGIC then (sy_log ?s7)\<lparr>fl_boot_faults := fl_boot_faults (sy_log ?s7) + 1\<rparr> else sy_log ?s7)"
    using replay_v3f_returns [OF u r7(5)] by blast
  obtain s9 where s9: "replay_v5f M env s8 = Some s9" "fl_magic (sy_log s9) \<noteq> FAULT_LOG_MAGIC" "sy_log_v3f s9 = sy_log_v3f s8"
    "sy_trace_magic s9 = sy_trace_magic s8" "s_lock_depth (sy_con s9) V3F = 0"
    "fl_boot_faults (sy_log s9) = (if fl_magic (sy_log s8) = FAULT_LOG_MAGIC then fl_boot_faults (sy_log s8) + 1 else fl_boot_faults (sy_log s8))"
    using replay_v5f_returns [OF u s8(4)] by blast
  obtain s10 where s10: "report_irqs M env s9 = Some s10" "keeps_records s9 s10" using report_irqs_returns [OF u s9(5)] by blast
  obtain s11 where s11: "report_clock M env s10 = Some s11" "keeps_records s9 s11"
    using report_clock_returns [OF u keeps_records_lock [OF s10(2)]] keeps_records_trans [OF s10(2)] by blast
  have n: "fl_boot_faults (sy_log s11) = faults_at_boot K ?rst s"
    using s11(2) s9(6) s8(5) r7 by (simp add: keeps_records_def faults_at_boot_def Let_def)
  obtain e s12 where e: "decide M env K lp s11 = Some (e, s12)" "sy_log_v3f s12 = sy_log_v3f s11" "sy_trace_magic s12 = sy_trace_magic s11"
    "fl_magic (sy_log s12) = fl_magic (sy_log s11)"
    "if fl_boot_faults (sy_log s11) \<ge> FAULT_REBOOT_LIMIT then e = Not_waking \<and> fl_boot_faults (sy_log s12) = 0
     else e \<in> {Woken_asleep, Woken_loop1} \<and> fl_boot_faults (sy_log s12) = fl_boot_faults (sy_log s11)"
    using decide_returns [OF u keeps_records_lock [OF s11(2)] K] by blast
  have "v3f_main M env K lp s = Some (e, s12)"
    using s5(1) s6(1) s8(1) s9(1) s10(1) s11(1) e(1) by (simp add: v3f_main_def s1(1) c Let_def)
  moreover have r11: "sy_log s11 = sy_log s9" "sy_log_v3f s11 = sy_log_v3f s9" "sy_trace_magic s11 = sy_trace_magic s9"
    using s11(2) by (simp_all add: keeps_records_def)
  have "fl_magic (sy_log_v3f s12) \<noteq> FAULT_LOG_MAGIC" "fl_magic (sy_log s12) \<noteq> FAULT_LOG_MAGIC"
    using e(2,4) r11 s9(2,3) s8(2) by simp_all
  moreover have "sy_trace_magic s12 = K ''CH32H4_TRACE_MAGIC''" using e(3) r11(3) s9(4) s8(3) r7(4) by simp
  ultimately show ?thesis using e(5) unfolding n Let_def by blast
qed

section \<open>Crashing on every boot\<close>

text \<open>
  From one boot to the next.  The sketch runs: it may change anything except the records,
  whose count only \<open>boot_confirm\<close> clears, after three seconds.  Then it crashes: a fault on
  the V5F, whose handler records it; a lockup, which leaves only the reset cause; or a trap
  on the V3F, whose start-up code records it.  The reset leaves the shared memory as it is,
  and the hardware in any state.
\<close>

definition ran_on :: "'d sys \<Rightarrow> 'd sys \<Rightarrow> bool" where
  "ran_on s s' \<longleftrightarrow> sy_log s' = sy_log s \<and> sy_log_v3f s' = sy_log_v3f s \<and> sy_trace_magic s' = sy_trace_magic s"

definition after_reset :: "'d \<Rightarrow> 'd sys \<Rightarrow> 'd sys" where
  "after_reset d s = (sys_hw (\<lambda>_. d) s)\<lparr>sy_confirmed := False\<rparr>"

inductive crash :: "(core \<Rightarrow> 'd machine) \<Rightarrow> (string \<Rightarrow> u32) \<Rightarrow> 'd sys \<Rightarrow> 'd sys \<Rightarrow> bool" for M K where
  V5F_fault: "ran_on s s1 \<Longrightarrow> crash M K s (after_reset d (HardFault_Handler M K c s1))"
| Lockup: "ran_on s s1 \<Longrightarrow> val (M V3F) (REG ''RCC.RSTSCKR'') d AND K ''RCC_LOCKUPRSTF'' \<noteq> 0 \<Longrightarrow> crash M K s (after_reset d s1)"
| V3F_trap: "ran_on s s1 \<Longrightarrow> crash M K s (after_reset d (s1\<lparr>sy_log_v3f := l\<lparr>fl_magic := FAULT_LOG_MAGIC\<rparr>\<rparr>))"

inductive crash_loop :: "(core \<Rightarrow> 'd machine) \<Rightarrow> ('d xc \<Rightarrow> 'd xc) \<Rightarrow> (string \<Rightarrow> u32) \<Rightarrow> bool \<Rightarrow> 'd sys \<Rightarrow> boot_end list \<Rightarrow> 'd sys \<Rightarrow> bool"
  for M env K lp where
  Stop: "crash_loop M env K lp s [] s"
| Boot: "v3f_main M env K lp s = Some (e, s1) \<Longrightarrow> crash M K s1 s2 \<Longrightarrow> crash_loop M env K lp s2 es s3 \<Longrightarrow>
    crash_loop M env K lp s (e # es) s3"

inductive_cases crash_loop_Cons: "crash_loop M env K lp s (e # es) s'"

lemma HardFault_Handler_records:
  "fl_magic (sy_log (HardFault_Handler M K c s)) = FAULT_LOG_MAGIC"
  "fl_boot_faults (sy_log (HardFault_Handler M K c s)) = fl_boot_faults (sy_log s)"
  "sy_trace_magic (HardFault_Handler M K c s) = sy_trace_magic s"
  by (simp_all add: HardFault_Handler_def fault_dump_def Let_def sys_hw_def hard_fault_entry_def)

lemma word_add_small:
  "unat (a :: u32) \<le> 2 \<Longrightarrow> unat b \<le> 1 \<Longrightarrow> unat c \<le> 1 \<Longrightarrow> unat e \<le> 1 \<Longrightarrow> unat (a + b + c + e) = unat a + unat b + unat c + unat e"
  by (simp add: unat_add_u32)

text \<open>A crash adds to the count of the next boot.\<close>

lemma crash_counts:
  assumes "crash M K s s'" "sy_trace_magic s = K ''CH32H4_TRACE_MAGIC''" "unat (fl_boot_faults (sy_log s)) \<le> 2"
  shows "unat (fl_boot_faults (sy_log s)) < unat (faults_at_boot K (reset_cause (M V3F) s') s')"
  using assms
proof cases
  let ?b = "fl_boot_faults (sy_log s)"
  have check: "check_records K s' = s'" if "sy_trace_magic s' = sy_trace_magic s" "fl_boot_faults (sy_log s') = ?b"
    using that assms(2,3) by (simp add: check_records_def FAULT_REBOOT_LIMIT_def word_less_nat_alt)
  have step: "unat ?b < unat (faults_at_boot K rst s')"
    if "sy_trace_magic s' = sy_trace_magic s" "fl_boot_faults (sy_log s') = ?b"
      "fl_magic (sy_log s') = FAULT_LOG_MAGIC \<or> fl_magic (sy_log_v3f s') = FAULT_LOG_MAGIC \<or> rst AND K ''RCC_LOCKUPRSTF'' \<noteq> 0" for rst
    using that assms(3) unfolding faults_at_boot_def Let_def check [OF that(1,2)]
    by (subst word_add_small) auto
  {
    case (V5F_fault s1 d c)
    then show ?thesis
      by (intro step) (simp_all add: after_reset_def sys_hw_def HardFault_Handler_records ran_on_def)
  next
    case (Lockup s1 d)
    then show ?thesis by (intro step) (simp_all add: after_reset_def sys_hw_def ran_on_def reset_cause_def on_hw_def)
  next
    case (V3F_trap s1 d l)
    then show ?thesis by (intro step) (simp_all add: after_reset_def sys_hw_def ran_on_def)
  }
qed

lemma boot_bound:
  assumes u: "uart_ok M env V3F out" and K: "K ''_v5f_entry'' = K ''CH32_V5F_START_ADDR''"
    and r: "v3f_main M env K lp s = Some (e, s')" and e: "e \<noteq> Not_waking"
  shows "sy_trace_magic s' = K ''CH32H4_TRACE_MAGIC''" "unat (fl_boot_faults (sy_log s')) \<le> 2"
    "fl_boot_faults (sy_log s') = faults_at_boot K (reset_cause (M V3F) s) s"
  using v3f_main_returns [where K = K, OF u K, of lp s] r e
  by (auto simp: Let_def FAULT_REBOOT_LIMIT_def word_le_nat_alt split: if_splits)

lemma crash_loop_stops:
  assumes u: "uart_ok M env V3F out" and K: "K ''_v5f_entry'' = K ''CH32_V5F_START_ADDR''"
    and l: "crash_loop M env K lp s es s'" and n: "3 - unat (faults_at_boot K (reset_cause (M V3F) s) s) < length es"
  shows "Not_waking \<in> set (take (Suc (3 - unat (faults_at_boot K (reset_cause (M V3F) s) s))) es)"
  using l n
proof induction
  case (Boot s e s1 s2 es s3)
  let ?n = "unat (faults_at_boot K (reset_cause (M V3F) s) s)" and ?n2 = "unat (faults_at_boot K (reset_cause (M V3F) s2) s2)"
  have e: "e = Not_waking" if "3 \<le> ?n"
    using v3f_main_returns [where K = K, OF u K, of lp s] Boot.hyps(1) that
    by (auto simp: Let_def FAULT_REBOOT_LIMIT_def word_le_nat_alt split: if_splits)
  show ?case
  proof (cases "e = Not_waking")
    case False
    then have lt: "?n < 3" using e by fastforce
    note b = boot_bound [where K = K, OF u K Boot.hyps(1) False]
    have "?n < ?n2" using crash_counts [OF Boot.hyps(2) b(1,2)] b(3) by simp
    then have le: "Suc (3 - ?n2) \<le> 3 - ?n" "3 - ?n2 < length es" using lt Boot.prems by auto
    have "Not_waking \<in> set (take (3 - ?n) es)"
      using Boot.IH [OF le(2)] set_take_subset_set_take [OF le(1), of es] by blast
    then show ?thesis by simp
  next
    case True
    then show ?thesis by simp
  qed
qed simp

text \<open>
  C6.  A sketch that crashes on every boot does not keep the board resetting for ever, and
  the board can be tried again.  With a console that transmits, whatever the shared memory
  holds at first and however each boot ends (a fault on the V5F, a lockup, a trap on the
  V3F) before the sketch has run for three seconds: among any four boots in a row one stays
  on the V3F with the V5F asleep; and the boot after such a one, by a plain reset, wakes the
  V5F again.
\<close>

theorem crash_loop_is_broken:
  fixes M :: "core \<Rightarrow> 'd machine"
  assumes u: "uart_ok M env V3F out" and K: "K ''_v5f_entry'' = K ''CH32_V5F_START_ADDR''"
  shows "(\<forall>es s'. crash_loop M env K lp s es s' \<longrightarrow> 4 \<le> length es \<longrightarrow> Not_waking \<in> set (take 4 es)) \<and>
    (\<exists>e s1. v3f_main M env K lp s = Some (e, s1) \<and>
      (e = Not_waking \<longrightarrow> (\<forall>d. val (M V3F) (REG ''RCC.RSTSCKR'') d AND K ''RCC_LOCKUPRSTF'' = 0 \<longrightarrow>
        (\<exists>e' s2. v3f_main M env K lp (after_reset d s1) = Some (e', s2) \<and> e' \<in> {Woken_asleep, Woken_loop1}))))"
proof (intro conjI allI impI)
  fix es s' assume l: "crash_loop M env K lp s es s'" "4 \<le> length es"
  have "Not_waking \<in> set (take (Suc (3 - unat (faults_at_boot K (reset_cause (M V3F) s) s))) es)"
    by (rule crash_loop_stops [where K = K, OF u K l(1)]) (use l(2) in simp)
  moreover have "set (take (Suc (3 - unat (faults_at_boot K (reset_cause (M V3F) s) s))) es) \<subseteq> set (take 4 es)"
    by (rule set_take_subset_set_take) simp
  ultimately show "Not_waking \<in> set (take 4 es)" by blast
next
  obtain e s1 where r: "v3f_main M env K lp s = Some (e, s1)" "fl_magic (sy_log_v3f s1) \<noteq> FAULT_LOG_MAGIC"
    "fl_magic (sy_log s1) \<noteq> FAULT_LOG_MAGIC" "sy_trace_magic s1 = K ''CH32H4_TRACE_MAGIC''"
    "e = Not_waking \<longrightarrow> fl_boot_faults (sy_log s1) = 0"
    using v3f_main_returns [where K = K, OF u K, of lp s] by (auto simp: Let_def split: if_splits)
  have "\<exists>e' s2. v3f_main M env K lp (after_reset d s1) = Some (e', s2) \<and> e' \<in> {Woken_asleep, Woken_loop1}"
    if "e = Not_waking" "val (M V3F) (REG ''RCC.RSTSCKR'') d AND K ''RCC_LOCKUPRSTF'' = 0" for d
  proof -
    have "faults_at_boot K (reset_cause (M V3F) (after_reset d s1)) (after_reset d s1) = 0"
      using r that by (simp add: faults_at_boot_def check_records_def after_reset_def sys_hw_def reset_cause_def on_hw_def)
    then show ?thesis
      using v3f_main_returns [where K = K, OF u K, of lp "after_reset d s1"] by (auto simp: Let_def FAULT_REBOOT_LIMIT_def)
  qed
  then show "\<exists>e s1. v3f_main M env K lp s = Some (e, s1) \<and>
      (e = Not_waking \<longrightarrow> (\<forall>d. val (M V3F) (REG ''RCC.RSTSCKR'') d AND K ''RCC_LOCKUPRSTF'' = 0 \<longrightarrow>
        (\<exists>e' s2. v3f_main M env K lp (after_reset d s1) = Some (e', s2) \<and> e' \<in> {Woken_asleep, Woken_loop1})))"
    using r(1) by blast
qed

text \<open>There are such runs, of any length.\<close>

lemma crash_loop_exists:
  assumes u: "uart_ok M env V3F out" and K: "K ''_v5f_entry'' = K ''CH32_V5F_START_ADDR''"
  shows "\<exists>es s'. crash_loop M env K lp s es s' \<and> length es = n"
proof (induction n arbitrary: s)
  case 0
  then show ?case using crash_loop.Stop by fastforce
next
  case (Suc n)
  obtain e s1 where r: "v3f_main M env K lp s = Some (e, s1)" using v3f_main_returns [where K = K, OF u K, of lp s] by blast
  have "crash M K s1 (after_reset (hw (lk (sy_con s1))) (HardFault_Handler M K c s1))" for c
    by (rule crash.V5F_fault) (simp add: ran_on_def)
  then show ?case using Suc crash_loop.Boot [OF r] by (metis length_Cons)
qed

definition uart_sys :: "(bool \<times> string) sys" where
  "uart_sys = \<lparr>sy_con = quiet, sy_fifos = blank_fifos, sy_clk = SRC_HSE,
     sy_log = \<lparr>fl_magic = 0, fl_mcause = 0, fl_mepc = 0, fl_mtval = 0, fl_mstatus = 0, fl_sp = 0, fl_irq_eth = 0,
       fl_irq_systick = 0, fl_irq_usbfs = 0, fl_irq_usart1 = 0, fl_irq_max_nesting = 0, fl_boot_faults = 577168213, fl_ra = 0,
       fl_a0 = 0, fl_a1 = 0\<rparr>,
     sy_log_v3f = \<lparr>fl_magic = 0, fl_mcause = 0, fl_mepc = 0, fl_mtval = 0, fl_mstatus = 0, fl_sp = 0, fl_irq_eth = 0,
       fl_irq_systick = 0, fl_irq_usbfs = 0, fl_irq_usart1 = 0, fl_irq_max_nesting = 0, fl_boot_faults = 0, fl_ra = 0,
       fl_a0 = 0, fl_a1 = 0\<rparr>,
     sy_irq = irq_zero, sy_trace_magic = 0, sy_confirmed = False\<rparr>"

theorem crash_loop_is_broken_witness:
  "\<exists>es s'. crash_loop (\<lambda>_. uart_machine) (\<lambda>x. x) (\<lambda>_. 1024) False uart_sys es s' \<and> length es = 4 \<and> Not_waking \<in> set es"
proof -
  obtain es s' where l: "crash_loop (\<lambda>_. uart_machine) (\<lambda>x. x) (\<lambda>_. 1024) False uart_sys es s'" "length es = 4"
    using crash_loop_exists [OF uart_machine_ok refl, of "\<lambda>_. 1024" False uart_sys 4] by blast
  have "Not_waking \<in> set (take 4 es)"
    using crash_loop_is_broken [where K = "\<lambda>_. 1024", OF uart_machine_ok refl] l by force
  then show ?thesis using l by auto
qed

end
