(* ===== verification/Buses.thy ===== *)
theory Buses
  imports Rcc
begin

text \<open>
  The SPI and I2C peripherals below any library (\<^verbatim>\<open>ch32h4_spi.c\<close>, \<^verbatim>\<open>ch32h4_i2c.c\<close>) and their
  interrupt vectors (\<^verbatim>\<open>ch32h4_spi_irq.c\<close>, \<^verbatim>\<open>ch32h4_i2c_irq.c\<close>).  Handlers are values of a type
  \<open>'h\<close>, called through \<open>run\<close>.  A null pointer is \<open>None\<close>; \<open>I\<close> names the interrupt numbers.
\<close>

section \<open>A table of handlers\<close>

text \<open>
  Both dispatchers keep a handler and its context per peripheral, and store the context
  first, the handler after it; an interrupt may come between the two stores.
\<close>

locale handler_slots =
  fixes fn_at :: "'s \<Rightarrow> u8 \<Rightarrow> 'h option" and ctx_at :: "'s \<Rightarrow> u8 \<Rightarrow> u32"
    and put_fn :: "u8 \<Rightarrow> 'h option \<Rightarrow> 's \<Rightarrow> 's" and put_ctx :: "u8 \<Rightarrow> u32 \<Rightarrow> 's \<Rightarrow> 's"
    and slot_id :: "u8 \<Rightarrow> bool" and slots_ok :: "'s \<Rightarrow> bool"
  assumes fn_put_fn: "slots_ok s \<Longrightarrow> slot_id i \<Longrightarrow> slot_id j \<Longrightarrow> fn_at (put_fn i f s) j = (if j = i then f else fn_at s j)"
    and ctx_put_fn: "slots_ok s \<Longrightarrow> slot_id i \<Longrightarrow> slot_id j \<Longrightarrow> ctx_at (put_fn i f s) j = ctx_at s j"
    and fn_put_ctx: "slots_ok s \<Longrightarrow> slot_id i \<Longrightarrow> slot_id j \<Longrightarrow> fn_at (put_ctx i c s) j = fn_at s j"
    and ctx_put_ctx: "slots_ok s \<Longrightarrow> slot_id i \<Longrightarrow> slot_id j \<Longrightarrow> ctx_at (put_ctx i c s) j = (if j = i then c else ctx_at s j)"
    and put_ok: "slots_ok s \<Longrightarrow> slots_ok (put_fn i f s) \<and> slots_ok (put_ctx i c s)"
begin

text \<open>What an interrupt of slot \<open>i\<close> would call.\<close>

definition callee :: "'s \<Rightarrow> u8 \<Rightarrow> ('h \<times> u32) option" where
  "callee s i = map_option (\<lambda>f. (f, ctx_at s i)) (fn_at s i)"

definition attaching :: "u8 \<Rightarrow> 'h \<Rightarrow> u32 \<Rightarrow> 's \<Rightarrow> 's list" where
  "attaching i f c s = [s, put_ctx i c s, put_fn i (Some f) (put_ctx i c s)]"

text \<open>The new handler never runs with another context, and other slots never change.\<close>

lemma attach_never_mixes:
  assumes "slots_ok s" "slot_id i" "slot_id j" "s' \<in> set (attaching i f c s)"
  shows "j \<noteq> i \<Longrightarrow> callee s' j = callee s j"
    "fn_at s i = None \<Longrightarrow> callee s' i \<in> {None, Some (f, c)}"
    "callee s' i = Some (g, x) \<Longrightarrow> (g, x) = (f, c) \<or> fn_at s i = Some g \<and> x \<in> {ctx_at s i, c}"
  using assms put_ok [OF assms(1), of i None c]
  by (auto simp: attaching_def callee_def fn_put_fn ctx_put_fn fn_put_ctx ctx_put_ctx)

text \<open>While a handler is being replaced, the old one can run with the new context.\<close>

lemma attach_window:
  assumes "slots_ok s" "slot_id i" "fn_at s i = Some g"
  shows "\<exists>s' \<in> set (attaching i f c s). callee s' i = Some (g, c)"
  using assms by (auto simp: attaching_def callee_def fn_put_ctx ctx_put_ctx)

lemma detach_silences: "slots_ok s \<Longrightarrow> slot_id i \<Longrightarrow> callee (put_fn i None s) i = None"
  by (simp add: callee_def fn_put_fn)

end

section \<open>SPI\<close>

definition SPI_COUNT :: u8 where "SPI_COUNT = 4"

definition spi_regs :: "u8 \<Rightarrow> string option" where
  "spi_regs i = (if i = 1 then Some ''SPI1'' else if i = 2 then Some ''SPI2'' else if i = 3 then Some ''SPI3''
     else if i = 4 then Some ''SPI4'' else None)"

definition spi_bus :: "(string \<Rightarrow> u32) \<Rightarrow> u8 \<Rightarrow> (bus \<times> u32) option" where
  "spi_bus K i = (if i = 1 then Some (HB2, K ''RCC_HB2Periph_SPI1'')
     else if 2 \<le> i \<and> i \<le> SPI_COUNT
     then Some (HB1, [K ''RCC_HB1Periph_SPI2'', K ''RCC_HB1Periph_SPI3'', K ''RCC_HB1Periph_SPI4''] ! unat (i - 2))
     else None)"

definition spi_clock_enable :: "'d machine \<Rightarrow> (string \<Rightarrow> u32) \<Rightarrow> u8 \<Rightarrow> 'd \<Rightarrow> 'd" where
  "spi_clock_enable M K i d = (case spi_bus K i of Some (b, x) \<Rightarrow> clock_enable M b x d | None \<Rightarrow> d)"

definition spi_reset :: "'d machine \<Rightarrow> (string \<Rightarrow> u32) \<Rightarrow> u8 \<Rightarrow> u32 \<times> 'd \<Rightarrow> u32 \<times> 'd" where
  "spi_reset M K i s = (case spi_bus K i of Some (b, x) \<Rightarrow> snd (block_reset M K b x s) | None \<Rightarrow> s)"

definition spi_irqn :: "(string \<Rightarrow> int) \<Rightarrow> u8 \<Rightarrow> int" where
  "spi_irqn I i = (if i = 1 then I ''SPI1_IRQn'' else if i = 2 then I ''SPI2_IRQn'' else if i = 3 then I ''SPI3_IRQn''
     else if i = 4 then I ''SPI4_IRQn'' else 0)"

record 'h spi_slots =
  spi_fn :: "'h option list"
  spi_ctx :: "u32 list"

definition spi_slots_init :: "'h spi_slots" where
  "spi_slots_init = \<lparr>spi_fn = replicate 5 None, spi_ctx = replicate 5 0\<rparr>"

definition spi_valid :: "u8 \<Rightarrow> bool" where
  "spi_valid i \<longleftrightarrow> i \<ge> 1 \<and> i \<le> SPI_COUNT"

definition spi_put_fn :: "u8 \<Rightarrow> 'h option \<Rightarrow> 'h spi_slots \<Rightarrow> 'h spi_slots" where
  "spi_put_fn i f s = s\<lparr>spi_fn := (spi_fn s)[unat i := f]\<rparr>"

definition spi_put_ctx :: "u8 \<Rightarrow> u32 \<Rightarrow> 'h spi_slots \<Rightarrow> 'h spi_slots" where
  "spi_put_ctx i c s = s\<lparr>spi_ctx := (spi_ctx s)[unat i := c]\<rparr>"

definition spi_attach_irq :: "u8 \<Rightarrow> 'h option \<Rightarrow> u32 \<Rightarrow> 'h spi_slots \<Rightarrow> 'h spi_slots" where
  "spi_attach_irq i f c s = (if spi_valid i then spi_put_fn i f (spi_put_ctx i c s) else s)"

definition spi_detach_irq :: "'d machine \<Rightarrow> u8 \<Rightarrow> 'h spi_slots \<times> 'd \<Rightarrow> 'h spi_slots \<times> 'd" where
  "spi_detach_irq M i x = (case x of (s, d) \<Rightarrow>
     if \<not> spi_valid i then (s, d)
     else (spi_put_fn i None s, case spi_regs i of
       Some dev \<Rightarrow> do_all
         [m_call M (Call ''SPI_I2S_ITConfig'' [Sym dev, Sym ''SPI_I2S_IT_TXE'', Sym ''DISABLE'']),
          m_call M (Call ''SPI_I2S_ITConfig'' [Sym dev, Sym ''SPI_I2S_IT_RXNE'', Sym ''DISABLE'']),
          m_call M (Call ''SPI_I2S_ITConfig'' [Sym dev, Sym ''SPI_I2S_IT_ERR'', Sym ''DISABLE''])] d
     | None \<Rightarrow> d))"

definition spi_dispatch ::
  "'d machine \<Rightarrow> ('h \<Rightarrow> u8 \<Rightarrow> u32 \<Rightarrow> 'h spi_slots \<times> 'd \<Rightarrow> 'h spi_slots \<times> 'd) \<Rightarrow> u8 \<Rightarrow> 'h spi_slots \<times> 'd \<Rightarrow> 'h spi_slots \<times> 'd" where
  "spi_dispatch M run i x = (case spi_fn (fst x) ! unat i of
     Some f \<Rightarrow> run f i (spi_ctx (fst x) ! unat i) x
   | None \<Rightarrow> spi_detach_irq M i x)"

definition SPI1_IRQHandler where "SPI1_IRQHandler M run = spi_dispatch M run 1"
definition SPI2_IRQHandler where "SPI2_IRQHandler M run = spi_dispatch M run 2"
definition SPI3_IRQHandler where "SPI3_IRQHandler M run = spi_dispatch M run 3"
definition SPI4_IRQHandler where "SPI4_IRQHandler M run = spi_dispatch M run 4"

lemma spi_valid_iff: "spi_valid i \<longleftrightarrow> 1 \<le> unat i \<and> unat i \<le> 4"
  by (simp add: spi_valid_def SPI_COUNT_def word_le_nat_alt)

interpretation spi: handler_slots "\<lambda>s i. spi_fn s ! unat i" "\<lambda>s i. spi_ctx s ! unat i" spi_put_fn spi_put_ctx spi_valid
    "\<lambda>s. size (spi_fn s) = 5 \<and> size (spi_ctx s) = 5"
  by unfold_locales (auto simp: spi_put_fn_def spi_put_ctx_def spi_valid_iff nth_list_update word_unat_eq_iff)

text \<open>Every valid peripheral has registers and a bus; SPI1 alone is on HB2.\<close>

lemma spi_served:
  "spi_valid i \<longleftrightarrow> spi_regs i \<noteq> None" "spi_valid i \<longleftrightarrow> spi_bus K i \<noteq> None" "spi_bus K i = Some (HB2, x) \<Longrightarrow> i = 1"
proof -
  have "spi_valid i \<longleftrightarrow> i \<in> {1, 2, 3, 4}"
    unfolding spi_valid_iff by (auto simp: word_unat_eq_iff)
  then show "spi_valid i \<longleftrightarrow> spi_regs i \<noteq> None" "spi_valid i \<longleftrightarrow> spi_bus K i \<noteq> None" "spi_bus K i = Some (HB2, x) \<Longrightarrow> i = 1"
    by (auto simp: spi_regs_def spi_bus_def spi_valid_iff SPI_COUNT_def word_le_nat_alt word_unat_eq_iff split: if_splits)
qed

text \<open>An interrupt nobody handles masks its sources instead of coming straight back.\<close>

lemma spi_unowned_masked:
  assumes "spi_valid i" "spi_fn s ! unat i = None"
  shows "\<exists>dev. spi_regs i = Some dev \<and> snd (spi_dispatch M run i (s, d)) =
    do_all (map (\<lambda>n. m_call M (Call ''SPI_I2S_ITConfig'' [Sym dev, Sym n, Sym ''DISABLE'']))
      [''SPI_I2S_IT_TXE'', ''SPI_I2S_IT_RXNE'', ''SPI_I2S_IT_ERR'']) d"
  using assms spi_served(1) [of i] by (auto simp: spi_dispatch_def spi_detach_irq_def)

section \<open>I2C\<close>

definition I2C_COUNT :: u8 where "I2C_COUNT = 4"

definition i2c_regs :: "u8 \<Rightarrow> string option" where
  "i2c_regs i = (if i = 1 then Some ''I2C1'' else if i = 2 then Some ''I2C2'' else if i = 3 then Some ''I2C3''
     else if i = 4 then Some ''I2C4'' else None)"

definition i2c_bus :: "(string \<Rightarrow> u32) \<Rightarrow> u8 \<Rightarrow> (bus \<times> u32) option" where
  "i2c_bus K i = (if i = 4 then Some (HB2, K ''RCC_HB2Periph_I2C4'')
     else if 1 \<le> i \<and> i \<le> 3
     then Some (HB1, [K ''RCC_HB1Periph_I2C1'', K ''RCC_HB1Periph_I2C2'', K ''RCC_HB1Periph_I2C3''] ! unat (i - 1))
     else None)"

definition i2c_clock_enable :: "'d machine \<Rightarrow> (string \<Rightarrow> u32) \<Rightarrow> u8 \<Rightarrow> 'd \<Rightarrow> 'd" where
  "i2c_clock_enable M K i d = (case i2c_bus K i of Some (b, x) \<Rightarrow> clock_enable M b x d | None \<Rightarrow> d)"

definition i2c_reset :: "'d machine \<Rightarrow> (string \<Rightarrow> u32) \<Rightarrow> u8 \<Rightarrow> u32 \<times> 'd \<Rightarrow> u32 \<times> 'd" where
  "i2c_reset M K i s = (case i2c_bus K i of Some (b, x) \<Rightarrow> snd (block_reset M K b x s) | None \<Rightarrow> s)"

definition i2c_ev_irqn :: "(string \<Rightarrow> int) \<Rightarrow> u8 \<Rightarrow> int" where
  "i2c_ev_irqn I i = (if i = 1 then I ''I2C1_EV_IRQn'' else if i = 2 then I ''I2C2_EV_IRQn'' else if i = 3 then I ''I2C3_EV_IRQn''
     else if i = 4 then I ''I2C4_EV_IRQn'' else 0)"

definition i2c_er_irqn :: "(string \<Rightarrow> int) \<Rightarrow> u8 \<Rightarrow> int" where
  "i2c_er_irqn I i = (if i = 1 then I ''I2C1_ER_IRQn'' else if i = 2 then I ''I2C2_ER_IRQn'' else if i = 3 then I ''I2C3_ER_IRQn''
     else if i = 4 then I ''I2C4_ER_IRQn'' else 0)"

record 'h i2c_slots =
  i2c_fn :: "'h option list"
  i2c_ctx :: "u32 list"

definition i2c_slots_init :: "'h i2c_slots" where
  "i2c_slots_init = \<lparr>i2c_fn = replicate 5 None, i2c_ctx = replicate 5 0\<rparr>"

definition i2c_valid :: "u8 \<Rightarrow> bool" where
  "i2c_valid i \<longleftrightarrow> i \<ge> 1 \<and> i \<le> I2C_COUNT"

definition i2c_put_fn :: "u8 \<Rightarrow> 'h option \<Rightarrow> 'h i2c_slots \<Rightarrow> 'h i2c_slots" where
  "i2c_put_fn i f s = s\<lparr>i2c_fn := (i2c_fn s)[unat i := f]\<rparr>"

definition i2c_put_ctx :: "u8 \<Rightarrow> u32 \<Rightarrow> 'h i2c_slots \<Rightarrow> 'h i2c_slots" where
  "i2c_put_ctx i c s = s\<lparr>i2c_ctx := (i2c_ctx s)[unat i := c]\<rparr>"

definition i2c_attach_irq :: "u8 \<Rightarrow> 'h option \<Rightarrow> u32 \<Rightarrow> 'h i2c_slots \<Rightarrow> 'h i2c_slots" where
  "i2c_attach_irq i f c s = (if i2c_valid i then i2c_put_fn i f (i2c_put_ctx i c s) else s)"

definition i2c_detach_irq :: "'d machine \<Rightarrow> (string \<Rightarrow> u32) \<Rightarrow> u8 \<Rightarrow> 'h i2c_slots \<times> 'd \<Rightarrow> 'h i2c_slots \<times> 'd" where
  "i2c_detach_irq M K i x = (case x of (s, d) \<Rightarrow>
     if \<not> i2c_valid i then (s, d)
     else (i2c_put_fn i None s, case i2c_regs i of
       Some dev \<Rightarrow> m_call M (Call ''I2C_ITConfig'' [Sym dev, Num (K ''I2C_IT_EVT'' OR K ''I2C_IT_BUF'' OR K ''I2C_IT_ERR''), Sym ''DISABLE'']) d
     | None \<Rightarrow> d))"

definition i2c_dispatch ::
  "'d machine \<Rightarrow> (string \<Rightarrow> u32) \<Rightarrow> ('h \<Rightarrow> u8 \<Rightarrow> bool \<Rightarrow> u32 \<Rightarrow> 'h i2c_slots \<times> 'd \<Rightarrow> 'h i2c_slots \<times> 'd) \<Rightarrow> u8 \<Rightarrow> bool \<Rightarrow>
   'h i2c_slots \<times> 'd \<Rightarrow> 'h i2c_slots \<times> 'd" where
  "i2c_dispatch M K run i error x = (case i2c_fn (fst x) ! unat i of
     Some f \<Rightarrow> run f i error (i2c_ctx (fst x) ! unat i) x
   | None \<Rightarrow> i2c_detach_irq M K i x)"

definition I2C1_EV_IRQHandler where "I2C1_EV_IRQHandler M K run = i2c_dispatch M K run 1 False"
definition I2C1_ER_IRQHandler where "I2C1_ER_IRQHandler M K run = i2c_dispatch M K run 1 True"
definition I2C2_EV_IRQHandler where "I2C2_EV_IRQHandler M K run = i2c_dispatch M K run 2 False"
definition I2C2_ER_IRQHandler where "I2C2_ER_IRQHandler M K run = i2c_dispatch M K run 2 True"
definition I2C3_EV_IRQHandler where "I2C3_EV_IRQHandler M K run = i2c_dispatch M K run 3 False"
definition I2C3_ER_IRQHandler where "I2C3_ER_IRQHandler M K run = i2c_dispatch M K run 3 True"
definition I2C4_EV_IRQHandler where "I2C4_EV_IRQHandler M K run = i2c_dispatch M K run 4 False"
definition I2C4_ER_IRQHandler where "I2C4_ER_IRQHandler M K run = i2c_dispatch M K run 4 True"

lemma i2c_valid_iff: "i2c_valid i \<longleftrightarrow> 1 \<le> unat i \<and> unat i \<le> 4"
  by (simp add: i2c_valid_def I2C_COUNT_def word_le_nat_alt)

interpretation i2c: handler_slots "\<lambda>s i. i2c_fn s ! unat i" "\<lambda>s i. i2c_ctx s ! unat i" i2c_put_fn i2c_put_ctx i2c_valid
    "\<lambda>s. size (i2c_fn s) = 5 \<and> size (i2c_ctx s) = 5"
  by unfold_locales (auto simp: i2c_put_fn_def i2c_put_ctx_def i2c_valid_iff nth_list_update word_unat_eq_iff)

lemma i2c_served:
  "i2c_valid i \<longleftrightarrow> i2c_regs i \<noteq> None" "i2c_valid i \<longleftrightarrow> i2c_bus K i \<noteq> None" "i2c_bus K i = Some (HB2, x) \<Longrightarrow> i = 4"
proof -
  have "i2c_valid i \<longleftrightarrow> i \<in> {1, 2, 3, 4}"
    unfolding i2c_valid_iff by (auto simp: word_unat_eq_iff)
  then show "i2c_valid i \<longleftrightarrow> i2c_regs i \<noteq> None" "i2c_valid i \<longleftrightarrow> i2c_bus K i \<noteq> None" "i2c_bus K i = Some (HB2, x) \<Longrightarrow> i = 4"
    by (auto simp: i2c_regs_def i2c_bus_def i2c_valid_iff I2C_COUNT_def word_le_nat_alt word_unat_eq_iff split: if_splits)
qed

lemma i2c_unowned_masked:
  assumes "i2c_valid i" "i2c_fn s ! unat i = None"
  shows "\<exists>dev. i2c_regs i = Some dev \<and> snd (i2c_dispatch M K run i error (s, d)) =
    m_call M (Call ''I2C_ITConfig'' [Sym dev, Num (K ''I2C_IT_EVT'' OR K ''I2C_IT_BUF'' OR K ''I2C_IT_ERR''), Sym ''DISABLE'']) d"
  using assms i2c_served(1) [of i] by (auto simp: i2c_dispatch_def i2c_detach_irq_def)

end
