(* ===== verification/Usb.thy ===== *)
theory Usb
  imports Timing
begin

text \<open>
  The USB device port (\<^verbatim>\<open>ch32h4_usb.c\<close>): bringing the controller up, and the guard that keeps
  TinyUSB's task, which both the interrupt and the sketch's loop call, from being entered
  twice.  TinyUSB is outside the repository: its calls are the machine's.
\<close>

section \<open>Bring-up\<close>

record usb =
  s_usb_up :: bool
  s_in_task :: bool

definition usb_zero :: usb where
  "usb_zero = \<lparr>s_usb_up = False, s_in_task = False\<rparr>"

definition usb_active :: "usb \<Rightarrow> bool" where
  "usb_active u = s_usb_up u"

text \<open>\<open>for (i = 0; i < n; i++) if (cond) { locked = true; break; }\<close>\<close>

definition usb_pll_ready :: "'d machine \<Rightarrow> (string \<Rightarrow> u32) \<Rightarrow> 'd \<Rightarrow> bool \<times> 'd" where
  "usb_pll_ready M K d = (case m_rd M (REG ''RCC.CTLR'') d of (v, d) \<Rightarrow> (v AND K ''RCC_USBHS_PLLRDY'' \<noteq> 0, d))"

definition usb_init :: "'d machine \<Rightarrow> (string \<Rightarrow> u32) \<Rightarrow> clock_src \<Rightarrow> usb \<times> 'd \<Rightarrow> bool \<times> usb \<times> 'd" where
  "usb_init M K src x = (case x of (u, d) \<Rightarrow>
     if s_usb_up u then (True, u, d)
     else (let d = do_all (map (\<lambda>i. m_wr M (MEM8 (K ''_susbram'' + word_of_nat i)) 0) [0..<unat (K ''_eusbram'' - K ''_susbram'')]) d in
       if src \<noteq> SRC_HSE then (False, u, d)
       else (case guarded (usb_pll_ready M K) 2000000 (do_all
               [m_call M (Call ''RCC_USBHSPLLCLKConfig'' [Sym ''RCC_USBHSPLLSource_HSE'']),
                m_call M (Call ''RCC_USBHSPLLReferConfig'' [Sym ''RCC_USBHSPLLRefer_25M'']),
                m_call M (Call ''RCC_USBHS_PLLCmd'' [Sym ''ENABLE''])] d) of
         (locked, d) \<Rightarrow>
           if \<not> locked then (False, u, d)
           else (True, u\<lparr>s_usb_up := True\<rparr>, do_all
             [m_call M (Call ''RCC_USBFSCLKConfig'' [Sym ''RCC_USBFSCLKSource_USBHSPLL'']),
              m_call M (Call ''RCC_USBFS48ClockSourceDivConfig'' [Sym ''RCC_USBFS_Div10'']),
              m_call M (Call ''RCC_HB2PeriphClockCmd'' [Num (K ''RCC_HB2Periph_GPIOA'' OR K ''RCC_HB2Periph_AFIO''), Sym ''ENABLE'']),
              m_touch M (REG ''RCC.HB2PCENR''),
              m_call M (Call ''GPIO_Init'' [Sym ''GPIOA'', Num (K ''GPIO_Pin_11'' OR K ''GPIO_Pin_12''), Sym ''GPIO_Mode_AF_PP'',
                Sym ''GPIO_Speed_Very_High'']),
              m_call M (Call ''RCC_HBPeriphClockCmd'' [Sym ''RCC_HBPeriph_OTG_FS'', Sym ''ENABLE'']),
              m_touch M (REG ''RCC.HBPCENR''),
              m_call M (Call ''tusb_init'' [Num 0]),
              m_call M (Call ''NVIC_EnableIRQ'' [Sym ''USBFS_IRQn''])] d))))"

section \<open>The task guard\<close>

text \<open>
  \<open>csrrci\<close> reads \<open>mstatus\<close> and clears the interrupt enable in one instruction; the enable is
  set again only if it was set before.
\<close>

definition usb_lock :: "'d machine \<Rightarrow> usb \<times> 'd \<Rightarrow> bool \<times> usb \<times> 'd" where
  "usb_lock M x = (case x of (u, d) \<Rightarrow>
     if \<not> s_usb_up u then (False, u, d)
     else (case m_rd M MSTATUS d of (prev, d) \<Rightarrow>
       (let d = m_wr M MSTATUS (prev AND NOT 8) d; got = \<not> s_in_task u;
            u = (if got then u\<lparr>s_in_task := True\<rparr> else u)
        in (got, u, if prev AND 8 \<noteq> 0 then m_or M MSTATUS 8 d else d))))"

definition usb_unlock :: "usb \<Rightarrow> usb" where
  "usb_unlock u = u\<lparr>s_in_task := False\<rparr>"

text \<open>\<open>task\<close> is TinyUSB's \<open>tud_task\<close> with whatever runs inside it.\<close>

definition usb_task :: "'d machine \<Rightarrow> (usb \<times> 'd \<Rightarrow> usb \<times> 'd) \<Rightarrow> usb \<times> 'd \<Rightarrow> usb \<times> 'd" where
  "usb_task M task x = (case usb_lock M x of (got, x) \<Rightarrow>
     if \<not> got then x else (case task x of (u, d) \<Rightarrow> (usb_unlock u, d)))"

definition USBFS_IRQHandler :: "'d machine \<Rightarrow> (usb \<times> 'd \<Rightarrow> usb \<times> 'd) \<Rightarrow> irq_trace \<times> usb \<times> 'd \<Rightarrow> irq_trace \<times> usb \<times> 'd" where
  "USBFS_IRQHandler M task x = (case x of (q, u, d) \<Rightarrow>
     (let q = irq_enter Irq_usbfs q; d = m_call M (Call ''tud_int_handler'' [Num 0]) d in
      case usb_lock M (u, d) of (got, u, d) \<Rightarrow>
        (if got then (case task (u, d) of (u, d) \<Rightarrow> (irq_exit q, usb_unlock u, d)) else (irq_exit q, u, d))))"

section \<open>The serial number\<close>

definition usb_hex :: "u8 \<Rightarrow> char" where
  "usb_hex n = ''0123456789ABCDEF'' ! unat n"

definition usb_serial_number :: "'d machine \<Rightarrow> 'd \<Rightarrow> string \<times> 'd" where
  "usb_serial_number M d = fold (\<lambda>i (buf, d).
     case m_rd M (MEM8 (0x1FFFF7E8 + word_of_nat i)) d of (hi, d) \<Rightarrow>
     case m_rd M (MEM8 (0x1FFFF7E8 + word_of_nat i)) d of (lo, d) \<Rightarrow>
       (buf @ [usb_hex (drop_bit 4 (ucast hi)), usb_hex (ucast lo AND 0xF)], d)) [0..<12] ([], d)"

text \<open>The string ends where its buffer's 25th byte, the zero, is.\<close>

lemma usb_serial_length: "length (fst (usb_serial_number M d)) = 24"
proof -
  have "length (fst (fold (\<lambda>i (buf, d).
     case m_rd M (MEM8 (0x1FFFF7E8 + word_of_nat i)) d of (hi, d) \<Rightarrow>
     case m_rd M (MEM8 (0x1FFFF7E8 + word_of_nat i)) d of (lo, d) \<Rightarrow>
       (buf @ [usb_hex (drop_bit 4 (ucast hi)), usb_hex (ucast lo AND 0xF)], d)) js (buf, d))) = length buf + 2 * length js" for js buf d
    by (induction js arbitrary: buf d) (simp_all split: prod.split)
  from this [of "[0..<12]" "[]"] show ?thesis by (simp add: usb_serial_number_def)
qed

section \<open>The task never runs inside itself\<close>

text \<open>
  The runs of one core's calls: the sketch and the interrupt enter the task through the
  guard, at any depth; \<open>Inside\<close> marks the task running.  An interrupt may come between any
  two steps of the sketch, but not inside the test-and-set, which has interrupts off.
\<close>

record usb_run =
  ur_flag :: bool
  ur_thread :: bool
  ur_irq :: "bool option"

text \<open>\<open>ur_irq\<close>: an interrupt is being served, and whether it got the lock.\<close>

inductive usb_move :: "'d machine \<Rightarrow> usb_run \<Rightarrow> usb_run \<Rightarrow> bool" for M where
  Thread_enters: "ur_irq r = None \<Longrightarrow> \<not> ur_thread r \<Longrightarrow> usb_lock M (\<lparr>s_usb_up = True, s_in_task = ur_flag r\<rparr>, d) = (got, u, d') \<Longrightarrow>
    usb_move M r (r\<lparr>ur_flag := s_in_task u, ur_thread := got\<rparr>)"
| Thread_leaves: "ur_irq r = None \<Longrightarrow> ur_thread r \<Longrightarrow>
    usb_move M r (r\<lparr>ur_flag := s_in_task (usb_unlock \<lparr>s_usb_up = True, s_in_task = ur_flag r\<rparr>), ur_thread := False\<rparr>)"
| Irq_enters: "ur_irq r = None \<Longrightarrow> usb_lock M (\<lparr>s_usb_up = True, s_in_task = ur_flag r\<rparr>, d) = (got, u, d') \<Longrightarrow>
    usb_move M r (r\<lparr>ur_flag := s_in_task u, ur_irq := Some got\<rparr>)"
| Irq_leaves: "ur_irq r = Some got \<Longrightarrow>
    usb_move M r (r\<lparr>ur_flag := (if got then s_in_task (usb_unlock \<lparr>s_usb_up = True, s_in_task = ur_flag r\<rparr>) else ur_flag r), ur_irq := None\<rparr>)"

lemma usb_lock_got:
  "usb_lock M (\<lparr>s_usb_up = True, s_in_task = b\<rparr>, d) = (got, u, d') \<Longrightarrow> got = (\<not> b) \<and> s_in_task u"
  by (auto simp: usb_lock_def Let_def split: prod.splits if_splits)

lemma usb_lock_exclusive:
  assumes "(usb_move M)\<^sup>*\<^sup>* \<lparr>ur_flag = False, ur_thread = False, ur_irq = None\<rparr> r"
  shows "\<not> (ur_thread r \<and> ur_irq r = Some True)" "ur_flag r \<longleftrightarrow> ur_thread r \<or> ur_irq r = Some True"
proof -
  have "\<not> (ur_thread r \<and> ur_irq r = Some True) \<and> (ur_flag r \<longleftrightarrow> ur_thread r \<or> ur_irq r = Some True)"
    using assms
  proof (induction rule: rtranclp_induct)
    case (step r r')
    from step.hyps(2) show ?case
      using step.IH by cases (auto simp: usb_unlock_def dest!: usb_lock_got)
  qed simp
  then show "\<not> (ur_thread r \<and> ur_irq r = Some True)" "ur_flag r \<longleftrightarrow> ur_thread r \<or> ur_irq r = Some True" by blast+
qed

text \<open>The guard leaves the interrupt enable as it found it.\<close>

lemma usb_lock_restores:
  assumes "stable M MSTATUS" "usb_lock M (u, d) = (got, u', d')"
  shows "val M MSTATUS d' AND 8 = val M MSTATUS d AND 8"
proof (cases "s_usb_up u")
  case True
  obtain p d1 where p: "m_rd M MSTATUS d = (p, d1)" by force
  have v: "val M MSTATUS d = p" using p by (simp add: val_def)
  let ?d2 = "m_wr M MSTATUS (p AND NOT 8) d1"
  have e: "bit (8 :: u32) i \<longleftrightarrow> i = 3" for i using bit_pow_u32 [of 3 i] by simp
  have b: "(p AND 8) = 0 \<or> (p AND 8) = 8"
  proof (cases "bit p 3")
    case True
    have "p AND 8 = 8" by (rule bit_eqI) (use True in \<open>simp only: bit_and_iff e, blast\<close>)
    then show ?thesis ..
  next
    case False
    have "p AND 8 = 0" by (rule bit_eqI) (use False in \<open>simp only: bit_and_iff e bit_0_eq bot_fun_def bot_bool_def, blast\<close>)
    then show ?thesis ..
  qed
  have "d' = (if p AND 8 \<noteq> 0 then m_or M MSTATUS 8 ?d2 else ?d2)"
    using assms(2) True p by (auto simp: usb_lock_def Let_def split: if_splits)
  moreover have "(x AND NOT y OR y) AND y = y" "(x AND NOT y) AND y = 0" for x y :: u32
    by (auto simp: bit_eq_iff bit_and_iff bit_or_iff bit_not_iff)
  then have "(p AND NOT 8 OR 8) AND 8 = (8 :: u32)" "(p AND NOT 8) AND 8 = (0 :: u32)" by blast+
  ultimately show ?thesis
    using b assms(1) by (auto simp: v stable_or_same stable_wr_same)
next
  case False
  then show ?thesis using assms(2) by (simp add: usb_lock_def)
qed

end
