(* ===== verification/Eth.thy ===== *)
theory Eth
  imports Timing Console
begin

text \<open>
  The Ethernet MAC driver (\<^verbatim>\<open>libraries/lwIP_Ethernet/src/ch32h4_eth.c\<close>): bring-up, link
  changes, the receive and transmit descriptor rings, the interrupt and the multicast
  filter.  The descriptors, the frame buffers, the network interface's structure and the two
  flags the interrupt sets are words of the machine, since the DMA, lwIP and the interrupt
  write them.  \<open>S\<close> is lwIP: a call's value and what it does to the driver's state, which it
  may re-enter.  \<open>K\<close> names the vendor's, the linker's and lwIP's constants.
\<close>

section \<open>State\<close>

definition ETH_RX_DESC_NUM :: nat where "ETH_RX_DESC_NUM = 12"
definition ETH_TX_DESC_NUM :: nat where "ETH_TX_DESC_NUM = 4"

definition PHY_ADDRESS :: u32 where "PHY_ADDRESS = 1"
definition PHY_PAGE_0 :: arg where "PHY_PAGE_0 = Num 0"
definition PHY_PAGE_7 :: arg where "PHY_PAGE_7 = Num 7"
definition PHY_STATUS_REG :: arg where "PHY_STATUS_REG = Num 0x1a"
definition PHY_STATUS_100M :: u16 where "PHY_STATUS_100M = push_bit 3 1"
definition PHY_STATUS_FULLDUP :: u16 where "PHY_STATUS_FULLDUP = push_bit 1 1"
definition PHY_INTMASK_LINK_IE :: u16 where "PHY_INTMASK_LINK_IE = push_bit 13 1"
definition PHY_INTMASK_LED_ON :: u16 where "PHY_INTMASK_LED_ON = push_bit 9 1"
definition MACPHYCR_PHY_POWERDOWN :: u32 where "MACPHYCR_PHY_POWERDOWN = push_bit 30 1"
definition MACPHYCR_PHY_RESET_N :: u32 where "MACPHYCR_PHY_RESET_N = push_bit 31 1"
definition RCC_CTLR_ETH_PLLON :: u32 where "RCC_CTLR_ETH_PLLON = push_bit 26 1"
definition RCC_CTLR_ETH_PLLRDY :: u32 where "RCC_CTLR_ETH_PLLRDY = push_bit 27 1"
definition RCC_HBPCENR_ETHMACEN :: u32 where "RCC_HBPCENR_ETHMACEN = push_bit 14 1"
definition ROM_CFG_USERADR_ID :: u32 where "ROM_CFG_USERADR_ID = 0x1ffff7e8"

definition RX_PENDING :: reg where "RX_PENDING = REG ''eth_instance.rx_pending''"
definition LINK_EVENT :: reg where "LINK_EVENT = REG ''eth_instance.link_event''"
definition NETIF_INPUT :: reg where "NETIF_INPUT = REG ''netif.input''"
definition NETIF_FLAGS :: reg where "NETIF_FLAGS = REG ''netif.flags''"
definition NETIF_IP :: reg where "NETIF_IP = REG ''netif.ip_addr''"

definition HWADDR :: "nat \<Rightarrow> reg" where
  "HWADDR i = REG ([''netif.hwaddr[0]'', ''netif.hwaddr[1]'', ''netif.hwaddr[2]'', ''netif.hwaddr[3]'', ''netif.hwaddr[4]'',
     ''netif.hwaddr[5]''] ! i)"

record eth_stats =
  rx_frames :: u32
  tx_frames :: u32
  rx_dropped :: u32
  rx_buf_unavail :: u32
  tx_errors :: u32
  link_changes :: u32

definition eth_stats_zero :: eth_stats where
  "eth_stats_zero = \<lparr>rx_frames = 0, tx_frames = 0, rx_dropped = 0, rx_buf_unavail = 0, tx_errors = 0, link_changes = 0\<rparr>"

record 'd eth =
  e_hw :: 'd
  e_active :: bool
  e_link_up :: bool
  e_stats :: eth_stats
  eth_rx_cur :: u32
  eth_tx_cur :: u32
  eth_lock_depth :: u32
  e_in_rx :: bool
  next_check_ms :: u32
  s_hash_count :: "u8 list"

datatype err = ERR_OK | ERR_IF | ERR_BUF | ERR_ARG

type_synonym 'd stack = "sdk \<Rightarrow> 'd eth \<Rightarrow> u32 \<times> 'd eth"

definition eth_do :: "('d \<Rightarrow> 'd) \<Rightarrow> 'd eth \<Rightarrow> 'd eth" where
  "eth_do f e = e\<lparr>e_hw := f (e_hw e)\<rparr>"

definition eth_rd :: "'d machine \<Rightarrow> reg \<Rightarrow> 'd eth \<Rightarrow> u32 \<times> 'd eth" where
  "eth_rd M r e = (case m_rd M r (e_hw e) of (v, d) \<Rightarrow> (v, e\<lparr>e_hw := d\<rparr>))"

text \<open>A call into lwIP whose value is not used.\<close>

definition lwip :: "'d stack \<Rightarrow> string \<Rightarrow> arg list \<Rightarrow> 'd eth \<Rightarrow> 'd eth" where
  "lwip S f xs e = snd (S (Call f xs) e)"

definition stat_up :: "((u32 \<Rightarrow> u32) \<Rightarrow> eth_stats \<Rightarrow> eth_stats) \<Rightarrow> 'd eth \<Rightarrow> 'd eth" where
  "stat_up f e = e\<lparr>e_stats := f (\<lambda>n. n + 1) (e_stats e)\<rparr>"

section \<open>The lock and the PHY\<close>

definition eth_lwip_lock :: "'d machine \<Rightarrow> 'd eth \<Rightarrow> 'd eth" where
  "eth_lwip_lock M e =
     (let e1 = e\<lparr>eth_lock_depth := eth_lock_depth e + 1\<rparr>
      in if eth_lock_depth e = 0 then eth_do (m_call M (Call ''NVIC_DisableIRQ'' [Sym ''ETH_IRQn''])) e1 else e1)"

definition eth_lwip_unlock :: "'d machine \<Rightarrow> 'd eth \<Rightarrow> 'd eth" where
  "eth_lwip_unlock M e =
     (if eth_lock_depth e > 0
      then (let e1 = e\<lparr>eth_lock_depth := eth_lock_depth e - 1\<rparr>
            in if eth_lock_depth e1 = 0 then eth_do (m_call M (Call ''NVIC_EnableIRQ'' [Sym ''ETH_IRQn''])) e1 else e1)
      else e)"

definition eth_phy_read :: "'d machine \<Rightarrow> arg \<Rightarrow> 'd \<Rightarrow> u16 \<times> 'd" where
  "eth_phy_read M r d = (case m_ask M (Call ''ETH_ReadPHYRegister'' [Num PHY_ADDRESS, r]) d of (v, d) \<Rightarrow> (ucast v, d))"

definition eth_phy_write :: "'d machine \<Rightarrow> arg \<Rightarrow> arg \<Rightarrow> 'd \<Rightarrow> 'd" where
  "eth_phy_write M r v d = m_call M (Call ''ETH_WritePHYRegister'' [Num PHY_ADDRESS, r, v]) d"

definition eth_phy_read_paged :: "'d machine \<Rightarrow> arg \<Rightarrow> arg \<Rightarrow> 'd \<Rightarrow> u16 \<times> 'd" where
  "eth_phy_read_paged M page r d =
     (case eth_phy_read M r (eth_phy_write M (Sym ''PHY_PAG_SEL'') page d) of
        (v, d) \<Rightarrow> (v, eth_phy_write M (Sym ''PHY_PAG_SEL'') PHY_PAGE_0 d))"

definition eth_phy_set_paged :: "'d machine \<Rightarrow> arg \<Rightarrow> arg \<Rightarrow> u16 \<Rightarrow> 'd \<Rightarrow> 'd" where
  "eth_phy_set_paged M page r b d =
     (case eth_phy_read M r (eth_phy_write M (Sym ''PHY_PAG_SEL'') page d) of
        (v, d) \<Rightarrow> eth_phy_write M (Sym ''PHY_PAG_SEL'') PHY_PAGE_0 (eth_phy_write M r (Num (ucast (v OR b))) d))"

definition eth_phy_para_cfg :: "'d machine \<Rightarrow> 'd \<Rightarrow> 'd" where
  "eth_phy_para_cfg M d = do_all [m_wr M (MEM32 0x4002a00c) 0xfffff, m_wr M (MEM32 0x4002a00c) 0xfffff,
     m_wr M (MEM32 0x4002a00c) 0xfffff, m_wr M (MEM32 0x4002a00c) 0xc2000] d"

section \<open>Bringing the MAC up\<close>

definition eth_get_mac_addr :: "'d machine \<Rightarrow> 'd \<Rightarrow> 'd" where
  "eth_get_mac_addr M = do_all (map (\<lambda>i d. case m_rd M (MEM8 (ROM_CFG_USERADR_ID + 5 - word_of_nat i)) d of
     (v, d) \<Rightarrow> m_wr M (HWADDR i) (v AND 0xFF) d) [0..<6])"

definition eth_led_init :: "'d machine \<Rightarrow> (string \<Rightarrow> u32) \<Rightarrow> 'd \<Rightarrow> 'd" where
  "eth_led_init M K = do_all
     [m_call M (Call ''RCC_HB2PeriphClockCmd'' [Num (K ''RCC_HB2Periph_AFIO'' OR K ''RCC_HB2Periph_GPIOF''), Sym ''ENABLE'']),
      m_touch M (REG ''RCC.HB2PCENR''),
      m_call M (Call ''GPIO_PinAFConfig'' [Sym ''GPIOF'', Sym ''GPIO_PinSource0'', Sym ''GPIO_AF10'']),
      m_call M (Call ''GPIO_PinAFConfig'' [Sym ''GPIOF'', Sym ''GPIO_PinSource2'', Sym ''GPIO_AF10'']),
      m_call M (Call ''GPIO_Init'' [Sym ''GPIOF'', Sym ''GPIO_Pin_0'', Sym ''GPIO_Mode_AF_PP'', Sym ''GPIO_Speed_Very_High'']),
      m_call M (Call ''GPIO_Init'' [Sym ''GPIOF'', Sym ''GPIO_Pin_2'', Sym ''GPIO_Mode_AF_PP'', Sym ''GPIO_Speed_Very_High'']),
      eth_phy_set_paged M PHY_PAGE_7 (Sym ''PHY_INTERRUPT_MASK'') PHY_INTMASK_LED_ON]"

text \<open>
  \<^verbatim>\<open>deadline = millis() + 100; while (!cond) if (millis() > deadline) return -ETIMEDOUT;\<close>
  The comparison is of the 32-bit counter, not of a difference.
\<close>

definition eth_wait :: "'d machine \<Rightarrow> ('d \<Rightarrow> unit option \<times> 'd) \<Rightarrow> 'd \<Rightarrow> (bool \<times> 'd) option" where
  "eth_wait M c d = (case m_millis M d of (t, d) \<Rightarrow>
     map_option (\<lambda>(r, d). (r \<noteq> None, d)) (poll c (m_millis M) (\<lambda>u. u > t + 100) d))"

definition eth_pll_ready :: "'d machine \<Rightarrow> 'd \<Rightarrow> unit option \<times> 'd" where
  "eth_pll_ready M d = (case m_rd M (REG ''RCC.CTLR'') d of (v, d) \<Rightarrow> (if v AND RCC_CTLR_ETH_PLLRDY = 0 then None else Some (), d))"

definition eth_reset_over :: "'d machine \<Rightarrow> (string \<Rightarrow> u32) \<Rightarrow> 'd \<Rightarrow> unit option \<times> 'd" where
  "eth_reset_over M K d = (case m_rd M (REG ''ETH.DMABMR'') d of (v, d) \<Rightarrow> (if v AND K ''ETH_DMABMR_SR'' \<noteq> 0 then None else Some (), d))"

fun ors :: "(string \<Rightarrow> u32) \<Rightarrow> string list \<Rightarrow> u32" where
  "ors K [] = 0"
| "ors K (n # ns) = K n OR ors K ns"

definition eth_mac_regs :: "'d machine \<Rightarrow> (string \<Rightarrow> u32) \<Rightarrow> 'd \<Rightarrow> 'd" where
  "eth_mac_regs M K = do_all
     [m_wr M (REG ''ETH.MACMIIAR'') (K ''ETH_MACMIIAR_CR_Div42''),
      m_wr M (REG ''ETH.MACCR'') (ors K [''ETH_Watchdog_Enable'', ''ETH_Jabber_Enable'', ''ETH_InterFrameGap_96Bit'',
        ''ETH_ChecksumOffload_Disable'', ''ETH_AutomaticPadCRCStrip_Disable'', ''ETH_LoopbackMode_Disable'']),
      m_wr M (REG ''ETH.MACFFR'') (ors K [''ETH_ReceiveAll_Disable'', ''ETH_PromiscuousMode_Disable'',
        ''ETH_BroadcastFramesReception_Enable'', ''ETH_MulticastFramesFilter_HashTable'', ''ETH_UnicastFramesFilter_Perfect'',
        ''ETH_PassControlFrames_BlockAll'', ''ETH_DestinationAddrFilter_Normal'', ''ETH_SourceAddrFilter_Disable'']),
      m_wr M (REG ''ETH.MACHTHR'') 0, m_wr M (REG ''ETH.MACHTLR'') 0,
      m_wr M (REG ''ETH.MACFCR'') (ors K [''ETH_UnicastPauseFrameDetect_Disable'', ''ETH_ReceiveFlowControl_Disable'',
        ''ETH_TransmitFlowControl_Disable'']),
      m_wr M (REG ''ETH.MACVLANTR'') (K ''ETH_VLANTagComparison_16Bit''),
      m_wr M (REG ''ETH.DMAOMR'') (ors K [''ETH_DropTCPIPChecksumErrorFrame_Enable'', ''ETH_TransmitStoreForward_Enable'',
        ''ETH_ForwardErrorFrames_Disable'', ''ETH_ForwardUndersizedGoodFrames_Disable''])]"

definition eth_mac_filter_addr :: "'d machine \<Rightarrow> 'd \<Rightarrow> 'd" where
  "eth_mac_filter_addr M d =
     (case m_rd M (HWADDR 5) d of (m5, d) \<Rightarrow> case m_rd M (HWADDR 4) d of (m4, d) \<Rightarrow>
      (let d = m_wr M (REG ''ETH.MACA0HR'') (push_bit 8 m5 OR m4) d in
       case m_rd M (HWADDR 0) d of (m0, d) \<Rightarrow> case m_rd M (HWADDR 1) d of (m1, d) \<Rightarrow>
       case m_rd M (HWADDR 2) d of (m2, d) \<Rightarrow> case m_rd M (HWADDR 3) d of (m3, d) \<Rightarrow>
       m_wr M (REG ''ETH.MACA0LR'') (m0 OR push_bit 8 m1 OR push_bit 16 m2 OR push_bit 24 m3) d))"

definition eth_rings_init :: "'d machine \<Rightarrow> (string \<Rightarrow> u32) \<Rightarrow> 'd eth \<Rightarrow> 'd eth" where
  "eth_rings_init M K e = (eth_do (do_all
     [m_wr M (REG ''ETH.MMCTIMR'') (K ''ETH_MMCTIMR_TGFM''),
      m_wr M (REG ''ETH.MMCRIMR'') (K ''ETH_MMCRIMR_RGUFM'' OR K ''ETH_MMCRIMR_RFCEM''),
      m_call M (Call ''ETH_DMATxDescChainInit'' [Sym ''eth_tx_desc'', Sym ''eth_tx_buf'', Num (word_of_nat ETH_TX_DESC_NUM)]),
      m_call M (Call ''ETH_DMARxDescChainInit'' [Sym ''eth_rx_desc'', Sym ''eth_rx_buf'', Num (word_of_nat ETH_RX_DESC_NUM)]),
      m_call M (Call ''fence'' [])]) e)\<lparr>eth_rx_cur := K ''eth_rx_desc'', eth_tx_cur := K ''eth_tx_desc''\<rparr>"

definition eth_irqs_on :: "'d machine \<Rightarrow> (string \<Rightarrow> u32) \<Rightarrow> 'd \<Rightarrow> 'd" where
  "eth_irqs_on M K = do_all
     [m_call M (Call ''ETH_DMAITConfig'' [Num (ors K [''ETH_DMA_IT_NIS'', ''ETH_DMA_IT_AIS'', ''ETH_DMA_IT_R'', ''ETH_DMA_IT_T'',
        ''ETH_DMA_IT_RBU'', ''ETH_DMA_IT_PHYSR'']), Sym ''ENABLE'']),
      eth_phy_set_paged M PHY_PAGE_7 (Sym ''PHY_INTERRUPT_MASK'') PHY_INTMASK_LINK_IE,
      \<lambda>d. snd (eth_phy_read M (Sym ''PHY_INTERRUPT_IND'') d)]"

text \<open>Errors are negative error numbers; \<open>delay(1)\<close> is \<open>dly\<close>.\<close>

definition eth_mac_init :: "'d machine \<Rightarrow> (string \<Rightarrow> u32) \<Rightarrow> ('d \<Rightarrow> 'd) \<Rightarrow> 'd eth \<Rightarrow> (int \<times> 'd eth) option" where
  "eth_mac_init M K dly e =
     do { (ok, d) \<leftarrow> eth_wait M (eth_pll_ready M) (m_or M (REG ''RCC.CTLR'') RCC_CTLR_ETH_PLLON (e_hw e));
          if \<not> ok then Some (- sint (K ''ETIMEDOUT''), e\<lparr>e_hw := d\<rparr>)
          else do { (ok, d) \<leftarrow> eth_wait M (eth_reset_over M K) (do_all
                      [m_or M (REG ''RCC.HBPCENR'') RCC_HBPCENR_ETHMACEN, m_touch M (REG ''RCC.HBPCENR''),
                       m_and M (REG ''ETH.MACPHYCR'') (NOT MACPHYCR_PHY_POWERDOWN), m_or M (REG ''ETH.MACPHYCR'') MACPHYCR_PHY_RESET_N,
                       dly, m_call M (Call ''ETH_SoftwareReset'' [])] d);
                    if \<not> ok then Some (- sint (K ''ETIMEDOUT''), e\<lparr>e_hw := d\<rparr>)
                    else Some (0, eth_do (eth_irqs_on M K)
                      (eth_rings_init M K (e\<lparr>e_hw := eth_mac_filter_addr M (eth_mac_regs M K d)\<rparr>))) } }"

section \<open>Link changes\<close>

definition eth_link_is_up :: "'d eth \<Rightarrow> bool" where
  "eth_link_is_up e = e_link_up e"

definition eth_maccr_for :: "(string \<Rightarrow> u32) \<Rightarrow> u16 \<Rightarrow> u32 \<Rightarrow> u32" where
  "eth_maccr_for K status maccr =
     (let m = (maccr AND NOT (K ''ETH_Speed_1000M'' OR K ''ETH_Mode_FullDuplex''))
              OR (if status AND PHY_STATUS_100M \<noteq> 0 then K ''ETH_Speed_100M'' else K ''ETH_Speed_10M'')
      in if status AND PHY_STATUS_FULLDUP \<noteq> 0 then m OR K ''ETH_Mode_FullDuplex'' else m)"

definition eth_link_up :: "'d machine \<Rightarrow> (string \<Rightarrow> u32) \<Rightarrow> 'd stack \<Rightarrow> 'd eth \<Rightarrow> 'd eth" where
  "eth_link_up M K S e =
     (case eth_phy_read_paged M PHY_PAGE_0 PHY_STATUS_REG (eth_phy_para_cfg M (e_hw e)) of (status, d) \<Rightarrow>
      case m_rd M (REG ''ETH.MACCR'') d of (maccr, d) \<Rightarrow>
        lwip S ''netif_set_link_up'' [] (stat_up link_changes_update
          (e\<lparr>e_hw := m_call M (Call ''ETH_Start'' []) (m_wr M (REG ''ETH.MACCR'') (eth_maccr_for K status maccr) d),
             e_link_up := True\<rparr>)))"

definition eth_link_down :: "'d machine \<Rightarrow> 'd stack \<Rightarrow> 'd eth \<Rightarrow> 'd eth" where
  "eth_link_down M S e =
     (let e = lwip S ''netif_set_link_down'' [] (stat_up link_changes_update (e\<lparr>e_link_up := False\<rparr>)) in
      case S (Call ''netif_dhcp_data'' []) e of (p, e) \<Rightarrow>
        if p \<noteq> 0
        then (case S (Call ''dhcp_supplied_address'' []) e of (v, e) \<Rightarrow>
                lwip S ''dhcp_stop'' [] (if v \<noteq> 0 then eth_do (m_wr M NETIF_IP 0) e else e))
        else e)"

definition eth_dhcp_start_if_needed :: "'d machine \<Rightarrow> (string \<Rightarrow> u32) \<Rightarrow> 'd stack \<Rightarrow> 'd eth \<Rightarrow> 'd eth" where
  "eth_dhcp_start_if_needed M K S e =
     (case eth_rd M NETIF_FLAGS e of (fl, e) \<Rightarrow>
        if fl AND K ''NETIF_FLAG_UP'' = 0 then e
        else (case eth_rd M NETIF_IP e of (ip, e) \<Rightarrow>
                if ip \<noteq> 0 then e
                else (case S (Call ''netif_dhcp_data'' []) e of (p, e) \<Rightarrow> if p = 0 then lwip S ''dhcp_start'' [] e else e)))"

definition eth_link_seen :: "(string \<Rightarrow> u32) \<Rightarrow> u16 \<Rightarrow> u16 \<Rightarrow> bool" where
  "eth_link_seen K bsr bcr \<longleftrightarrow>
     (if ucast bsr AND K ''PHY_Linked_Status'' = 0 then False
      else if ucast bcr AND K ''PHY_AutoNegotiation'' \<noteq> 0 then ucast bsr AND K ''PHY_AutoNego_Complete'' \<noteq> 0
      else True)"

definition eth_link_poll :: "'d machine \<Rightarrow> (string \<Rightarrow> u32) \<Rightarrow> 'd stack \<Rightarrow> 'd eth \<Rightarrow> 'd eth" where
  "eth_link_poll M K S e =
     (case eth_phy_read M (Sym ''PHY_BSR'') (snd (eth_phy_read M (Sym ''PHY_BSR'') (e_hw e))) of (bsr, d) \<Rightarrow>
      case eth_phy_read M (Sym ''PHY_BCR'') d of (bcr, d) \<Rightarrow>
      (let up = eth_link_seen K bsr bcr; e = e\<lparr>e_hw := d\<rparr>;
           e = (if up \<noteq> e_link_up e then (if up then eth_link_up M K S e else eth_link_down M S e) else e);
           e = (if up \<and> e_active e then eth_dhcp_start_if_needed M K S e else e)
       in eth_do (\<lambda>d. snd (eth_phy_read M (Sym ''PHY_INTERRUPT_IND'') (eth_phy_write M (Sym ''PHY_PAG_SEL'') PHY_PAGE_0 d))) e))"

definition eth_poll :: "'d machine \<Rightarrow> (string \<Rightarrow> u32) \<Rightarrow> 'd stack \<Rightarrow> 'd eth \<Rightarrow> 'd eth" where
  "eth_poll M K S e =
     (case eth_rd M NETIF_INPUT e of (inp, e) \<Rightarrow>
        if inp = 0 then e
        else (case m_millis M (e_hw e) of (t, d) \<Rightarrow>
              case m_rd M LINK_EVENT d of (ev, d) \<Rightarrow>
                (let due = 0 \<le> sint (t - next_check_ms e); e = e\<lparr>e_hw := d\<rparr>
                 in if ev = 0 \<and> \<not> due then e
                    else eth_link_poll M K S ((eth_do (m_wr M LINK_EVENT 0) e)\<lparr>next_check_ms := t + 1000\<rparr>))))"

section \<open>Receive\<close>

text \<open>
  \<open>eth_rx_frame\<close> also works out the frame's type into locals that nothing reads; a frame's
  bytes are only copied by \<open>pbuf_take\<close>.
\<close>

definition eth_rx_frame :: "'d stack \<Rightarrow> u32 \<Rightarrow> u32 \<Rightarrow> 'd eth \<Rightarrow> 'd eth" where
  "eth_rx_frame S buf len e =
     (case S (Call ''pbuf_alloc'' [Sym ''PBUF_RAW'', Num len, Sym ''PBUF_POOL'']) e of (p, e) \<Rightarrow>
        if p = 0 then stat_up rx_dropped_update e
        else (case S (Call ''netif->input'' [Num p])
                     (stat_up rx_frames_update (lwip S ''pbuf_take'' [Num p, Num buf, Num len] e)) of (r, e) \<Rightarrow>
                if r \<noteq> 0 then stat_up rx_dropped_update (lwip S ''pbuf_free'' [Num p] e) else e))"

definition rx_complete :: "(string \<Rightarrow> u32) \<Rightarrow> u32 \<Rightarrow> bool" where
  "rx_complete K status \<longleftrightarrow>
     status AND (K ''ETH_DMARxDesc_FS'' OR K ''ETH_DMARxDesc_LS'') = (K ''ETH_DMARxDesc_FS'' OR K ''ETH_DMARxDesc_LS'') \<and>
     status AND K ''ETH_DMARxDesc_ES'' = 0"

definition rx_length :: "(string \<Rightarrow> u32) \<Rightarrow> u32 \<Rightarrow> u32" where
  "rx_length K status = drop_bit 16 (status AND K ''ETH_DMARxDesc_FL'')"

definition rx_accepted :: "(string \<Rightarrow> u32) \<Rightarrow> u32 \<Rightarrow> bool" where
  "rx_accepted K status \<longleftrightarrow>
     rx_complete K status \<and> 4 \<le> rx_length K status \<and> rx_length K status \<le> K ''ETH_MAX_PACKET_SIZE''"

text \<open>One descriptor: its frame, then the descriptor handed back, then on to the next.\<close>

definition eth_rx_one :: "'d machine \<Rightarrow> (string \<Rightarrow> u32) \<Rightarrow> 'd stack \<Rightarrow> 'd eth \<Rightarrow> 'd eth" where
  "eth_rx_one M K S e =
     (case eth_rd M (MEM32 (eth_rx_cur e)) e of (status, e) \<Rightarrow>
      (let e = (if rx_accepted K status
                then (case eth_rd M (MEM32 (eth_rx_cur e + 8)) e of (buf, e) \<Rightarrow> eth_rx_frame S buf (rx_length K status - 4) e)
                else stat_up rx_dropped_update e);
           e = eth_do (do_all [m_wr M (MEM32 (eth_rx_cur e)) (K ''ETH_DMARxDesc_OWN''), m_call M (Call ''fence'' [])]) e
       in case eth_rd M (MEM32 (eth_rx_cur e + 12)) e of (p, e) \<Rightarrow> e\<lparr>eth_rx_cur := p\<rparr>))"

partial_function (option) eth_rx_loop :: "'d machine \<Rightarrow> (string \<Rightarrow> u32) \<Rightarrow> 'd stack \<Rightarrow> 'd eth \<Rightarrow> 'd eth option" where
  "eth_rx_loop M K S e =
     (case eth_rd M (MEM32 (eth_rx_cur e)) e of (v, e) \<Rightarrow>
        if v AND K ''ETH_DMARxDesc_OWN'' = 0 then eth_rx_loop M K S (eth_rx_one M K S e) else Some e)"

declare eth_rx_loop.simps [code]

definition eth_rx_drain :: "'d machine \<Rightarrow> (string \<Rightarrow> u32) \<Rightarrow> 'd stack \<Rightarrow> 'd eth \<Rightarrow> 'd eth option" where
  "eth_rx_drain M K S e = map_option (eth_do (m_wr M (REG ''ETH.DMARPDR'') 0)) (eth_rx_loop M K S e)"

definition eth_rx_process :: "'d machine \<Rightarrow> (string \<Rightarrow> u32) \<Rightarrow> 'd stack \<Rightarrow> 'd eth \<Rightarrow> 'd eth option" where
  "eth_rx_process M K S e =
     (case eth_rd M RX_PENDING e of (v, e) \<Rightarrow>
        if v = 0 \<or> e_in_rx e then Some e
        else map_option (e_in_rx_update (\<lambda>_. False))
               (eth_rx_drain M K S (eth_do (m_wr M RX_PENDING 0) (e\<lparr>e_in_rx := True\<rparr>))))"

section \<open>Transmit\<close>

definition tx_free :: "'d machine \<Rightarrow> (string \<Rightarrow> u32) \<Rightarrow> u32 \<Rightarrow> 'd \<Rightarrow> unit option \<times> 'd" where
  "tx_free M K a d = (case m_rd M (MEM32 a) d of (v, d) \<Rightarrow> (if v AND K ''ETH_DMATxDesc_OWN'' \<noteq> 0 then None else Some (), d))"

text \<open>The packet \<open>p\<close> into the free descriptor, and the descriptor to the DMA.\<close>

definition tx_kick :: "'d machine \<Rightarrow> (string \<Rightarrow> u32) \<Rightarrow> u32 \<Rightarrow> u16 \<Rightarrow> 'd \<Rightarrow> 'd" where
  "tx_kick M K a len = do_all
     [m_wr M (MEM32 (a + 4)) (ucast len AND K ''ETH_DMATxDesc_TBS1''),
      m_or M (MEM32 a) (ors K [''ETH_DMATxDesc_FS'', ''ETH_DMATxDesc_LS'', ''ETH_DMATxDesc_OWN'']),
      m_call M (Call ''fence'' []),
      m_wr M (REG ''ETH.DMASR'') (K ''ETH_DMASR_TBUS''), m_wr M (REG ''ETH.DMATPDR'') 0]"

definition tx_queue :: "'d machine \<Rightarrow> (string \<Rightarrow> u32) \<Rightarrow> 'd stack \<Rightarrow> u32 \<Rightarrow> u16 \<Rightarrow> 'd eth \<Rightarrow> err \<times> 'd eth" where
  "tx_queue M K S p tot_len e =
     (case eth_rd M (MEM32 (eth_tx_cur e + 8)) e of (buf, e) \<Rightarrow>
      case S (Call ''pbuf_copy_partial'' [Num p, Num buf, Num (ucast tot_len), Num 0]) e of (n, e) \<Rightarrow>
      (let len = ucast n :: u16 in
       if len \<noteq> tot_len then (ERR_BUF, stat_up tx_errors_update e)
       else (case eth_rd M (MEM32 (eth_tx_cur e + 12)) (stat_up tx_frames_update (eth_do (tx_kick M K (eth_tx_cur e) len) e)) of
               (nxt, e) \<Rightarrow> (ERR_OK, e\<lparr>eth_tx_cur := nxt\<rparr>))))"

text \<open>The packet's total length is \<open>tot_len\<close>; \<open>None\<close> is a wait that never ends.\<close>

definition eth_netif_output :: "'d machine \<Rightarrow> (string \<Rightarrow> u32) \<Rightarrow> 'd stack \<Rightarrow> u32 \<Rightarrow> u16 \<Rightarrow> 'd eth \<Rightarrow> (err \<times> 'd eth) option" where
  "eth_netif_output M K S p tot_len e =
     (if \<not> e_link_up e then Some (ERR_IF, e)
      else if ucast tot_len > K ''ETH_MAX_PACKET_SIZE'' then Some (ERR_BUF, e)
      else (case m_millis M (e_hw e) of (t, d) \<Rightarrow>
        do { (r, d) \<leftarrow> poll (tx_free M K (eth_tx_cur e)) (m_millis M) (\<lambda>u. 0 \<le> sint (u - (t + 5))) d;
             Some (if r = None then (ERR_IF, stat_up tx_errors_update (e\<lparr>e_hw := d\<rparr>))
                   else tx_queue M K S p tot_len (e\<lparr>e_hw := d\<rparr>)) }))"

section \<open>The interrupt\<close>

definition eth_irq_handler :: "'d machine \<Rightarrow> (string \<Rightarrow> u32) \<Rightarrow> 'd eth \<Rightarrow> 'd eth" where
  "eth_irq_handler M K e =
     (case eth_rd M (REG ''ETH.DMASR'') e of (status, e) \<Rightarrow>
      (let ack = \<lambda>n. m_wr M (REG ''ETH.DMASR'') (K n);
           e = (if status AND K ''ETH_DMASR_NIS'' = 0 then e
                else eth_do (do_all
                  ((if status AND K ''ETH_DMASR_RS'' \<noteq> 0 then [ack ''ETH_DMASR_RS'', m_wr M RX_PENDING 1] else []) @
                   (if status AND K ''ETH_DMASR_TS'' \<noteq> 0 then [ack ''ETH_DMASR_TS''] else []) @
                   (if status AND K ''ETH_DMA_FLAG_PHYSR'' \<noteq> 0 then [ack ''ETH_DMA_FLAG_PHYSR'', m_wr M LINK_EVENT 1] else []) @
                   [ack ''ETH_DMASR_NIS''])) e)
       in if status AND K ''ETH_DMASR_AIS'' = 0 then e
          else eth_do (ack ''ETH_DMASR_AIS'')
            (if status AND K ''ETH_DMASR_RBUS'' \<noteq> 0
             then eth_do (do_all [ack ''ETH_DMASR_RBUS'', m_wr M RX_PENDING 1]) (stat_up rx_buf_unavail_update e) else e)))"

definition ETH_IRQHandler :: "'d machine \<Rightarrow> (string \<Rightarrow> u32) \<Rightarrow> irq_trace \<times> 'd eth \<Rightarrow> irq_trace \<times> 'd eth" where
  "ETH_IRQHandler M K x = (case x of (q, e) \<Rightarrow> (irq_exit (irq_enter Irq_eth q), eth_irq_handler M K e))"

section \<open>The multicast filter\<close>

definition crc_bit :: "u32 \<Rightarrow> u32" where
  "crc_bit crc = (if crc AND 1 \<noteq> 0 then drop_bit 1 crc XOR 0xEDB88320 else drop_bit 1 crc)"

definition crc_byte :: "u8 \<Rightarrow> u32 \<Rightarrow> u32" where
  "crc_byte b crc = (crc_bit ^^ 8) (crc XOR ucast b)"

definition eth_crc32 :: "u8 list \<Rightarrow> u32" where
  "eth_crc32 data = NOT (fold crc_byte data 0xFFFFFFFF)"

definition eth_hash_words :: "u8 list \<Rightarrow> u32 \<times> u32" where
  "eth_hash_words hc = fold (\<lambda>i (low, high).
     if hc ! i = 0 then (low, high) else if i < 32 then (low OR push_bit i 1, high) else (low, high OR push_bit (i - 32) 1))
     [0..<64] (0, 0)"

definition eth_hash_apply :: "'d machine \<Rightarrow> 'd eth \<Rightarrow> 'd eth" where
  "eth_hash_apply M e = (case eth_hash_words (s_hash_count e) of (low, high) \<Rightarrow>
     eth_do (do_all [m_wr M (REG ''ETH.MACHTLR'') low, m_wr M (REG ''ETH.MACHTHR'') high]) e)"

definition eth_group_mac :: "u32 \<Rightarrow> u8 list" where
  "eth_group_mac g = [0x01, 0x00, 0x5E, ucast (drop_bit 8 g AND 0x7F), ucast (drop_bit 16 g AND 0xFF), ucast (drop_bit 24 g AND 0xFF)]"

definition bit_reversed :: "u32 \<Rightarrow> u32" where
  "bit_reversed crc = fold (\<lambda>i rev. push_bit 1 rev OR (drop_bit i crc AND 1)) [0..<32] 0"

definition eth_group_bin :: "u32 \<Rightarrow> u32" where
  "eth_group_bin g = drop_bit 26 (bit_reversed (eth_crc32 (eth_group_mac g))) AND 0x3F"

datatype mac_action = ADD_MAC_FILTER | DEL_MAC_FILTER | OTHER_ACTION

definition eth_igmp_filter :: "'d machine \<Rightarrow> u32 \<Rightarrow> mac_action \<Rightarrow> 'd eth \<Rightarrow> err \<times> 'd eth" where
  "eth_igmp_filter M g action e =
     (let bin = unat (eth_group_bin g); n = s_hash_count e ! bin in
      case action of
        ADD_MAC_FILTER \<Rightarrow> (ERR_OK, eth_hash_apply M (if n < 255 then e\<lparr>s_hash_count := (s_hash_count e)[bin := n + 1]\<rparr> else e))
      | DEL_MAC_FILTER \<Rightarrow> (ERR_OK, eth_hash_apply M (if n > 0 then e\<lparr>s_hash_count := (s_hash_count e)[bin := n - 1]\<rparr> else e))
      | OTHER_ACTION \<Rightarrow> (ERR_ARG, e))"

section \<open>The interface\<close>

definition eth_netif_init :: "'d machine \<Rightarrow> (string \<Rightarrow> u32) \<Rightarrow> 'd \<Rightarrow> err \<times> 'd" where
  "eth_netif_init M K d = (ERR_OK, do_all
     [m_wr M (REG ''netif.linkoutput'') (K ''eth_netif_output''), m_wr M (REG ''netif.output'') (K ''etharp_output''),
      m_wr M (REG ''netif.mtu'') 1500,
      m_wr M NETIF_FLAGS (ors K [''NETIF_FLAG_BROADCAST'', ''NETIF_FLAG_ETHARP'', ''NETIF_FLAG_ETHERNET'', ''NETIF_FLAG_IGMP'']),
      m_wr M (REG ''netif.name[0]'') (word_of_nat (of_char (CHR ''e''))), m_wr M (REG ''netif.name[1]'') (word_of_nat (of_char (CHR ''0'')))] d)"

definition eth_init :: "'d machine \<Rightarrow> (string \<Rightarrow> u32) \<Rightarrow> 'd stack \<Rightarrow> ('d \<Rightarrow> 'd) \<Rightarrow> 'd eth \<Rightarrow> (int \<times> 'd eth) option" where
  "eth_init M K S dly e =
     (case eth_rd M NETIF_INPUT e of (inp, e) \<Rightarrow>
        if inp \<noteq> 0 then Some (0, e)
        else (let e = eth_do (do_all (map (\<lambda>i. m_wr M (MEM8 (K ''_sethram'' + word_of_nat i)) 0)
                        [0..<unat (K ''_eethram'' - K ''_sethram'')])) e;
                  e = e\<lparr>e_stats := eth_stats_zero, e_active := False, e_link_up := False\<rparr>;
                  e = eth_do (\<lambda>d. m_wr M (REG ''netif.hwaddr_len'') 6 (eth_get_mac_addr M d)) e in
        do { (ret, e) \<leftarrow> eth_mac_init M K dly e;
             if ret \<noteq> 0 then Some (ret, e)
             else (let e = eth_do (eth_led_init M K) e;
                       e = lwip S ''netif_add'' [Sym ''none'', Sym ''none'', Sym ''none'', Sym ''eth_netif_init'', Sym ''ethernet_input''] e;
                       e = lwip S ''netif_set_hostname'' [Sym ''ch32h4_eth_hostname''] e;
                       e = lwip S ''netif_set_default'' [] e;
                       e = lwip S ''netif_set_igmp_mac_filter'' [Sym ''eth_igmp_filter''] e
                   in Some (0, eth_do (do_all [m_call M (Call ''NVIC_SetPriority'' [Sym ''ETH_IRQn'', Num 1]),
                        m_call M (Call ''NVIC_EnableIRQ'' [Sym ''ETH_IRQn''])]) e)) }))"

definition eth_start :: "'d machine \<Rightarrow> (string \<Rightarrow> u32) \<Rightarrow> 'd stack \<Rightarrow> ('d \<Rightarrow> 'd) \<Rightarrow> 'd eth \<Rightarrow> (int \<times> 'd eth) option" where
  "eth_start M K S dly e =
     do { (ret, e) \<leftarrow> eth_init M K S dly e;
          if ret \<noteq> 0 then Some (ret, e)
          else Some (0, eth_link_poll M K S (lwip S ''netif_set_up'' [] (e\<lparr>e_active := True\<rparr>))) }"

definition eth_stop :: "'d machine \<Rightarrow> 'd stack \<Rightarrow> 'd eth \<Rightarrow> int \<times> 'd eth" where
  "eth_stop M S e =
     (if \<not> e_active e then (0, e)
      else (let e = eth_do (do_all
                 [m_call M (Call ''ETH_MACTransmissionCmd'' [Sym ''DISABLE'']), m_call M (Call ''ETH_MACReceptionCmd'' [Sym ''DISABLE'']),
                  m_call M (Call ''ETH_FlushTransmitFIFO'' []), m_call M (Call ''ETH_DMATransmissionCmd'' [Sym ''DISABLE'']),
                  m_call M (Call ''ETH_DMAReceptionCmd'' [Sym ''DISABLE''])])
                (lwip S ''netif_set_down'' [] (lwip S ''dhcp_stop'' [] e))
            in (0, e\<lparr>e_active := False\<rparr>)))"

definition eth_is_active :: "'d eth \<Rightarrow> bool" where
  "eth_is_active e = e_active e"

definition eth_get_stats :: "'d eth \<Rightarrow> eth_stats" where
  "eth_get_stats e = e_stats e"

record eth_diag =
  dg_rcc_ctlr :: u32
  dg_hbpcenr :: u32
  dg_macphycr :: u32
  dg_maccr :: u32
  dg_dmasr :: u32
  dg_dmaomr :: u32
  dg_phy_id1 :: u16
  dg_phy_id2 :: u16
  dg_phy_bcr :: u16
  dg_phy_bsr :: u16
  dg_phy_anlpar :: u16
  dg_phy_status :: u16
  dg_lock_depth :: u32
  dg_irq_enabled :: u32

definition eth_get_diag :: "'d machine \<Rightarrow> 'd eth \<Rightarrow> eth_diag \<times> 'd eth" where
  "eth_get_diag M e =
     (let (a1, d) = m_rd M (REG ''RCC.CTLR'') (e_hw e);
          (a2, d) = m_rd M (REG ''RCC.HBPCENR'') d;
          (a3, d) = m_rd M (REG ''ETH.MACPHYCR'') d;
          (a4, d) = m_rd M (REG ''ETH.MACCR'') d;
          (a5, d) = m_rd M (REG ''ETH.DMASR'') d;
          (a6, d) = m_rd M (REG ''ETH.DMAOMR'') d;
          (p1, d) = eth_phy_read M (Sym ''PHY_PHYIDR1'') d;
          (p2, d) = eth_phy_read M (Sym ''PHY_PHYIDR2'') d;
          (p3, d) = eth_phy_read M (Sym ''PHY_BCR'') d;
          (p4, d) = eth_phy_read M (Sym ''PHY_BSR'') (snd (eth_phy_read M (Sym ''PHY_BSR'') d));
          (p5, d) = eth_phy_read M (Sym ''PHY_ANLPAR'') d;
          (p6, d) = eth_phy_read_paged M PHY_PAGE_0 PHY_STATUS_REG d;
          (st, d) = m_ask M (Call ''NVIC_GetStatusIRQ'' [Sym ''ETH_IRQn'']) d
      in (\<lparr>dg_rcc_ctlr = a1, dg_hbpcenr = a2, dg_macphycr = a3, dg_maccr = a4, dg_dmasr = a5, dg_dmaomr = a6, dg_phy_id1 = p1,
           dg_phy_id2 = p2, dg_phy_bcr = p3, dg_phy_bsr = p4, dg_phy_anlpar = p5, dg_phy_status = p6,
           dg_lock_depth = eth_lock_depth e, dg_irq_enabled = (if st \<noteq> 0 then 1 else 0)\<rparr>, e\<lparr>e_hw := d\<rparr>))"

definition eth_link_status :: "'d machine \<Rightarrow> (string \<Rightarrow> u32) \<Rightarrow> 'd eth \<Rightarrow> int \<times> 'd eth" where
  "eth_link_status M K e =
     (case eth_rd M NETIF_FLAGS e of (fl, e) \<Rightarrow>
        (let up = K ''NETIF_FLAG_UP'' OR K ''NETIF_FLAG_LINK_UP'' in
         if fl AND up = up then (case eth_rd M NETIF_IP e of (ip, e) \<Rightarrow> (if ip \<noteq> 0 then 3 else 2, e))
         else (if e_link_up e then 1 else 0, e)))"

text \<open>The driver before \<open>eth_init\<close>.\<close>

definition eth_idle :: "'d \<Rightarrow> 'd eth" where
  "eth_idle d = \<lparr>e_hw = d, e_active = False, e_link_up = False, e_stats = eth_stats_zero, eth_rx_cur = 0, eth_tx_cur = 0,
     eth_lock_depth = 0, e_in_rx = False, next_check_ms = 0, s_hash_count = replicate 64 0\<rparr>"

section \<open>What lwIP asks of the platform\<close>

text \<open>\<^verbatim>\<open>ch32h4_lwip_glue.c\<close>: the time, the check that the V5F is calling (\<open>None\<close> is the endless loop) and random numbers.\<close>

definition lwip_now_ms :: "'d machine \<Rightarrow> 'd \<Rightarrow> u32 \<times> 'd" where
  "lwip_now_ms M d = m_millis M d"

definition lwip_assert_core_locked :: "(core \<Rightarrow> 'd machine) \<Rightarrow> ('d xc \<Rightarrow> 'd xc) \<Rightarrow> core \<Rightarrow> 'd con \<Rightarrow> 'd con option" where
  "lwip_assert_core_locked M env c s =
     (if core_num c \<noteq> 1
      then do { s \<leftarrow> console_puts M env c ([CHR 0x0A] @ ''lwIP called from the V3F. The stack belongs to the V5F: '' @
                      ''call it from setup()/loop(), not setup1()/loop1().'' @ [CHR 0x0A]) s;
                None }
      else Some s)"

definition lwip_xorshift :: "u32 \<Rightarrow> u32" where
  "lwip_xorshift x =
     (let x = x XOR push_bit 13 x; x = x XOR drop_bit 17 x in x XOR push_bit 5 x)"

definition lwip_rand :: "'d machine \<Rightarrow> u32 \<times> 'd \<Rightarrow> u32 \<times> u32 \<times> 'd" where
  "lwip_rand M s = (case s of (state, d) \<Rightarrow>
     (let (state, d) = (if state = 0
            then (case lwip_now_ms M d of (t, d) \<Rightarrow> (let v = t * 2654435761 in (if v = 0 then 0x1234567 else v, d)))
            else (state, d));
          state = lwip_xorshift state
      in (state, state, d)))"

section \<open>A wait that may not end\<close>

text \<open>
  The bring-up compares \<open>millis()\<close> with a deadline instead of subtracting.  Started 101 ms
  before the counter wraps, the deadline is the counter's last value, which no reading
  exceeds: if the PLL or the reset never becomes ready, the wait never ends.
\<close>

lemma poll_never:
  assumes "\<forall>d. fst (c d) = None" "\<forall>t. \<not> expired t"
  shows "poll c clk expired d = None"
proof (rule ccontr)
  assume "poll c clk expired d \<noteq> None"
  then obtain y where "poll c clk expired d = Some y" by blast
  then have "(\<forall>d. fst (c d) = None) \<longrightarrow> (\<forall>t. \<not> expired t) \<longrightarrow> False"
  proof (rule poll.raw_induct [where P = "\<lambda>c clk e d y. (\<forall>d. fst (c d) = None) \<longrightarrow> (\<forall>t. \<not> e t) \<longrightarrow> False", rotated])
    fix p c clk e d y
    assume ih: "\<And>c clk e d y. p c clk e d = Some y \<Longrightarrow> (\<forall>d. fst (c d) = None) \<longrightarrow> (\<forall>t. \<not> e t) \<longrightarrow> False"
      and eq: "(case c d of (None, d1) \<Rightarrow> (case clk d1 of (t, d2) \<Rightarrow>
          if e t then Some (None, d2) else p c clk e d2) | (Some x, d1) \<Rightarrow> Some (Some x, d1)) = Some y"
    show "(\<forall>d. fst (c d) = None) \<longrightarrow> (\<forall>t. \<not> e t) \<longrightarrow> False"
    proof (intro impI)
      assume h: "\<forall>d. fst (c d) = None" "\<forall>t. \<not> e t"
      obtain d1 where c: "c d = (None, d1)" using h(1) by (metis prod.collapse)
      obtain t d2 where k: "clk d1 = (t, d2)" by (cases "clk d1")
      show False using eq c k ih [of c clk e d2 y] h by simp
    qed
  qed
  with assms show False by blast
qed

lemma eth_wait_hangs:
  assumes "\<forall>d. fst (c d) = None" "fst (m_millis M d) = 0xFFFFFF9B"
  shows "eth_wait M c d = None"
proof -
  have "\<not> u > (0xFFFFFF9B + 100 :: u32)" for u
  proof -
    have "(0xFFFFFF9B + 100 :: u32) = - 1" by simp
    then show ?thesis using word_n1_ge [of u] by (metis not_less)
  qed
  moreover obtain d1 where "m_millis M d = (0xFFFFFF9B, d1)" using assms(2) by (metis prod.collapse)
  ultimately show ?thesis
    using poll_never [OF assms(1), of "(<) 4294967295" "m_millis M" d1] by (simp add: eth_wait_def)
qed

text \<open>The random numbers are never zero, and the step is one to one, so the state never sticks.\<close>

lemma xorshift_up_cancel:
  assumes "0 < k"
  shows "a XOR push_bit k a = b XOR push_bit k b \<longleftrightarrow> a = (b :: u32)"
proof
  assume e: "a XOR push_bit k a = b XOR push_bit k b"
  have "bit a i = bit b i" if "i < 32" for i
    using that
  proof (induction i rule: less_induct)
    case (less i)
    have "bit (a XOR push_bit k a) i = bit (b XOR push_bit k b) i" using e by simp
    moreover have "k \<le> i \<Longrightarrow> bit a (i - k) = bit b (i - k)" using less assms by simp
    ultimately show ?case using less.prems by (auto simp: bit_xor_iff bit_push_bit_iff)
  qed
  then show "a = b" by (intro bit_eqI) simp
qed simp

lemma xorshift_down_cancel:
  assumes "0 < k"
  shows "a XOR drop_bit k a = b XOR drop_bit k b \<longleftrightarrow> a = (b :: u32)"
proof
  assume e: "a XOR drop_bit k a = b XOR drop_bit k b"
  have "bit a i = bit b i" for i
  proof (induction "32 - i" arbitrary: i rule: less_induct)
    case less
    have "bit (a XOR drop_bit k a) i = bit (b XOR drop_bit k b) i" using e by simp
    then have x: "(bit a i \<noteq> bit a (k + i)) = (bit b i \<noteq> bit b (k + i))" by (simp only: bit_xor_iff bit_drop_bit_eq comp_apply)
    show ?case
    proof (cases "k + i < 32")
      case True
      then have "bit a (k + i) = bit b (k + i)" using less assms by simp
      then show ?thesis using x by blast
    next
      case False
      then have "\<not> bit a (k + i)" "\<not> bit b (k + i)" by (auto dest: bit_imp_le_length)
      then show ?thesis using x by blast
    qed
  qed
  then show "a = b" by (intro bit_eqI)
qed simp

lemma lwip_xorshift_cancel: "lwip_xorshift a = lwip_xorshift b \<longleftrightarrow> a = b"
  by (simp only: lwip_xorshift_def Let_def xorshift_up_cancel xorshift_down_cancel zero_less_numeral)

lemma lwip_rand_nonzero: "lwip_rand M (state, d) = (v, state', d') \<Longrightarrow> v \<noteq> 0 \<and> state' = v"
  using lwip_xorshift_cancel [of _ 0]
  by (auto simp: lwip_rand_def Let_def lwip_xorshift_def split: prod.splits if_splits)

end
