(* ===== verification/EthFilter.thy ===== *)
theory EthFilter
  imports Eth "HOL-Library.Multiset"
begin

text \<open>
  The Ethernet driver's multicast filter: that its bins are the ones the MAC looks up, and
  that through any joins and leaves the hash table opens exactly the bins of joined groups.
\<close>

section \<open>The hash of a group\<close>

text \<open>
  The MAC's own computation, as a shift register: the address enters least significant bit
  first, the polynomial is in its usual form, and the bin is the top six bits of the
  complement.
\<close>

definition lfsr_step :: "bool \<Rightarrow> u32 \<Rightarrow> u32" where
  "lfsr_step b r = push_bit 1 r XOR (if bit r 31 \<noteq> b then 0x04C11DB7 else 0)"

definition mac_hash_bin :: "u8 list \<Rightarrow> u32" where
  "mac_hash_bin mac = drop_bit 26 (NOT (fold lfsr_step (concat (map (\<lambda>b. map (bit b) [0..<8]) mac)) 0xFFFFFFFF))"

lemma bit_push_one: "bit (push_bit 1 r :: u32) i \<longleftrightarrow> 0 < i \<and> i < 32 \<and> bit r (i - 1)"
  unfolding bit_push_bit_iff by (cases i) auto

lemma bit_and_one: "bit (r AND 1 :: u32) i \<longleftrightarrow> i = 0 \<and> bit r 0"
  by (cases i) (simp_all only: bit_and_iff bit_1_iff, auto)

lemma bit_reversed_bit: "bit (bit_reversed r) i \<longleftrightarrow> i < 32 \<and> bit r (31 - i)"
proof -
  have "bit (fold (\<lambda>i rev. push_bit 1 rev OR (drop_bit i r AND 1)) [0..<n] 0) i \<longleftrightarrow> i < n \<and> i < 32 \<and> bit r (n - 1 - i)" for n i
  proof (induction n arbitrary: i)
    case (Suc n)
    have "bit (fold (\<lambda>i rev. push_bit 1 rev OR (drop_bit i r AND 1)) [0..<Suc n] 0) i \<longleftrightarrow>
        bit (push_bit 1 (fold (\<lambda>i rev. push_bit 1 rev OR (drop_bit i r AND 1)) [0..<n] 0)) i \<or> bit (drop_bit n r AND 1) i"
      by (simp only: upt_Suc fold_append comp_apply fold_simps bit_or_iff le0 if_True)
    then show ?case unfolding bit_push_one bit_and_one Suc by (cases i) (auto simp: bit_drop_bit_eq)
  qed simp
  from this [of 32] show ?thesis by (simp add: bit_reversed_def)
qed

lemma polynomials_reversed: "i < 32 \<Longrightarrow> bit (0xEDB88320 :: u32) i \<longleftrightarrow> bit (0x04C11DB7 :: u32) (31 - i)"
proof -
  have "\<forall>i \<in> set [0..<32]. bit (0xEDB88320 :: u32) i \<longleftrightarrow> bit (0x04C11DB7 :: u32) (31 - i)"
    by code_simp
  then show "i < 32 \<Longrightarrow> ?thesis" by simp
qed

lemma crc_bit_bit: "bit (crc_bit r) i \<longleftrightarrow> i < 32 \<and> (bit r (Suc i) \<noteq> (bit r 0 \<and> bit (0xEDB88320 :: u32) i))"
proof -
  have "r AND 1 = 0 \<longleftrightarrow> \<not> bit r 0" by (simp add: and_one_eq bit_0 even_iff_mod_2_eq_zero)
  then show ?thesis by (auto simp: crc_bit_def bit_xor_iff bit_drop_bit_eq dest: bit_imp_le_length)
qed

lemma lfsr_step_bit:
  "bit (lfsr_step b r) i \<longleftrightarrow> i < 32 \<and> ((0 < i \<and> bit r (i - 1)) \<noteq> ((bit r 31 \<noteq> b) \<and> bit (0x04C11DB7 :: u32) i))"
proof -
  have "bit (lfsr_step b r) i \<longleftrightarrow> bit (push_bit 1 r) i \<noteq> (bit r 31 \<noteq> b \<and> bit (0x04C11DB7 :: u32) i)"
    by (simp only: lfsr_step_def bit_xor_iff) simp
  moreover have "bit (0x04C11DB7 :: u32) i \<Longrightarrow> i < 32" by (auto dest: bit_imp_le_length)
  ultimately show ?thesis unfolding bit_push_one by blast
qed

lemma crc_bit_mirrors: "bit_reversed (crc_bit (r XOR of_bool b)) = lfsr_step b (bit_reversed r)"
proof (rule bit_eqI)
  fix i assume "possible_bit TYPE(32 word) i"
  then have i: "i < 32" by simp
  let ?q = "r XOR of_bool b"
  have "31 - i < 32" "31 - (31 - i) = i" using i by linarith+
  then have p: "bit (0xEDB88320 :: u32) (31 - i) \<longleftrightarrow> bit (0x04C11DB7 :: u32) i"
    using polynomials_reversed [of "31 - i"] by (simp only: simp_thms)
  have q: "bit ?q 0 \<longleftrightarrow> bit r 0 \<noteq> b" "bit ?q (Suc k) \<longleftrightarrow> bit r (Suc k)" for k
    by (simp_all add: bit_xor_iff bit_of_bool_iff)
  have "bit r (Suc (31 - i)) \<longleftrightarrow> 0 < i \<and> bit r (31 - (i - 1))"
  proof (cases i)
    case 0
    then show ?thesis by (auto dest: bit_imp_le_length)
  next
    case (Suc j)
    moreover have "Suc (31 - i) = 31 - (i - 1)" using i Suc by linarith
    ultimately show ?thesis by simp
  qed
  moreover have "i - 1 < 32" "31 - i < 32" using i by linarith+
  ultimately show "bit (bit_reversed (crc_bit ?q)) i \<longleftrightarrow> bit (lfsr_step b (bit_reversed r)) i"
    unfolding bit_reversed_bit crc_bit_bit lfsr_step_bit q p using i by simp
qed

lemma crc_bit_xor: "crc_bit (a XOR x) = crc_bit (a XOR of_bool (bit x 0)) XOR drop_bit 1 x"
  by (rule bit_eqI) (auto simp: crc_bit_bit bit_xor_iff bit_of_bool_iff bit_drop_bit_eq)

lemma crc_bits_one_by_one:
  "(crc_bit ^^ n) (r XOR x) = fold (\<lambda>j r. crc_bit (r XOR of_bool (bit x j))) [0..<n] r XOR drop_bit n x"
proof (induction n)
  case (Suc n)
  then show ?case
    using crc_bit_xor [of "fold (\<lambda>j r. crc_bit (r XOR of_bool (bit x j))) [0..<n] r" "drop_bit n x"]
    by (simp add: bit_drop_bit_eq)
qed simp

lemma fold_reversed:
  "bit_reversed (fold (\<lambda>j r. crc_bit (r XOR of_bool (bit x j))) js r) = fold lfsr_step (map (bit x) js) (bit_reversed r)"
  by (induction js arbitrary: r) (simp_all add: crc_bit_mirrors)

lemma crc_byte_mirrors: "bit_reversed (crc_byte b r) = fold lfsr_step (map (bit b) [0..<8]) (bit_reversed r)"
proof -
  have "drop_bit 8 (ucast b :: u32) = 0"
    by (rule bit_eqI) (auto simp: bit_drop_bit_eq bit_unsigned_iff dest: bit_imp_le_length)
  then have "crc_byte b r = fold (\<lambda>j r. crc_bit (r XOR of_bool (bit (ucast b :: u32) j))) [0..<8] r"
    unfolding crc_byte_def crc_bits_one_by_one by simp
  then have "bit_reversed (crc_byte b r) = fold lfsr_step (map (bit (ucast b :: u32)) [0..<8]) (bit_reversed r)"
    by (simp only: fold_reversed)
  moreover have "map (bit (ucast b :: u32)) [0..<8] = map (bit b) [0..<8]"
    by (rule map_cong) (auto simp: bit_unsigned_iff)
  ultimately show ?thesis by simp
qed

lemma crc_bytes_mirror:
  "bit_reversed (fold crc_byte data r) = fold lfsr_step (concat (map (\<lambda>b. map (bit b) [0..<8]) data)) (bit_reversed r)"
proof (induction data arbitrary: r)
  case (Cons b data)
  show ?case unfolding fold_Cons comp_apply Cons.IH crc_byte_mirrors by simp
qed simp

lemma bit_reversed_not: "bit_reversed (NOT r) = NOT (bit_reversed r)"
  by (rule bit_eqI) (auto simp: bit_reversed_bit bit_not_iff)

lemma mdns_mac: "eth_group_mac 0xFB0000E0 = [0x01, 0x00, 0x5E, 0, 0, 0xFB]"
  by (simp add: eth_group_mac_def)

lemma crc_bit_numeral:
  "crc_bit (numeral n) = (if (numeral n :: u32) AND 1 = 0 then drop_bit 1 (numeral n) else drop_bit 1 (numeral n) XOR 0xEDB88320)"
  by (simp add: crc_bit_def)

lemma crc_steps: "(crc_bit ^^ 8) x = crc_bit (crc_bit (crc_bit (crc_bit (crc_bit (crc_bit (crc_bit (crc_bit x)))))))"
  by (simp add: eval_nat_numeral)

lemma mdns_crc: "eth_crc32 [0x01, 0x00, 0x5E, 0, 0, 0xFB] = 2065899779"
  by (simp add: eth_crc32_def crc_byte_def crc_steps crc_bit_numeral)

lemma mdns_bin: "eth_group_bin 0xFB0000E0 = 48"
proof -
  have "bit_reversed 2065899779 = 3229926622" by code_simp
  then show ?thesis by (simp add: eth_group_bin_def mdns_mac mdns_crc)
qed

lemma top_six: "drop_bit 26 x AND 0x3F = drop_bit 26 x" for x :: u32
proof -
  have "0x3F = (mask 6 :: u32)" by (simp add: mask_eq_exp_minus_1)
  moreover have "bit x (26 + n) \<Longrightarrow> n < 6" for n using bit_imp_le_length [of x "26 + n"] by simp
  ultimately show ?thesis by (simp only: bit_eq_iff bit_and_iff bit_drop_bit_eq bit_mask_iff) auto
qed

lemma group_bin_less: "unat (eth_group_bin g) < 64"
proof -
  have "unat (take_bit 6 x) < 64" for x :: u32 using take_bit_nat_less_exp [of 6 "unat x"] by (simp add: unsigned_take_bit_eq)
  moreover have "0x3F = (mask 6 :: u32)" by (simp add: mask_eq_exp_minus_1)
  ultimately show ?thesis unfolding eth_group_bin_def by (simp only: take_bit_eq_mask [symmetric])
qed

lemma group_bin_eq: "eth_group_bin g = mac_hash_bin (eth_group_mac g)"
proof -
  have r: "bit_reversed 0xFFFFFFFF = 0xFFFFFFFF" by code_simp
  show ?thesis
    unfolding eth_group_bin_def mac_hash_bin_def eth_crc32_def top_six bit_reversed_not crc_bytes_mirror r ..
qed

text \<open>
  C17.  For every multicast group the bin the driver computes, from the table-free CRC, its
  complement and the reversal, is the bin the MAC looks the group's address up in; and the
  group of multicast DNS is in bin 48.
\<close>

theorem group_bin_is_hardware_bin:
  "eth_group_bin g = mac_hash_bin (eth_group_mac g) \<and> unat (eth_group_bin g) < 64 \<and> eth_group_bin 0xFB0000E0 = 48"
  using group_bin_eq group_bin_less mdns_bin by blast

section \<open>The multicast filter is exact\<close>

type_synonym filter_ops = "(mac_action \<times> u32) list"

definition filter_run :: "'d machine \<Rightarrow> filter_ops \<Rightarrow> 'd eth \<Rightarrow> 'd eth" where
  "filter_run M ops e = fold (\<lambda>(a, g) e. snd (eth_igmp_filter M g a e)) ops e"

definition joined_after :: "mac_action \<times> u32 \<Rightarrow> u32 multiset \<Rightarrow> u32 multiset" where
  "joined_after x J = (case x of (ADD_MAC_FILTER, g) \<Rightarrow> add_mset g J | (DEL_MAC_FILTER, g) \<Rightarrow> J - {#g#} | _ \<Rightarrow> J)"

text \<open>lwIP leaves only a group it has joined; at most 255 are joined at a time.\<close>

definition filter_op_ok :: "mac_action \<times> u32 \<Rightarrow> u32 multiset \<Rightarrow> bool" where
  "filter_op_ok x J = (case x of (ADD_MAC_FILTER, _) \<Rightarrow> size J < 255 | (DEL_MAC_FILTER, g) \<Rightarrow> g \<in># J | _ \<Rightarrow> True)"

fun filter_ops_ok :: "filter_ops \<Rightarrow> u32 multiset \<Rightarrow> bool" where
  "filter_ops_ok [] J = True"
| "filter_ops_ok (x # ops) J = (filter_op_ok x J \<and> filter_ops_ok ops (joined_after x J))"

text \<open>The MAC lets a multicast frame through when the bin of its address is set.\<close>

definition mac_passes :: "'d machine \<Rightarrow> 'd \<Rightarrow> u32 \<Rightarrow> bool" where
  "mac_passes M d g = (let b = unat (mac_hash_bin (eth_group_mac g)) in
     if b < 32 then bit (val M (REG ''ETH.MACHTLR'') d) b else bit (val M (REG ''ETH.MACHTHR'') d) (b - 32))"

definition in_bin :: "nat \<Rightarrow> u32 multiset \<Rightarrow> u32 multiset" where
  "in_bin b J = filter_mset (\<lambda>g. unat (eth_group_bin g) = b) J"

definition hash_counts :: "u32 multiset \<Rightarrow> u8 list \<Rightarrow> bool" where
  "hash_counts J hc \<longleftrightarrow> length hc = 64 \<and> (\<forall>b < 64. unat (hc ! b) = size (in_bin b J))"

definition hash_written :: "'d machine \<Rightarrow> 'd eth \<Rightarrow> bool" where
  "hash_written M e \<longleftrightarrow> (val M (REG ''ETH.MACHTLR'') (e_hw e), val M (REG ''ETH.MACHTHR'') (e_hw e)) = eth_hash_words (s_hash_count e)"

lemma bit_one_at: "bit (push_bit k 1 :: u32) i \<longleftrightarrow> i < 32 \<and> i = k"
  unfolding bit_push_bit_iff bit_1_iff by auto

lemma eth_hash_words_bits:
  "bit (fst (eth_hash_words hc)) i \<longleftrightarrow> i < 32 \<and> hc ! i \<noteq> 0"
  "bit (snd (eth_hash_words hc)) i \<longleftrightarrow> i < 32 \<and> hc ! (i + 32) \<noteq> 0"
proof -
  let ?f = "\<lambda>i (low :: u32, high :: u32). if hc ! i = 0 then (low, high) else if i < 32 then (low OR push_bit i 1, high)
    else (low, high OR push_bit (i - 32) 1)"
  have low: "bit (fst (?f n s)) i \<longleftrightarrow> bit (fst s) i \<or> i = n \<and> i < 32 \<and> hc ! n \<noteq> 0" for n s
    by (cases s) (simp add: bit_or_iff bit_one_at del: push_bit_of_1 push_bit_eq_mult; blast)
  have high: "bit (snd (?f n s)) i \<longleftrightarrow> bit (snd s) i \<or> i + 32 = n \<and> i < 32 \<and> hc ! n \<noteq> 0" for n s
    by (cases s) (auto simp: bit_or_iff bit_one_at simp del: push_bit_of_1)
  have "bit (fst (fold ?f xs s)) i \<longleftrightarrow> bit (fst s) i \<or> i \<in> set xs \<and> i < 32 \<and> hc ! i \<noteq> 0" for xs s
    by (induction xs arbitrary: s) (simp_all only: fold_simps low list.set, auto)
  moreover have "bit (snd (fold ?f xs s)) i \<longleftrightarrow> bit (snd s) i \<or> i + 32 \<in> set xs \<and> i < 32 \<and> hc ! (i + 32) \<noteq> 0" for xs s
    by (induction xs arbitrary: s) (simp_all only: fold_simps high list.set, auto)
  ultimately show "bit (fst (eth_hash_words hc)) i \<longleftrightarrow> i < 32 \<and> hc ! i \<noteq> 0"
    "bit (snd (eth_hash_words hc)) i \<longleftrightarrow> i < 32 \<and> hc ! (i + 32) \<noteq> 0"
    unfolding eth_hash_words_def by auto
qed

lemma eth_hash_words_zero: "eth_hash_words (replicate 64 0) = (0, 0)"
proof -
  have "fold (\<lambda>i (low :: u32, high :: u32). if replicate 64 (0 :: u8) ! i = 0 then (low, high)
      else if i < 32 then (low OR push_bit i 1, high) else (low, high OR push_bit (i - 32) 1)) [0..<64] = id"
    by (rule fold_id) (simp add: nth_replicate fun_eq_iff)
  then show ?thesis unfolding eth_hash_words_def by simp
qed

lemma hash_apply_written:
  assumes "stable M (REG ''ETH.MACHTLR'')" "stable M (REG ''ETH.MACHTHR'')"
  shows "hash_written M (eth_hash_apply M e)" "s_hash_count (eth_hash_apply M e) = s_hash_count e"
  using assms by (simp_all add: hash_written_def eth_hash_apply_def eth_do_def stable_simps split: prod.splits)

lemma hash_counts_join:
  assumes "hash_counts J hc" "size J < 255"
  shows "hc ! unat (eth_group_bin g) < 255" "hash_counts (add_mset g J) (hc[unat (eth_group_bin g) := hc ! unat (eth_group_bin g) + 1])"
proof -
  have "size (in_bin b J) \<le> size J" for b unfolding in_bin_def by (rule size_filter_mset_lesseq)
  then have l: "unat (hc ! b) < 255" if "b < 64" for b using assms that by (auto simp: hash_counts_def dest: le_less_trans)
  then show "hc ! unat (eth_group_bin g) < 255" using group_bin_less by (simp add: word_less_nat_alt)
  have "unat (hc ! b + 1) = Suc (unat (hc ! b))" if "b < 64" for b using l [OF that] by (subst unat_word_ariths) simp
  then show "hash_counts (add_mset g J) (hc[unat (eth_group_bin g) := hc ! unat (eth_group_bin g) + 1])"
    using assms(1) by (auto simp: hash_counts_def nth_list_update in_bin_def)
qed

lemma hash_counts_leave:
  assumes "hash_counts J hc" "g \<in># J"
  shows "hc ! unat (eth_group_bin g) > 0" "hash_counts (J - {#g#}) (hc[unat (eth_group_bin g) := hc ! unat (eth_group_bin g) - 1])"
proof -
  let ?b = "unat (eth_group_bin g)"
  have "g \<in># in_bin ?b J" using assms(2) by (simp add: in_bin_def)
  then have s: "0 < size (in_bin ?b J)" by (metis size_eq_0_iff_empty not_gr_zero empty_not_add_mset multi_member_split)
  moreover have n: "unat (hc ! ?b) = size (in_bin ?b J)" using assms(1) group_bin_less by (simp add: hash_counts_def)
  ultimately show "hc ! ?b > 0" by (simp add: word_less_nat_alt)
  then have d: "unat (hc ! ?b - 1) = size (in_bin ?b J) - 1" using n by (simp add: unat_minus_one)
  have "in_bin b (J - {#g#}) = (if b = ?b then in_bin b J - {#g#} else in_bin b J)" for b
    by (auto simp: in_bin_def)
  then show "hash_counts (J - {#g#}) (hc[?b := hc ! ?b - 1])"
    using assms(1) d \<open>g \<in># in_bin ?b J\<close> by (auto simp: hash_counts_def nth_list_update size_Diff_singleton)
qed

lemma filter_step:
  assumes "stable M (REG ''ETH.MACHTLR'')" "stable M (REG ''ETH.MACHTHR'')"
    and "hash_counts J (s_hash_count e)" "hash_written M e" "filter_op_ok x J"
  shows "let e' = snd (eth_igmp_filter M (snd x) (fst x) e) in hash_counts (joined_after x J) (s_hash_count e') \<and> hash_written M e'"
  using assms(3-5) hash_counts_join [OF assms(3), of "snd x"] hash_counts_leave [OF assms(3), of "snd x"]
  by (cases x; cases "fst x")
     (auto simp: eth_igmp_filter_def Let_def hash_apply_written [OF assms(1,2)] joined_after_def filter_op_ok_def)

lemma filter_run_keeps:
  assumes "stable M (REG ''ETH.MACHTLR'')" "stable M (REG ''ETH.MACHTHR'')"
    and "hash_counts J (s_hash_count e)" "hash_written M e" "filter_ops_ok ops J"
  shows "hash_counts (fold joined_after ops J) (s_hash_count (filter_run M ops e)) \<and> hash_written M (filter_run M ops e)"
  using assms(3-5)
proof (induction ops arbitrary: J e)
  case (Cons x ops)
  let ?e = "snd (eth_igmp_filter M (snd x) (fst x) e)"
  have "hash_counts (joined_after x J) (s_hash_count ?e)" "hash_written M ?e" "filter_ops_ok ops (joined_after x J)"
    using filter_step [OF assms(1,2) Cons.prems(1,2)] Cons.prems(3) by (simp_all add: Let_def)
  from Cons.IH [OF this] show ?case by (simp add: filter_run_def split_beta)
qed (simp add: filter_run_def)

text \<open>
  C16.  The interface hears exactly the multicast groups it must.  After any sequence of
  joins and leaves (leaves of joined groups, at most 255 joined at a time), starting from the
  cleared table and registers, the MAC passes a group's frames exactly when some joined group
  has the same bin; so a joined group is always heard, and leaving one never deafens another
  that collides with it.
\<close>

theorem multicast_filter_exact:
  assumes "stable M (REG ''ETH.MACHTLR'')" "stable M (REG ''ETH.MACHTHR'')"
    and "s_hash_count e = replicate 64 0" "val M (REG ''ETH.MACHTLR'') (e_hw e) = 0" "val M (REG ''ETH.MACHTHR'') (e_hw e) = 0"
    and "filter_ops_ok ops {#}"
  shows "mac_passes M (e_hw (filter_run M ops e)) g \<longleftrightarrow>
    (\<exists>h. h \<in># fold joined_after ops {#} \<and> eth_group_bin h = eth_group_bin g)"
proof -
  let ?J = "fold joined_after ops {#}" and ?e = "filter_run M ops e" and ?b = "unat (eth_group_bin g)"
  have "hash_written M e" using assms(3-5) by (simp add: hash_written_def eth_hash_words_zero)
  moreover have "hash_counts {#} (s_hash_count e)" using assms(3) by (simp add: hash_counts_def in_bin_def)
  ultimately have r: "hash_counts ?J (s_hash_count ?e)" "hash_written M ?e"
    using filter_run_keeps [OF assms(1,2) _ _ assms(6)] by blast+
  have b: "mac_hash_bin (eth_group_mac g) = eth_group_bin g" "?b < 64" using group_bin_eq group_bin_less by simp_all
  have w: "val M (REG ''ETH.MACHTLR'') (e_hw ?e) = fst (eth_hash_words (s_hash_count ?e))"
    "val M (REG ''ETH.MACHTHR'') (e_hw ?e) = snd (eth_hash_words (s_hash_count ?e))"
    using r(2) by (simp_all add: hash_written_def prod_eq_iff)
  have "\<not> ?b < 32 \<Longrightarrow> ?b - 32 < 32 \<and> ?b - 32 + 32 = ?b" using b(2) by linarith
  then have "mac_passes M (e_hw ?e) g \<longleftrightarrow> s_hash_count ?e ! ?b \<noteq> 0"
    unfolding mac_passes_def Let_def b(1) w eth_hash_words_bits by auto
  also have "\<dots> \<longleftrightarrow> size (in_bin ?b ?J) \<noteq> 0"
    using r(1) group_bin_less [of g] by (metis hash_counts_def unat_eq_0)
  also have "\<dots> \<longleftrightarrow> (\<exists>h. h \<in># ?J \<and> eth_group_bin h = eth_group_bin g)"
    by (auto simp: in_bin_def size_eq_0_iff_empty word_unat_eq_iff simp flip: set_mset_eq_empty_iff)
  finally show ?thesis .
qed

theorem multicast_filter_exact_witness:
  "mac_passes (sim_machine (\<lambda>_. None)) (e_hw (filter_run (sim_machine (\<lambda>_. None))
     [(ADD_MAC_FILTER, 0xFB0000E0), (ADD_MAC_FILTER, 0xFC0000E0), (DEL_MAC_FILTER, 0xFC0000E0)] (eth_idle sim_init))) 0xFB0000E0"
proof -
  have "filter_ops_ok [(ADD_MAC_FILTER, 0xFB0000E0), (ADD_MAC_FILTER, 0xFC0000E0), (DEL_MAC_FILTER, 0xFC0000E0)] {#}"
    by (simp add: filter_op_ok_def joined_after_def)
  moreover have "0xFB0000E0 \<in># fold joined_after [(ADD_MAC_FILTER, 0xFB0000E0), (ADD_MAC_FILTER, 0xFC0000E0), (DEL_MAC_FILTER, 0xFC0000E0)] {#}"
    by (simp add: joined_after_def)
  ultimately show ?thesis
    by (subst multicast_filter_exact)
      (auto simp: eth_idle_def sim_stable, auto simp: val_def sim_machine_def sim_init_def)
qed

end
