(* ===== verification/EthRings.thy ===== *)
theory EthRings
  imports Eth "HOL-Library.Sublist"
begin

text \<open>
  The Ethernet driver's receive ring against a DMA that fills it meanwhile: what the DMA and
  lwIP promise, and that frames are delivered in order, once, and none is forgotten.
\<close>

section \<open>Frames in, in order\<close>

text \<open>
  What the receive DMA promises, over a view of its state: \<open>v_pos\<close> is the ring index of the
  first descriptor it has given to the core, \<open>v_q\<close> the status words and contents of all it
  has given, \<open>v_pend\<close> that a receive interrupt is due or has left its flag, \<open>v_susp\<close> that the
  DMA has stopped for want of a descriptor, \<open>v_got\<close> what lwIP has been given and \<open>v_left\<close> how
  many frames the burst on the wire still has.
\<close>

record 'd view =
  v_pos :: "'d \<Rightarrow> nat"
  v_q :: "'d \<Rightarrow> (u32 \<times> u8 list) list"
  v_pend :: "'d \<Rightarrow> bool"
  v_susp :: "'d \<Rightarrow> bool"
  v_got :: "'d \<Rightarrow> u8 list list"
  v_left :: "'d \<Rightarrow> nat"

definition rx_desc :: "(string \<Rightarrow> u32) \<Rightarrow> nat \<Rightarrow> u32" where
  "rx_desc K i = K ''eth_rx_desc'' + 16 * word_of_nat i"

definition rx_buf :: "(string \<Rightarrow> u32) \<Rightarrow> nat \<Rightarrow> u32" where
  "rx_buf K i = K ''eth_rx_buf'' + K ''ETH_MAX_PACKET_SIZE'' * word_of_nat i"

text \<open>Frames may have arrived; each raises the interrupt.\<close>

definition arrived :: "'d view \<Rightarrow> 'd \<Rightarrow> (u32 \<times> u8 list) list \<Rightarrow> 'd \<Rightarrow> bool" where
  "arrived V d q d' \<longleftrightarrow> (\<exists>xs. v_q V d' = q @ xs \<and> (xs \<noteq> [] \<longrightarrow> v_pend V d') \<and> length xs + v_left V d' \<le> v_left V d)"

definition grows :: "'d view \<Rightarrow> 'd \<Rightarrow> 'd \<Rightarrow> bool" where
  "grows V d d' \<longleftrightarrow> v_pos V d' = v_pos V d \<and> v_got V d' = v_got V d \<and> (v_pend V d \<longrightarrow> v_pend V d') \<and> arrived V d (v_q V d) d'"

lemma grows_refl: "grows V d d"
  by (simp add: grows_def arrived_def)

lemma grows_trans: "grows V d d' \<Longrightarrow> grows V d' d'' \<Longrightarrow> grows V d d''"
  by (fastforce simp: grows_def arrived_def)

text \<open>
  Reads and writes let frames arrive; only the driver's store of the flag clears it; a
  descriptor given back becomes the last of the ring; the poll demand restarts the DMA, which
  stops again only with another interrupt.
\<close>

definition rx_dma :: "'d machine \<Rightarrow> (string \<Rightarrow> u32) \<Rightarrow> 'd view \<Rightarrow> bool" where
  "rx_dma M K V \<longleftrightarrow>
     (\<forall>r d. grows V d (snd (m_rd M r d))) \<and>
     (\<forall>c d. grows V d (m_call M c d)) \<and>
     (\<forall>r v d. r \<noteq> RX_PENDING \<longrightarrow> (\<forall>i < 12. r \<noteq> MEM32 (rx_desc K i)) \<longrightarrow> grows V d (m_wr M r v d)) \<and>
     (\<forall>v d. let d' = m_wr M RX_PENDING v d in
        v_pos V d' = v_pos V d \<and> v_got V d' = v_got V d \<and> arrived V d (v_q V d) d') \<and>
     (\<forall>v d. let d' = m_wr M (REG ''ETH.DMARPDR'') v d in v_susp V d' \<longrightarrow> v_pend V d') \<and>
     (\<forall>d. v_pos V d < 12) \<and>
     (\<forall>d. let v = fst (m_rd M (MEM32 (rx_desc K (v_pos V d))) d) in
        (case v_q V d of [] \<Rightarrow> v AND K ''ETH_DMARxDesc_OWN'' \<noteq> 0 | x # _ \<Rightarrow> v = fst x \<and> v AND K ''ETH_DMARxDesc_OWN'' = 0)) \<and>
     (\<forall>d. v_q V d \<noteq> [] \<longrightarrow> (let d' = m_wr M (MEM32 (rx_desc K (v_pos V d))) (K ''ETH_DMARxDesc_OWN'') d in
        v_pos V d' = Suc (v_pos V d) mod 12 \<and> v_got V d' = v_got V d \<and> (v_pend V d \<longrightarrow> v_pend V d') \<and> arrived V d (tl (v_q V d)) d')) \<and>
     (\<forall>i < 12. \<forall>d. fst (m_rd M (MEM32 (rx_desc K i + 8)) d) = rx_buf K i \<and>
        fst (m_rd M (MEM32 (rx_desc K i + 12)) d) = rx_desc K (Suc i mod 12))"

text \<open>
  What lwIP may do while the driver is in its receive loop: anything that leaves the receive
  ring alone, and calls of \<open>eth_rx_process\<close>.
\<close>

inductive stack_run :: "'d machine \<Rightarrow> (string \<Rightarrow> u32) \<Rightarrow> 'd stack \<Rightarrow> 'd view \<Rightarrow> 'd eth \<Rightarrow> 'd eth \<Rightarrow> bool" for M K S V where
  Return: "stack_run M K S V e e"
| Elsewhere: "grows V (e_hw e) (e_hw e1) \<Longrightarrow> eth_rx_cur e1 = eth_rx_cur e \<Longrightarrow> e_in_rx e1 = e_in_rx e \<Longrightarrow>
    stack_run M K S V e1 e2 \<Longrightarrow> stack_run M K S V e e2"
| Reenter: "eth_rx_process M K S e = Some e1 \<Longrightarrow> stack_run M K S V e1 e2 \<Longrightarrow> stack_run M K S V e e2"

text \<open>
  lwIP: \<open>pbuf_take\<close> copies out of the buffer at the front of the queue; the packet functions
  do nothing else to the driver; \<open>input\<close> may run the whole stack.
\<close>

definition stack_ok :: "'d machine \<Rightarrow> (string \<Rightarrow> u32) \<Rightarrow> 'd stack \<Rightarrow> 'd view \<Rightarrow> bool" where
  "stack_ok M K S V \<longleftrightarrow>
     (\<forall>f xs e. f \<in> {''pbuf_alloc'', ''pbuf_free''} \<longrightarrow> (let e1 = snd (S (Call f xs) e) in
        grows V (e_hw e) (e_hw e1) \<and> eth_rx_cur e1 = eth_rx_cur e \<and> e_in_rx e1 = e_in_rx e)) \<and>
     (\<forall>p len e. v_q V (e_hw e) \<noteq> [] \<longrightarrow> (let e1 = snd (S (Call ''pbuf_take'' [Num p, Num (rx_buf K (v_pos V (e_hw e))), Num len]) e);
          d = e_hw e; d1 = e_hw e1 in
        v_pos V d1 = v_pos V d \<and> v_got V d1 = v_got V d @ [take (unat len) (snd (hd (v_q V d)))] \<and> (v_pend V d \<longrightarrow> v_pend V d1) \<and>
        arrived V d (v_q V d) d1 \<and> eth_rx_cur e1 = eth_rx_cur e \<and> e_in_rx e1 = e_in_rx e)) \<and>
     (\<forall>p e. e_in_rx e \<longrightarrow> stack_run M K S V e (snd (S (Call ''netif->input'' [Num p]) e)))"

text \<open>A frame's bytes for lwIP: those of an accepted frame, without the checksum.\<close>

definition payload :: "(string \<Rightarrow> u32) \<Rightarrow> u32 \<times> u8 list \<Rightarrow> u8 list" where
  "payload K x = take (unat (rx_length K (fst x) - 4)) (snd x)"

definition in_step :: "(string \<Rightarrow> u32) \<Rightarrow> 'd view \<Rightarrow> 'd eth \<Rightarrow> bool" where
  "in_step K V e \<longleftrightarrow> eth_rx_cur e = rx_desc K (v_pos V (e_hw e))"

text \<open>A part of the loop that leaves the front of the queue where it is, and gives lwIP \<open>g\<close>.\<close>

definition holds :: "'d view \<Rightarrow> u8 list list \<Rightarrow> 'd eth \<Rightarrow> 'd eth \<Rightarrow> bool" where
  "holds V g e e' \<longleftrightarrow> (let d = e_hw e; d' = e_hw e' in
     v_pos V d' = v_pos V d \<and> v_got V d' = v_got V d @ g \<and> (v_pend V d \<longrightarrow> v_pend V d') \<and> arrived V d (v_q V d) d') \<and>
     eth_rx_cur e' = eth_rx_cur e \<and> e_in_rx e' = e_in_rx e"

lemma arrived_trans: "arrived V d q d' \<Longrightarrow> arrived V d' (v_q V d') d'' \<Longrightarrow> v_pend V d' \<longrightarrow> v_pend V d'' \<Longrightarrow> arrived V d q d''"
  by (fastforce simp: arrived_def)

lemma holds_trans: "holds V g e e' \<Longrightarrow> holds V h e' e'' \<Longrightarrow> holds V (g @ h) e e''"
  by (auto simp: holds_def Let_def intro: arrived_trans)

lemma holds_grows: "grows V (e_hw e) (e_hw e') \<Longrightarrow> eth_rx_cur e' = eth_rx_cur e \<Longrightarrow> e_in_rx e' = e_in_rx e \<Longrightarrow> holds V [] e e'"
  by (simp add: holds_def grows_def)

lemma holds_stat [simp]: "holds V g e (stat_up f e') = holds V g e e'" "holds V g (stat_up f e) e' = holds V g e e'"
  by (simp_all add: holds_def stat_up_def)

lemma rx_dma_grows:
  assumes "rx_dma M K V"
  shows "grows V d (snd (m_rd M r d))" "grows V d (m_call M c d)"
    "r \<noteq> RX_PENDING \<Longrightarrow> \<forall>i < 12. r \<noteq> MEM32 (rx_desc K i) \<Longrightarrow> grows V d (m_wr M r v d)"
  using assms unfolding rx_dma_def by blast+

lemma rx_dma_pos: "rx_dma M K V \<Longrightarrow> v_pos V d < 12"
  unfolding rx_dma_def by blast

lemma rx_dma_status:
  assumes "rx_dma M K V" "m_rd M (MEM32 (rx_desc K (v_pos V d))) d = (v, d')"
  shows "v AND K ''ETH_DMARxDesc_OWN'' = 0 \<longleftrightarrow> v_q V d \<noteq> []" "v_q V d = x # xs \<Longrightarrow> v = fst x"
proof -
  have "let v = fst (m_rd M (MEM32 (rx_desc K (v_pos V d))) d) in
        (case v_q V d of [] \<Rightarrow> v AND K ''ETH_DMARxDesc_OWN'' \<noteq> 0 | x # _ \<Rightarrow> v = fst x \<and> v AND K ''ETH_DMARxDesc_OWN'' = 0)"
    using assms(1) unfolding rx_dma_def by blast
  then show "v AND K ''ETH_DMARxDesc_OWN'' = 0 \<longleftrightarrow> v_q V d \<noteq> []" "v_q V d = x # xs \<Longrightarrow> v = fst x"
    using assms(2) by (auto simp: Let_def split: list.splits)
qed

lemma rx_dma_give:
  assumes "rx_dma M K V" "v_q V d = x # xs"
  shows "let d' = m_wr M (MEM32 (rx_desc K (v_pos V d))) (K ''ETH_DMARxDesc_OWN'') d in
     v_pos V d' = Suc (v_pos V d) mod 12 \<and> v_got V d' = v_got V d \<and> (v_pend V d \<longrightarrow> v_pend V d') \<and> arrived V d xs d'"
proof -
  have "v_q V d \<noteq> [] \<longrightarrow> (let d' = m_wr M (MEM32 (rx_desc K (v_pos V d))) (K ''ETH_DMARxDesc_OWN'') d in
     v_pos V d' = Suc (v_pos V d) mod 12 \<and> v_got V d' = v_got V d \<and> (v_pend V d \<longrightarrow> v_pend V d') \<and> arrived V d (tl (v_q V d)) d')"
    using assms(1) unfolding rx_dma_def by blast
  then show ?thesis using assms(2) by simp
qed

lemma rx_dma_links:
  assumes "rx_dma M K V" "i < 12"
  shows "fst (m_rd M (MEM32 (rx_desc K i + 8)) d) = rx_buf K i" "fst (m_rd M (MEM32 (rx_desc K i + 12)) d) = rx_desc K (Suc i mod 12)"
  using assms unfolding rx_dma_def by blast+

lemma holds_rd: "rx_dma M K V \<Longrightarrow> holds V [] e (snd (eth_rd M r e))"
  using rx_dma_grows(1) [of M K V "e_hw e" r] by (intro holds_grows) (simp_all add: eth_rd_def split_beta)

lemma rx_process_guarded: "e_in_rx e \<Longrightarrow> eth_rx_process M K S e = Some (snd (eth_rd M RX_PENDING e))"
  by (simp add: eth_rx_process_def eth_rd_def split: prod.splits)

lemma stack_run_holds:
  assumes "rx_dma M K V" "stack_run M K S V e e'"
  shows "e_in_rx e \<longrightarrow> holds V [] e e'"
  using assms(2)
proof induction
  case (Return e)
  then show ?case by (simp add: holds_grows grows_refl)
next
  case (Elsewhere e e1 e2)
  then show ?case using holds_trans [OF holds_grows [OF Elsewhere.hyps(1-3)]] by fastforce
next
  case (Reenter e e1 e2)
  show ?case
  proof
    assume r: "e_in_rx e"
    then have e1: "e1 = snd (eth_rd M RX_PENDING e)" using Reenter.hyps(1) by (simp add: rx_process_guarded)
    have h: "holds V [] e e1" unfolding e1 by (rule holds_rd [OF assms(1)])
    then have "e_in_rx e1" using r by (simp add: holds_def)
    then show "holds V [] e e2" using Reenter.IH holds_trans [OF h] by fastforce
  qed
qed

section \<open>The receive loop\<close>

definition never_short :: "'d stack \<Rightarrow> bool" where
  "never_short S \<longleftrightarrow> (\<forall>xs e. fst (S (Call ''pbuf_alloc'' xs) e) \<noteq> 0)"

lemma rx_frame_takes:
  assumes M: "rx_dma M K V" and S: "stack_ok M K S V" and q: "v_q V (e_hw e) = x # xs" and r: "e_in_rx e"
    and buf: "buf = rx_buf K (v_pos V (e_hw e))"
  shows "\<exists>g. holds V g e (eth_rx_frame S buf len e) \<and> (g = [] \<and> \<not> never_short S \<or> g = [take (unat len) (snd x)])"
proof -
  have packets: "holds V [] e (snd (S (Call f ys) e))" if "f \<in> {''pbuf_alloc'', ''pbuf_free''}" for f ys e
    using S that unfolding stack_ok_def Let_def by (intro holds_grows) blast+
  obtain p e1 where p: "S (Call ''pbuf_alloc'' [Sym ''PBUF_RAW'', Num len, Sym ''PBUF_POOL'']) e = (p, e1)" by force
  have h1: "holds V [] e e1" using packets [where f = "''pbuf_alloc''" and e = e and ys = "[Sym ''PBUF_RAW'', Num len, Sym ''PBUF_POOL'']"] p by simp
  show ?thesis
  proof (cases "p = 0")
    case True
    then have "\<not> never_short S" using p by (metis fst_conv never_short_def)
    then show ?thesis using True p h1 by (auto simp: eth_rx_frame_def)
  next
    case False
    let ?e2 = "lwip S ''pbuf_take'' [Num p, Num buf, Num len] e1"
    have q1: "v_pos V (e_hw e1) = v_pos V (e_hw e)" "\<exists>ys. v_q V (e_hw e1) = x # ys" "e_in_rx e1"
      using h1 q r by (auto simp: holds_def arrived_def Let_def)
    have "v_q V (e_hw e1) \<noteq> []" using q1(2) by force
    then have "holds V [take (unat len) (snd (hd (v_q V (e_hw e1))))] e1 ?e2"
      using S unfolding stack_ok_def Let_def holds_def lwip_def buf q1(1) [symmetric] by blast
    then have h2: "holds V [take (unat len) (snd x)] e ?e2"
      using holds_trans [OF h1] q1(2) by fastforce
    obtain v e3 where i: "S (Call ''netif->input'' [Num p]) (stat_up rx_frames_update ?e2) = (v, e3)" by force
    have "e_in_rx (stat_up rx_frames_update ?e2)" using h2 r by (simp add: holds_def stat_up_def)
    then have "stack_run M K S V (stat_up rx_frames_update ?e2) e3"
      using S i unfolding stack_ok_def by (metis snd_conv)
    then have "holds V [] ?e2 e3"
      using stack_run_holds [OF M] \<open>e_in_rx (stat_up rx_frames_update ?e2)\<close> by fastforce
    then have h3: "holds V [take (unat len) (snd x)] e e3" using holds_trans [OF h2] by fastforce
    have "holds V [take (unat len) (snd x)] e (lwip S ''pbuf_free'' [Num p] e3)"
      using holds_trans [OF h3 packets [where f = "''pbuf_free''" and ys = "[Num p]" and e = e3]] by (simp add: lwip_def)
    then show ?thesis using False p i h3 by (auto simp: eth_rx_frame_def)
  qed
qed

definition taken :: "(string \<Rightarrow> u32) \<Rightarrow> 'd stack \<Rightarrow> (u32 \<times> u8 list) list \<Rightarrow> u8 list list \<Rightarrow> bool" where
  "taken K S F G \<longleftrightarrow> (let good = map (payload K) (filter (\<lambda>x. rx_accepted K (fst x)) F)
     in subseq G good \<and> (never_short S \<longrightarrow> G = good))"

lemma frames_taken_Nil: "taken K S [] []"
  by (simp add: taken_def)

lemma frames_taken_append: "taken K S F G \<Longrightarrow> taken K S F' G' \<Longrightarrow> taken K S (F @ F') (G @ G')"
  by (auto simp: taken_def Let_def intro: list_emb_append_mono)

text \<open>From one turn to the next: the frames \<open>F\<close> left the queue and \<open>G\<close> reached lwIP.\<close>

definition moved :: "(string \<Rightarrow> u32) \<Rightarrow> 'd stack \<Rightarrow> 'd view \<Rightarrow> (u32 \<times> u8 list) list \<Rightarrow> u8 list list \<Rightarrow> 'd eth \<Rightarrow> 'd eth \<Rightarrow> bool" where
  "moved K S V F G e e' \<longleftrightarrow> in_step K V e' \<and> e_in_rx e' \<and> v_got V (e_hw e') = v_got V (e_hw e) @ G \<and> taken K S F G \<and>
     (v_pend V (e_hw e) \<longrightarrow> v_pend V (e_hw e')) \<and>
     (\<exists>xs. v_q V (e_hw e) @ xs = F @ v_q V (e_hw e') \<and> (xs \<noteq> [] \<longrightarrow> v_pend V (e_hw e')) \<and>
        length xs + v_left V (e_hw e') \<le> v_left V (e_hw e))"

lemma moved_trans:
  assumes "moved K S V F G e e'" "moved K S V F' G' e' e''"
  shows "moved K S V (F @ F') (G @ G') e e''"
proof -
  obtain xs where x: "v_q V (e_hw e) @ xs = F @ v_q V (e_hw e')" "xs \<noteq> [] \<longrightarrow> v_pend V (e_hw e')"
    "length xs + v_left V (e_hw e') \<le> v_left V (e_hw e)" using assms(1) by (auto simp: moved_def)
  obtain ys where y: "v_q V (e_hw e') @ ys = F' @ v_q V (e_hw e'')" "ys \<noteq> [] \<longrightarrow> v_pend V (e_hw e'')"
    "length ys + v_left V (e_hw e'') \<le> v_left V (e_hw e')" using assms(2) by (auto simp: moved_def)
  have "v_q V (e_hw e) @ (xs @ ys) = (F @ F') @ v_q V (e_hw e'')"
    using x(1) y(1) by (metis append.assoc)
  moreover have "xs @ ys \<noteq> [] \<longrightarrow> v_pend V (e_hw e'')" using x(2) y(2) assms(2) by (auto simp: moved_def)
  moreover have "length (xs @ ys) + v_left V (e_hw e'') \<le> v_left V (e_hw e)" using x(3) y(3) by simp
  ultimately show ?thesis using assms frames_taken_append by (auto simp: moved_def)
qed

lemma moved_stay:
  assumes "in_step K V e" "e_in_rx e" "holds V [] e e'"
  shows "moved K S V [] [] e e'"
  using assms by (auto simp: moved_def holds_def arrived_def in_step_def frames_taken_Nil Let_def)

lemma rx_one_moves:
  assumes M: "rx_dma M K V" and S: "stack_ok M K S V" and i: "in_step K V e" and r: "e_in_rx e" and q: "v_q V (e_hw e) = x # xs"
  shows "\<exists>G. moved K S V [x] G e (eth_rx_one M K S e)"
proof -
  obtain st e1 where e1: "eth_rd M (MEM32 (eth_rx_cur e)) e = (st, e1)" by force
  have h1: "holds V [] e e1" using holds_rd [OF M, of e "MEM32 (eth_rx_cur e)"] e1 by simp
  have st: "st = fst x" using rx_dma_status(2) [OF M] q e1 i by (auto simp: eth_rd_def in_step_def split: prod.splits)
  have q1: "v_pos V (e_hw e1) = v_pos V (e_hw e)" "\<exists>ys. v_q V (e_hw e1) = x # ys" "e_in_rx e1" "eth_rx_cur e1 = eth_rx_cur e"
    using h1 q r by (auto simp: holds_def arrived_def Let_def)
  let ?frame = "\<lambda>e. if rx_accepted K st
      then (case eth_rd M (MEM32 (eth_rx_cur e + 8)) e of (buf, e) \<Rightarrow> eth_rx_frame S buf (rx_length K st - 4) e)
      else stat_up rx_dropped_update e"
  have "\<exists>G. holds V G e1 (?frame e1) \<and> taken K S [x] G"
  proof (cases "rx_accepted K st")
    case True
    obtain b e2 where e2: "eth_rd M (MEM32 (eth_rx_cur e1 + 8)) e1 = (b, e2)" by force
    have h2: "holds V [] e1 e2" using holds_rd [OF M, of e1 "MEM32 (eth_rx_cur e1 + 8)"] e2 by simp
    have "b = rx_buf K (v_pos V (e_hw e2))"
      using rx_dma_links(1) [OF M rx_dma_pos [OF M], of "e_hw e1" "e_hw e1"] e2 h2 i q1(1,4)
      by (auto simp: eth_rd_def in_step_def holds_def Let_def split: prod.splits)
    moreover obtain ys where "v_q V (e_hw e2) = x # ys" "e_in_rx e2"
      using h2 q1 by (auto simp: holds_def arrived_def Let_def)
    ultimately obtain g where g: "holds V g e2 (eth_rx_frame S b (rx_length K st - 4) e2)"
      "g = [] \<and> \<not> never_short S \<or> g = [payload K x]"
      using rx_frame_takes [OF M S, of e2 x ys b "rx_length K st - 4"] by (auto simp: payload_def st)
    have "taken K S [x] g" using g(2) True by (auto simp: taken_def st)
    then show ?thesis using holds_trans [OF h2 g(1)] True e2 by auto
  next
    case False
    then show ?thesis using grows_refl [of V "e_hw e1"] by (auto simp: taken_def st intro!: exI [of _ "[]"] holds_grows)
  qed
  then obtain G where G: "holds V G e1 (?frame e1)" "taken K S [x] G" by blast
  define e2 where "e2 = ?frame e1"
  have h2: "holds V G e e2" using holds_trans [OF h1 G(1)] by (simp add: e2_def)
  obtain ys where q2: "v_pos V (e_hw e2) = v_pos V (e_hw e)" "v_q V (e_hw e2) = x # xs @ ys" "eth_rx_cur e2 = rx_desc K (v_pos V (e_hw e2))"
      "ys \<noteq> [] \<longrightarrow> v_pend V (e_hw e2)" "length ys + v_left V (e_hw e2) \<le> v_left V (e_hw e)"
    using h2 q i by (auto simp: holds_def arrived_def in_step_def Let_def)
  define d3 where "d3 = m_wr M (MEM32 (eth_rx_cur e2)) (K ''ETH_DMARxDesc_OWN'') (e_hw e2)"
  have g: "v_pos V d3 = Suc (v_pos V (e_hw e2)) mod 12" "v_got V d3 = v_got V (e_hw e2)" "v_pend V (e_hw e2) \<longrightarrow> v_pend V d3"
    "arrived V (e_hw e2) (xs @ ys) d3"
    using rx_dma_give [OF M q2(2)] by (simp_all add: d3_def q2(3) Let_def)
  define e4 where "e4 = e2\<lparr>e_hw := m_call M (Call ''fence'' []) d3\<rparr>"
  obtain p e5 where e5: "eth_rd M (MEM32 (eth_rx_cur e4 + 12)) e4 = (p, e5)" by force
  have c: "grows V d3 (e_hw e5)"
    using grows_trans [OF rx_dma_grows(2) [OF M] rx_dma_grows(1) [OF M]] e5 by (auto simp: e4_def eth_rd_def split: prod.splits) (metis snd_conv)
  have p: "p = rx_desc K (v_pos V (e_hw e5))"
    using rx_dma_links(2) [OF M rx_dma_pos [OF M], of "e_hw e2" "e_hw e4"] e5 c g(1) q2(3)
    by (auto simp: eth_rd_def e4_def grows_def split: prod.splits)
  have out: "eth_rx_one M K S e = e5\<lparr>eth_rx_cur := p\<rparr>"
    using e5 by (simp add: eth_rx_one_def e1 Let_def e2_def [symmetric] e4_def d3_def eth_do_def)
  have e5': "e_in_rx e5 = e_in_rx e2" using e5 by (auto simp: eth_rd_def e4_def split: prod.splits)
  have "arrived V (e_hw e2) (xs @ ys) (e_hw e5)" using g(4) c by (auto simp: grows_def intro: arrived_trans)
  then obtain zs where z: "v_q V (e_hw e5) = xs @ ys @ zs" "zs \<noteq> [] \<longrightarrow> v_pend V (e_hw e5)"
    "length zs + v_left V (e_hw e5) \<le> v_left V (e_hw e2)" by (auto simp: arrived_def)
  have pend: "v_pend V (e_hw e2) \<longrightarrow> v_pend V (e_hw e5)" using g(3) c by (auto simp: grows_def)
  have "v_got V (e_hw e5) = v_got V (e_hw e) @ G" "v_pend V (e_hw e) \<longrightarrow> v_pend V (e_hw e2)" "e_in_rx e2"
    using h2 g(2) c r by (auto simp: holds_def grows_def Let_def)
  then have "moved K S V [x] G e (e5\<lparr>eth_rx_cur := p\<rparr>)"
    unfolding moved_def using p e5' G(2) pend q q2(4,5) z
    by (auto simp: in_step_def intro!: exI [of _ "ys @ zs"])
  then show ?thesis unfolding out by blast
qed

lemma rx_loop_moves:
  assumes M: "rx_dma M K V" and S: "stack_ok M K S V" and "in_step K V e" "e_in_rx e"
  shows "\<exists>e' F G. eth_rx_loop M K S e = Some e' \<and> moved K S V F G e e' \<and> (v_q V (e_hw e') \<noteq> [] \<longrightarrow> v_pend V (e_hw e')) \<and>
    length (v_q V (e_hw e)) \<le> length F"
  using assms(3,4)
proof (induction "length (v_q V (e_hw e)) + v_left V (e_hw e)" arbitrary: e rule: less_induct)
  case less
  obtain v e1 where e1: "eth_rd M (MEM32 (eth_rx_cur e)) e = (v, e1)" by force
  have h1: "holds V [] e e1" using holds_rd [OF M, of e "MEM32 (eth_rx_cur e)"] e1 by simp
  then have m1: "moved K S V [] [] e e1" using less.prems by (intro moved_stay)
  have v: "v AND K ''ETH_DMARxDesc_OWN'' = 0 \<longleftrightarrow> v_q V (e_hw e) \<noteq> []"
    using rx_dma_status(1) [OF M] e1 less.prems(1) by (auto simp: eth_rd_def in_step_def split: prod.splits)
  show ?case
  proof (cases "v_q V (e_hw e)")
    case Nil
    then have "v_q V (e_hw e1) \<noteq> [] \<longrightarrow> v_pend V (e_hw e1)" using h1 by (auto simp: holds_def arrived_def Let_def)
    moreover have "eth_rx_loop M K S e = Some e1" using v Nil e1 by (subst eth_rx_loop.simps) simp
    ultimately show ?thesis using m1 Nil by (intro exI [of _ e1] exI [of _ "[]"]) simp
  next
    case (Cons x xs)
    obtain ys where q1: "v_q V (e_hw e1) = x # xs @ ys" "length ys + v_left V (e_hw e1) \<le> v_left V (e_hw e)"
      using h1 Cons by (auto simp: holds_def arrived_def Let_def)
    have s1: "in_step K V e1" "e_in_rx e1" using m1 by (simp_all add: moved_def)
    obtain G where m2: "moved K S V [x] G e1 (eth_rx_one M K S e1)" using rx_one_moves [OF M S s1 q1(1)] by blast
    let ?e2 = "eth_rx_one M K S e1"
    obtain zs where z: "v_q V (e_hw e1) @ zs = [x] @ v_q V (e_hw ?e2)" "length zs + v_left V (e_hw ?e2) \<le> v_left V (e_hw e1)"
      using m2 unfolding moved_def by blast
    have q2: "v_q V (e_hw ?e2) = xs @ ys @ zs" using z(1) q1(1) by simp
    with z(2) have "length (v_q V (e_hw ?e2)) + v_left V (e_hw ?e2) < length (v_q V (e_hw e)) + v_left V (e_hw e)"
      using q1(2) Cons by simp
    from less.hyps [OF this] m2 obtain e' F G' where
      r: "eth_rx_loop M K S ?e2 = Some e'" "moved K S V F G' ?e2 e'" "v_q V (e_hw e') \<noteq> [] \<longrightarrow> v_pend V (e_hw e')"
        "length (v_q V (e_hw ?e2)) \<le> length F"
      by (auto simp: moved_def)
    have "eth_rx_loop M K S e = Some e'" using v Cons e1 r(1) by (subst eth_rx_loop.simps) simp
    moreover have "length (v_q V (e_hw e)) \<le> length ([] @ [x] @ F)" using r(4) q2 Cons by simp
    ultimately show ?thesis using moved_trans [OF m1 moved_trans [OF m2 r(2)]] r(3) by blast
  qed
qed

text \<open>
  C7.  One call of the background hook takes what has arrived, in order and once each, and
  forgets nothing.  Whatever arrives while it runs and whatever lwIP does with a packet
  (including calling the hook again): it returns; the frames \<open>F\<close> it took are the first in the
  queue, lwIP received the good ones among them, without their checksums and in that order
  (all of them, if packets do not run out); the driver and the DMA agree on the next
  descriptor; a frame still waiting has its interrupt or its flag, so the next call takes
  it; and the DMA is not left stopped without one.
\<close>

theorem rx_in_order_none_forgotten:
  assumes "rx_dma M K V" "stack_ok M K S V" "in_step K V e" "\<not> e_in_rx e" "val M RX_PENDING (e_hw e) \<noteq> 0"
  shows "\<exists>e' F G xs. eth_rx_process M K S e = Some e' \<and> in_step K V e' \<and> \<not> e_in_rx e' \<and>
    v_q V (e_hw e) @ xs = F @ v_q V (e_hw e') \<and> prefix (v_q V (e_hw e)) F \<and>
    v_got V (e_hw e') = v_got V (e_hw e) @ G \<and> taken K S F G \<and>
    (v_q V (e_hw e') \<noteq> [] \<or> v_susp V (e_hw e') \<longrightarrow> v_pend V (e_hw e'))"
proof -
  note M = assms(1)
  obtain v e1 where e1: "eth_rd M RX_PENDING e = (v, e1)" by force
  have v: "v \<noteq> 0" using e1 assms(5) by (auto simp: eth_rd_def val_def split: prod.splits)
  have h1: "holds V [] e e1" using holds_rd [OF M, of e RX_PENDING] e1 by simp
  define e2 where "e2 = eth_do (m_wr M RX_PENDING 0) (e1\<lparr>e_in_rx := True\<rparr>)"
  have "let d' = m_wr M RX_PENDING 0 (e_hw e1) in
        v_pos V d' = v_pos V (e_hw e1) \<and> v_got V d' = v_got V (e_hw e1) \<and> arrived V (e_hw e1) (v_q V (e_hw e1)) d'"
    using M unfolding rx_dma_def by blast
  then obtain us where u: "v_pos V (e_hw e2) = v_pos V (e_hw e)" "v_got V (e_hw e2) = v_got V (e_hw e)"
      "v_q V (e_hw e2) = v_q V (e_hw e) @ us"
    using h1 by (auto simp: e2_def eth_do_def holds_def arrived_def Let_def)
  have s2: "in_step K V e2" "e_in_rx e2"
    using assms(3) h1 u(1) by (simp_all add: in_step_def e2_def eth_do_def holds_def)
  obtain e3 F G where r: "eth_rx_loop M K S e2 = Some e3" "moved K S V F G e2 e3" "v_q V (e_hw e3) \<noteq> [] \<longrightarrow> v_pend V (e_hw e3)"
    "length (v_q V (e_hw e2)) \<le> length F"
    using rx_loop_moves [OF M assms(2) s2] by blast
  define e4 where "e4 = eth_do (m_wr M (REG ''ETH.DMARPDR'') 0) e3"
  have h4: "grows V (e_hw e3) (e_hw e4)"
    unfolding e4_def eth_do_def by (simp add: rx_dma_grows(3) [OF M] RX_PENDING_def)
  have "let d' = m_wr M (REG ''ETH.DMARPDR'') 0 (e_hw e3) in v_susp V d' \<longrightarrow> v_pend V d'"
    using M unfolding rx_dma_def by blast
  then have susp: "v_susp V (e_hw e4) \<longrightarrow> v_pend V (e_hw e4)" by (simp add: e4_def eth_do_def Let_def)
  let ?e' = "e4\<lparr>e_in_rx := False\<rparr>"
  have run: "eth_rx_process M K S e = Some ?e'"
    using v assms(4) e1 h1 r(1) by (simp add: eth_rx_process_def eth_rx_drain_def e2_def [symmetric] e4_def [symmetric] holds_def)
  obtain ws where w: "v_q V (e_hw e2) @ ws = F @ v_q V (e_hw e3)" using r(2) unfolding moved_def by blast
  obtain zs where z: "v_q V (e_hw e4) = v_q V (e_hw e3) @ zs" "zs \<noteq> [] \<longrightarrow> v_pend V (e_hw e4)"
    using h4 by (auto simp: grows_def arrived_def)
  have t: "v_q V (e_hw e) @ (us @ ws @ zs) = F @ v_q V (e_hw ?e')" using w z(1) u(3) by (metis append.assoc eth.select_convs(1) eth.update_convs(8) eth.surjective)
  have "length (v_q V (e_hw e)) \<le> length F" using r(4) u(3) by simp
  then have p: "prefix (v_q V (e_hw e)) F" using t by (metis prefixI prefix_length_prefix)
  have "in_step K V ?e'" "v_got V (e_hw ?e') = v_got V (e_hw e) @ G" "taken K S F G"
    "v_q V (e_hw ?e') \<noteq> [] \<or> v_susp V (e_hw ?e') \<longrightarrow> v_pend V (e_hw ?e')"
    using r(2,3) h4 u(2) z susp by (auto simp: moved_def grows_def in_step_def e4_def eth_do_def)
  with run t p show ?thesis by (intro exI [of _ ?e'] exI [of _ F] exI [of _ G] exI [of _ "us @ ws @ zs"]) simp
qed

text \<open>A network card with a burst of frames on its wire; descriptors are at multiples of 16.\<close>

record nic =
  n_pos :: nat
  n_q :: "(u32 \<times> u8 list) list"
  n_wire :: "(u32 \<times> u8 list) list"
  n_pend :: bool
  n_got :: "u8 list list"

definition nic_K :: "string \<Rightarrow> u32" where
  "nic_K n = (if n = ''ETH_DMARxDesc_OWN'' then 0x80000000 else if n = ''ETH_DMARxDesc_FS'' then 0x200
     else if n = ''ETH_DMARxDesc_LS'' then 0x100 else if n = ''ETH_DMARxDesc_ES'' then 0x8000 else if n = ''ETH_DMARxDesc_FL'' then 0x3FFF0000
     else if n = ''ETH_MAX_PACKET_SIZE'' then 1524 else if n = ''eth_rx_buf'' then 0x1000 else 0)"

definition nic_arrive :: "nic \<Rightarrow> nic" where
  "nic_arrive d = (case n_wire d of [] \<Rightarrow> d
     | x # xs \<Rightarrow> if length (n_q d) < 12 then d\<lparr>n_q := n_q d @ [x], n_wire := xs, n_pend := True\<rparr> else d)"

definition nic_queue :: "nic \<Rightarrow> (u32 \<times> u8 list) list" where
  "nic_queue d = map (\<lambda>(s, b). (s AND 0x7FFFFFFF, b)) (n_q d)"

definition nic_read :: "reg \<Rightarrow> nic \<Rightarrow> u32" where
  "nic_read r d = (case r of
     MEM32 a \<Rightarrow> (let i = unat a div 16 in
       if unat a mod 16 = 8 then rx_buf nic_K i else if unat a mod 16 = 12 then rx_desc nic_K (Suc i mod 12)
       else if i = n_pos d mod 12 then (case nic_queue d of [] \<Rightarrow> 0x80000000 | x # _ \<Rightarrow> fst x) else 0x80000000)
   | _ \<Rightarrow> if n_pend d then 1 else 0)"

definition nic_write :: "reg \<Rightarrow> u32 \<Rightarrow> nic \<Rightarrow> nic" where
  "nic_write r v d =
     (if r = RX_PENDING then d\<lparr>n_pend := v \<noteq> 0\<rparr>
      else if r = MEM32 (rx_desc nic_K (n_pos d mod 12)) \<and> n_q d \<noteq> [] then d\<lparr>n_q := tl (n_q d), n_pos := Suc (n_pos d mod 12)\<rparr>
      else d)"

definition nic_machine :: "nic machine" where
  "nic_machine = \<lparr>m_rd = (\<lambda>r d. (nic_read r d, nic_arrive d)), m_wr = (\<lambda>r v d. nic_arrive (nic_write r v d)),
     m_millis = (\<lambda>d. (0, d)), m_call = (\<lambda>c. nic_arrive), m_ask = (\<lambda>c d. (0, d))\<rparr>"

definition nic_view :: "nic view" where
  "nic_view = \<lparr>v_pos = (\<lambda>d. n_pos d mod 12), v_q = nic_queue, v_pend = n_pend, v_susp = (\<lambda>_. False), v_got = n_got,
     v_left = (\<lambda>d. length (n_wire d))\<rparr>"

fun nic_stack :: "nic stack" where
  "nic_stack (Call f xs) e =
     (if f = ''pbuf_alloc'' then (1, e)
      else case xs of
        [_, _, Num n] \<Rightarrow> (0, if f = ''pbuf_take'' then eth_do (\<lambda>d. d\<lparr>n_got := n_got d @ [take (unat n) (snd (hd (nic_queue d)))]\<rparr>) e else e)
      | _ \<Rightarrow> (0, e))"

definition nic_frame :: "u8 list \<Rightarrow> u32 \<times> u8 list" where
  "nic_frame b = (0x300 OR push_bit 16 (word_of_nat (length b)), b)"

definition nic_eth :: "nic eth" where
  "nic_eth = eth_idle \<lparr>n_pos = 0, n_q = [nic_frame [1, 2, 3, 4, 5, 6]],
     n_wire = [nic_frame [7, 8, 9, 10, 11], (0x8300, []), nic_frame [1, 1, 1, 1, 1]], n_pend = True, n_got = []\<rparr>"

lemma nic_arrives:
  "v_pos nic_view (nic_arrive d) = v_pos nic_view d" "v_got nic_view (nic_arrive d) = v_got nic_view d"
  "v_pend nic_view d \<longrightarrow> v_pend nic_view (nic_arrive d)" "arrived nic_view d (v_q nic_view d) (nic_arrive d)"
  by (auto simp: nic_view_def nic_arrive_def nic_queue_def arrived_def split: list.splits)

lemma nic_arrived:
  assumes "v_left nic_view d' = v_left nic_view d"
  shows "arrived nic_view d (v_q nic_view d') (nic_arrive d')"
  using nic_arrives(4) [of d'] assms by (simp add: arrived_def)

lemma nic_grows: "grows nic_view d (nic_arrive d)"
  using nic_arrives [of d] by (simp add: grows_def)

lemma nic_desc: "i < 12 \<Longrightarrow> rx_desc nic_K i = word_of_nat (16 * i)" "i < 12 \<Longrightarrow> unat (rx_desc nic_K i) = 16 * i"
  "i < 12 \<Longrightarrow> unat (rx_desc nic_K i + 8) = 16 * i + 8" "i < 12 \<Longrightarrow> unat (rx_desc nic_K i + 12) = 16 * i + 12"
proof -
  assume i: "i < 12"
  show d: "rx_desc nic_K i = word_of_nat (16 * i)" by (simp add: rx_desc_def nic_K_def)
  show u: "unat (rx_desc nic_K i) = 16 * i" unfolding d using i by (simp only: unsigned_of_nat of_nat_id) (simp add: take_bit_nat_eq_self)
  show "unat (rx_desc nic_K i + 8) = 16 * i + 8" "unat (rx_desc nic_K i + 12) = 16 * i + 12"
    using u i by (simp_all add: unat_word_ariths)
qed

lemma nic_read_status:
  assumes "nic_read (MEM32 (rx_desc nic_K (n_pos d mod 12))) d = v"
  shows "case nic_queue d of [] \<Rightarrow> v AND 0x80000000 \<noteq> 0 | x # _ \<Rightarrow> v = fst x \<and> v AND 0x80000000 = 0"
proof -
  have "(s AND 0x7FFFFFFF) AND 0x80000000 = (0 :: u32)" for s by (simp add: and.assoc)
  then have "x \<in> set (nic_queue d) \<Longrightarrow> fst x AND 0x80000000 = 0" for x by (auto simp: nic_queue_def)
  moreover have "v = (case nic_queue d of [] \<Rightarrow> 0x80000000 | x # _ \<Rightarrow> fst x)"
    using assms nic_desc(2) [of "n_pos d mod 12"] by (simp add: nic_read_def Let_def)
  ultimately show ?thesis by (simp split: list.splits)
qed

lemma nic_write_status:
  assumes "nic_queue d \<noteq> []"
  shows "nic_write (MEM32 (rx_desc nic_K (n_pos d mod 12))) v d = d\<lparr>n_q := tl (n_q d), n_pos := Suc (n_pos d mod 12)\<rparr>"
  using assms by (simp add: nic_write_def RX_PENDING_def nic_queue_def)

lemma nic_dma: "rx_dma nic_machine nic_K nic_view"
proof -
  have rd: "m_rd nic_machine = (\<lambda>r d. (nic_read r d, nic_arrive d))" and wr: "m_wr nic_machine = (\<lambda>r v d. nic_arrive (nic_write r v d))"
    and call: "m_call nic_machine = (\<lambda>c. nic_arrive)" by (simp_all add: nic_machine_def)
  have v: "v_pos nic_view d = n_pos d mod 12" "v_q nic_view d = nic_queue d" "v_got nic_view d = n_got d" "v_pend nic_view d = n_pend d"
    "v_left nic_view d = length (n_wire d)" for d by (simp_all add: nic_view_def)
  have other: "grows nic_view d (nic_arrive (nic_write r v d))" if "r \<noteq> RX_PENDING" "\<forall>i < 12. r \<noteq> MEM32 (rx_desc nic_K i)" for r v d
    using that nic_grows by (auto simp: nic_write_def)
  have pending: "let d' = nic_arrive (nic_write RX_PENDING v d) in
      v_pos nic_view d' = v_pos nic_view d \<and> v_got nic_view d' = v_got nic_view d \<and> arrived nic_view d (v_q nic_view d) d'" for v d
    using nic_arrives [of "d\<lparr>n_pend := v \<noteq> 0\<rparr>"] nic_arrived [of "d\<lparr>n_pend := v \<noteq> 0\<rparr>" d]
    by (simp add: nic_write_def v nic_queue_def Let_def)
  have give: "let d' = nic_arrive (nic_write (MEM32 (rx_desc nic_K (v_pos nic_view d))) w d) in
      v_pos nic_view d' = Suc (v_pos nic_view d) mod 12 \<and> v_got nic_view d' = v_got nic_view d \<and>
      (v_pend nic_view d \<longrightarrow> v_pend nic_view d') \<and> arrived nic_view d (tl (v_q nic_view d)) d'" if "v_q nic_view d \<noteq> []" for w d
  proof -
    let ?d = "d\<lparr>n_q := tl (n_q d), n_pos := Suc (n_pos d mod 12)\<rparr>"
    have "nic_write (MEM32 (rx_desc nic_K (v_pos nic_view d))) w d = ?d" using nic_write_status [of d w] that by (simp add: v)
    moreover have "nic_queue ?d = tl (nic_queue d)" by (simp add: nic_queue_def map_tl)
    ultimately show ?thesis using nic_arrives [of ?d] nic_arrived [of ?d d] by (simp add: v Let_def)
  qed
  have link: "nic_read (MEM32 (rx_desc nic_K i + 8)) d = rx_buf nic_K i" "nic_read (MEM32 (rx_desc nic_K i + 12)) d = rx_desc nic_K (Suc i mod 12)"
    if "i < 12" for i d
    using nic_desc(3,4) [OF that] by (simp_all add: nic_read_def)
  have own: "nic_K ''ETH_DMARxDesc_OWN'' = 0x80000000" by (simp add: nic_K_def)
  show ?thesis
    unfolding rx_dma_def rd wr call fst_conv snd_conv own
    using nic_grows other pending give link nic_read_status
    by (intro conjI allI impI) (simp_all add: Let_def v nic_view_def)
qed

lemma nic_stack_ok: "stack_ok nic_machine nic_K nic_stack nic_view"
proof -
  have same: "snd (nic_stack (Call f xs) e) = e" if "f \<noteq> ''pbuf_take''" for f xs e
    using that by (cases "(Call f xs, e)" rule: nic_stack.cases) (auto split: list.splits arg.splits)
  have take: "snd (nic_stack (Call ''pbuf_take'' [Num p, Num b, Num n]) e) =
      eth_do (\<lambda>d. d\<lparr>n_got := n_got d @ [take (unat n) (snd (hd (nic_queue d)))]\<rparr>) e" for p b n e
    by simp
  show ?thesis
    unfolding stack_ok_def take
    by (simp add: same grows_refl stack_run.Return Let_def eth_do_def nic_view_def arrived_def nic_queue_def del: nic_stack.simps)
qed

theorem rx_in_order_none_forgotten_witness:
  "\<exists>e' F G xs. eth_rx_process nic_machine nic_K nic_stack nic_eth = Some e' \<and> in_step nic_K nic_view e' \<and> \<not> e_in_rx e' \<and>
    nic_queue (e_hw nic_eth) @ xs = F @ nic_queue (e_hw e') \<and> prefix (nic_queue (e_hw nic_eth)) F \<and>
    n_got (e_hw e') = G \<and> taken nic_K nic_stack F G"
proof -
  have "in_step nic_K nic_view nic_eth" "\<not> e_in_rx nic_eth" "val nic_machine RX_PENDING (e_hw nic_eth) \<noteq> 0" "n_got (e_hw nic_eth) = []"
    by (simp_all add: in_step_def nic_view_def nic_eth_def eth_idle_def rx_desc_def nic_K_def val_def nic_machine_def nic_read_def RX_PENDING_def)
  from rx_in_order_none_forgotten [OF nic_dma nic_stack_ok this(1-3)] this(4) show ?thesis
    unfolding nic_view_def view.simps append_Nil by (elim exE conjE, intro exI conjI) (assumption | simp)+
qed

text \<open>Sending a packet is one of the things lwIP may do from \<open>input\<close>: it leaves the receive ring alone.\<close>

lemma tx_kick_grows:
  assumes M: "rx_dma M K V" and apart: "\<forall>i < 12. a \<noteq> rx_desc K i \<and> a + 4 \<noteq> rx_desc K i"
  shows "grows V d (tx_kick M K a len d)"
proof -
  have wr: "grows V d (m_wr M (MEM32 b) v d)" if "b \<in> {a, a + 4}" for b v d
    using rx_dma_grows(3) [OF M, of "MEM32 b" d v] apart that by (auto simp: RX_PENDING_def)
  have reg: "grows V d (m_wr M (REG ''ETH.DMASR'') v d)" "grows V d (m_wr M (REG ''ETH.DMATPDR'') v d)" for v d
    using rx_dma_grows(3) [OF M, of "REG ''ETH.DMASR''" d v] rx_dma_grows(3) [OF M, of "REG ''ETH.DMATPDR''" d v] by (simp_all add: RX_PENDING_def)
  have own: "grows V d (m_or M (MEM32 a) v d)" for v d
    unfolding m_or_eq by (rule grows_trans [OF rx_dma_grows(1) [OF M] wr]) simp
  have a4: "grows V d (m_wr M (MEM32 (a + 4)) v d)" for v d by (rule wr) simp
  show ?thesis
    unfolding tx_kick_def do_all.simps
    by (rule grows_trans [OF grows_trans [OF grows_trans [OF grows_trans [OF a4 own] rx_dma_grows(2) [OF M]] reg(1)] reg(2)])
qed

lemma tx_queue_elsewhere:
  assumes M: "rx_dma M K V"
    and copy: "\<And>xs e. let e1 = snd (S (Call ''pbuf_copy_partial'' xs) e) in holds V [] e e1 \<and> eth_tx_cur e1 = eth_tx_cur e"
    and apart: "\<forall>i < 12. eth_tx_cur e \<noteq> rx_desc K i \<and> eth_tx_cur e + 4 \<noteq> rx_desc K i"
  shows "holds V [] e (snd (tx_queue M K S p n e))"
proof -
  obtain b e1 where b: "eth_rd M (MEM32 (eth_tx_cur e + 8)) e = (b, e1)" by force
  obtain m e2 where m: "S (Call ''pbuf_copy_partial'' [Num p, Num b, Num (ucast n), Num 0]) e1 = (m, e2)" by force
  have "holds V [] e e1" using holds_rd [OF M, of e "MEM32 (eth_tx_cur e + 8)"] b by simp
  moreover have "holds V [] e1 e2" "eth_tx_cur e2 = eth_tx_cur e1"
    using copy [of "[Num p, Num b, Num (ucast n), Num 0]" e1] m by (simp_all add: Let_def)
  moreover have "eth_tx_cur e1 = eth_tx_cur e" using b by (auto simp: eth_rd_def split: prod.splits)
  ultimately have h2: "holds V [] e e2" "eth_tx_cur e2 = eth_tx_cur e"
    using holds_trans [of V "[]" e e1 "[]" e2] by simp_all
  define e3 where "e3 = stat_up tx_frames_update (eth_do (tx_kick M K (eth_tx_cur e2) (ucast m)) e2)"
  have "holds V [] e2 e3"
    unfolding e3_def by (simp add: holds_grows eth_do_def tx_kick_grows [OF M] apart h2(2))
  from holds_trans [OF h2(1) this] have h3: "holds V [] e e3" by simp
  obtain nx e4 where nx: "eth_rd M (MEM32 (eth_tx_cur e2 + 12)) e3 = (nx, e4)" by force
  have "holds V [] e3 e4" using holds_rd [OF M, of e3 "MEM32 (eth_tx_cur e2 + 12)"] nx by simp
  from holds_trans [OF h3 this] have "holds V [] e (e4\<lparr>eth_tx_cur := nx\<rparr>)" by (simp add: holds_def)
  then show ?thesis using h2(1) nx by (auto simp: tx_queue_def b m Let_def e3_def)
qed

lemma output_elsewhere:
  assumes M: "rx_dma M K V" and clk: "\<And>d. grows V d (snd (m_millis M d))"
    and copy: "\<And>xs e. let e1 = snd (S (Call ''pbuf_copy_partial'' xs) e) in holds V [] e e1 \<and> eth_tx_cur e1 = eth_tx_cur e"
    and apart: "\<forall>i < 12. eth_tx_cur e \<noteq> rx_desc K i \<and> eth_tx_cur e + 4 \<noteq> rx_desc K i"
    and r: "eth_netif_output M K S p n e = Some (r, e')"
  shows "holds V [] e e'"
proof (cases "e_link_up e \<and> \<not> K ''ETH_MAX_PACKET_SIZE'' < ucast n")
  case False
  then have "e' = e" using r by (auto simp: eth_netif_output_def split: if_splits)
  then show ?thesis by (simp add: holds_grows grows_refl)
next
  case True
  obtain t d1 where t: "m_millis M (e_hw e) = (t, d1)" by force
  obtain x d2 where x: "poll (tx_free M K (eth_tx_cur e)) (m_millis M) (\<lambda>u. 0 \<le> sint (u - (t + 5))) d1 = Some (x, d2)"
  proof (cases "poll (tx_free M K (eth_tx_cur e)) (m_millis M) (\<lambda>u. 0 \<le> sint (u - (t + 5))) d1")
    case None
    then show ?thesis using r t True by (simp add: eth_netif_output_def)
  next
    case (Some y)
    then show ?thesis by (intro that [of "fst y" "snd y"]) simp
  qed
  have "grows V (e_hw e) d2"
  proof (rule poll_inv [OF x, where P = "grows V (e_hw e)"])
    have "snd (tx_free M K (eth_tx_cur e) d) = snd (m_rd M (MEM32 (eth_tx_cur e)) d)" for d by (simp add: tx_free_def split_beta)
    then show "\<forall>d. grows V (e_hw e) d \<longrightarrow> grows V (e_hw e) (snd (tx_free M K (eth_tx_cur e) d))"
      by (simp add: grows_trans [OF _ rx_dma_grows(1) [OF M]])
    show "\<forall>d. grows V (e_hw e) d \<longrightarrow> grows V (e_hw e) (snd (m_millis M d))" by (intro allI impI grows_trans [OF _ clk])
    show "grows V (e_hw e) d1" using clk [of "e_hw e"] t by simp
  qed
  then have h1: "holds V [] e (e\<lparr>e_hw := d2\<rparr>)" by (simp add: holds_grows)
  have "holds V [] (e\<lparr>e_hw := d2\<rparr>) (snd (tx_queue M K S p n (e\<lparr>e_hw := d2\<rparr>)))"
    by (rule tx_queue_elsewhere [where S = S, OF M copy]) (simp add: apart)
  from holds_trans [OF h1 this] have h2: "holds V [] e (snd (tx_queue M K S p n (e\<lparr>e_hw := d2\<rparr>)))" by simp
  show ?thesis
  proof (cases x)
    case None
    then have "e' = stat_up tx_errors_update (e\<lparr>e_hw := d2\<rparr>)" using r t x True by (simp add: eth_netif_output_def)
    then show ?thesis using h1 by simp
  next
    case (Some y)
    then have "tx_queue M K S p n (e\<lparr>e_hw := d2\<rparr>) = (r, e')" using r t x True by (simp add: eth_netif_output_def)
    then show ?thesis using h2 by simp
  qed
qed


end
