(* ===== verification/Spec2Isabelle.thy ===== *)
theory Spec2Isabelle
  imports Prelude Machine Itoa Heap Fifo Locks Console Park Flash Rcc Owners Timers Pinmap Packages Exti Timing Rng Analog FlashDevice Eeprom Rtc Sdmmc Boot Buses Usb Eth EthFilter EthRings
begin

text \<open>
  A verification of the Arduino core for the CH32H4 dual-core microcontrollers
  (\<^verbatim>\<open>cores/ch32h4\<close>, \<^verbatim>\<open>variants\<close> and the C part of \<^verbatim>\<open>libraries\<close>).

  \<^bold>\<open>The program.\<close>  The part has two RISC-V cores.  The V3F boots first, sets up the clock tree
  and the console, replays the fault records of the last run and wakes the V5F, which runs
  the sketch.  The cores share memory, a pair of FIFOs, hardware semaphores, and one flash
  that neither may execute from while the other programs it.  On top sit the drivers a
  sketch calls: pins, timers, PWM, interrupts, the clock, the random numbers, the flash-backed
  EEPROM, the SD card.

  \<^bold>\<open>The hardware\<close> is a parameter.  A \<open>machine\<close> (theory \<open>Machine\<close>) gives, over an arbitrary
  state \<open>'d\<close>, what reading a register returns (and changes), what writing one does, what the
  millisecond counter says and what a call into the vendor SDK does; a driver function is
  translated into the sequence of these accesses, in the order and with the operands of the
  code, so a theorem holds for every behaviour of the device or names what it needs from it
  (a flag that comes on, a clock that advances).  The vendor's and the linker's constants are a
  function \<open>K\<close> from their names.  Functions of several cores take the machine per core and an
  environment step for what the other core does in between.  Concrete machines instantiate
  every such parameter: \<open>sim_machine\<close>, \<open>hsem_machine\<close>, \<open>uart_machine\<close> and the like.

  \<^bold>\<open>Theories, and the files they model.\<close>
  \<^item> \<open>Prelude\<close>, \<open>Machine\<close>: C integer types as words, the register interface, the bounded
    polling loops (\<open>guarded\<close>, \<open>wait_for\<close>, \<open>wait_until\<close>) with their termination lemmas, and
    the rule collections.
  \<^item> \<open>Itoa\<close> (\<^verbatim>\<open>itoa.c\<close>), \<open>Heap\<close> (\<^verbatim>\<open>ch32h4_sbrk.c\<close>): number printing; the two-region heap break.
  \<^item> \<open>Fifo\<close>, \<open>Locks\<close> (\<^verbatim>\<open>ch32h4_xcore.c\<close>): the rings between the cores, as functions and as a
    step relation over single memory accesses, refining a pair of queues through the locale of
    a bounded queue; the plain and recursive mutexes with a two-core step relation.
  \<^item> \<open>Console\<close> (\<^verbatim>\<open>ch32h4_console.c\<close>): the early console, its lock, and what it sends.
  \<^item> \<open>Park\<close> (\<^verbatim>\<open>ch32h4_park.c\<close>): parking the other core, as functions and as a protocol.
  \<^item> \<open>Flash\<close> (\<^verbatim>\<open>ch32h4_flash_ll.c\<close>, \<^verbatim>\<open>ch32h4_flash.c\<close>, \<^verbatim>\<open>ch32h4_ota.c\<close>): erasing, writing with
    read-back, and the commit of a firmware image; \<open>FlashDevice\<close>: the driver on a controller
    with a flash array behind it, which provides the interface that \<open>Eeprom\<close>
    (\<^verbatim>\<open>EEPROM.cpp\<close>) is a client of.
  \<^item> \<open>Rcc\<close> (\<^verbatim>\<open>ch32h4_rcc.c\<close>), \<open>Owners\<close> and \<open>Timers\<close> (\<^verbatim>\<open>ch32h4_timer.c\<close>): clock gates, block
    resets, the pin multiplexer; who owns a timer, and its update interrupt.
  \<^item> \<open>Pinmap\<close> (\<^verbatim>\<open>ch32h4_pinmap.c\<close>), \<open>Pkg_QEU6\<close> \<dots> \<open>Pkg_WEU6\<close> and \<open>Packages\<close>
    (\<^verbatim>\<open>variants\<close>): the lookups, the tables of the five packages, and what holds of all five.
  \<^item> \<open>Exti\<close> (\<^verbatim>\<open>WInterrupts.c\<close>), \<open>Timing\<close> (\<^verbatim>\<open>wiring_time.c\<close>, \<^verbatim>\<open>ch32h4_clock.c\<close>), \<open>Rng\<close>
    (\<^verbatim>\<open>ch32h4_rng.c\<close>), \<open>Analog\<close> (\<^verbatim>\<open>wiring_digital.c\<close>, \<^verbatim>\<open>wiring_analog.c\<close>, \<^verbatim>\<open>ch32h4_dac.c\<close>),
    \<open>Rtc\<close> (\<^verbatim>\<open>ch32h4_rtc.c\<close>, \<^verbatim>\<open>ch32h4_fatfs_time.c\<close>), \<open>Sdmmc\<close> (\<^verbatim>\<open>ch32h4_sdmmc.c\<close>,
    \<^verbatim>\<open>diskio.c\<close>, \<^verbatim>\<open>ch32h4_sd_disk.c\<close>).
  \<^item> \<open>Buses\<close> (\<^verbatim>\<open>ch32h4_spi.c\<close>, \<^verbatim>\<open>ch32h4_i2c.c\<close> and their \<^verbatim>\<open>_irq.c\<close>): buses, resets and interrupt
    dispatch of SPI and I2C; \<open>Usb\<close> (\<^verbatim>\<open>ch32h4_usb.c\<close>): the USB port and the guard of its task.
  \<^item> \<open>Eth\<close> (\<^verbatim>\<open>lwIP_Ethernet/src/ch32h4_eth.c\<close>, \<^verbatim>\<open>ch32h4_lwip_glue.c\<close>): the Ethernet driver, with
    lwIP a parameter that may re-enter it; \<open>EthRings\<close>: the receive ring against a DMA that keeps
    a queue of frames; \<open>EthFilter\<close>: the multicast hash table and the MAC's CRC.
  \<^item> \<open>Boot\<close> (\<^verbatim>\<open>main_v3f.c\<close>, \<^verbatim>\<open>main_v5f.c\<close>, \<^verbatim>\<open>ch32h4_fault.c\<close>): the start of both cores, the fault
    handler, and the boots that follow a crash.
  \<^item> This theory: PWM, the pin tables and the timer registry together.

  \<^bold>\<open>What the lemmas show.\<close>  In each theory the operations come first, then what every operation
  preserves, then the properties, each named C\<open>n\<close> in the text before it.  The leading ones: a
  power cut at any point of an EEPROM commit leaves the old contents or the new (C1); the
  FIFO delivers in order in every interleaving (C2); the flash is never programmed while the
  other core runs from it (C3), with the window the time-out leaves open (\<open>park_after_timeout_unsafe\<close>);
  mutexes exclude (C4); an SD transfer is a prefix of its plan (C5); a board whose sketch crashes on
  every boot comes to rest (C6); received frames reach lwIP in order and none is forgotten (C7).

  \<^bold>\<open>Bounds.\<close>  A loop the code bounds by a counter is recursion on that counter, with the
  code's own bound, so it is total; a loop bounded only by the clock or by a device is a
  \<open>partial_function (option)\<close>, \<open>None\<close> when it never ends, and the properties say when it is
  \<open>Some\<close>.  No bound was chosen for the proofs.  Integers keep their width.

  \<^bold>\<open>Not modelled.\<close>  The vendor's system file and the assembly start-up; what lies outside the
  repository (the SDK, TinyUSB, lwIP, mbedTLS); vendored third-party code (FatFs, littlefs,
  SPIFTL, http-parser, the Helix MP3 decoder, ArduinoCore-API) and its generated tables; the
  C++ driver classes and libraries, whose behaviour rests on virtual dispatch, interrupts
  and those libraries.  Of \<^verbatim>\<open>wiring_analog.c\<close> the two floating-point readings are left out.
  Memory is the C abstract machine's: no pointer arithmetic outside the objects named, and
  the two cores' stores become visible in program order except where a fence is in the code.
\<close>

section \<open>PWM, the pin tables and the timer registry\<close>

text \<open>
  C8. From power-on, on every package, through any sequence of \<open>analogWrite\<close>,
  \<open>analogWriteStop\<close>, changes of resolution and frequency, and timer claims and releases
  by other subsystems, where the frequencies asked for are below 65536 Hz (so that the PWM
  divisor never wraps to 0) and the others use owner names of their own: every call returns, a timer is held for PWM exactly while one of its channels is active, so
  the last stop gives it back, and no timer another subsystem holds is taken.
\<close>

theorem pwm_and_registry_agree:
  assumes "P \<in> set packages" "list_all wiring_op_ok (ops @ ops')"
  shows "\<exists>w d1 w' d2. wiring_run M K P ops (wiring_init :: 'h wiring, d) = Some (w, d1) \<and>
    wiring_run M K P ops' (w, d1) = Some (w', d2) \<and> pwm_consistent w' \<and>
    others_keep ops' (wi_tim w) (wi_tim w')"
proof -
  have r: "list_all (pwm_row_ok P) (g_pwm_af_map P)"
    using packages_cases(2) [OF assms(1)] by (simp add: package_rows_ok_def)
  have o: "list_all wiring_op_ok ops" "list_all wiring_op_ok ops'" using assms(2) by simp_all
  obtain w d1 where w: "wiring_run M K P ops (wiring_init :: 'h wiring, d) = Some (w, d1)" "wiring_wf w" "pwm_consistent w"
    using wiring_run_keeps [OF r o(1) wiring_init_ok, of M K d] by blast
  obtain w' d2 where "wiring_run M K P ops' (w, d1) = Some (w', d2)" "pwm_consistent w'"
    "others_keep ops' (wi_tim w) (wi_tim w')"
    using wiring_run_keeps [OF r o(2) w(2,3), of M K d1] by blast
  with w(1) show ?thesis by blast
qed

theorem pwm_and_registry_agree_witness:
  "\<exists>w d1 w' d2. wiring_run (sim_machine (\<lambda>_. None)) (\<lambda>_. 1) QEU6
       [ClaimOp 3 TIMER_TONE, ResOp 12, FreqOp 20000, WriteOp (PA 0) 128] (wiring_init :: unit wiring, sim_init) = Some (w, d1) \<and>
     wiring_run (sim_machine (\<lambda>_. None)) (\<lambda>_. 1) QEU6 [StopOp (PA 0)] (w, d1) = Some (w', d2) \<and>
     pwm_consistent w' \<and> others_keep [StopOp (PA 0)] (wi_tim w) (wi_tim w')"
  by (rule pwm_and_registry_agree) (simp_all add: packages_def TIMER_TONE_def TIMER_PWM_def)

end
